(* ===== verification/Prelude.thy ===== *)
theory Prelude
  imports Complex_Main
begin

text \<open>
  Shared vocabulary of the development: the types that every component uses (time, identifiers,
  JSON values, thrown JavaScript values, results of an awaited call), the collections of
  simplification rules, and generic facts about lists and rows that the component theories rely on.

  Time is an \<^typ>\<open>int\<close> counting microseconds, the resolution of the \<open>TIMESTAMPTZ\<close> columns.
  Counters are \<^typ>\<open>int\<close> with the bound of the SQL type \<open>INT\<close> written out where a statement
  increments one.
\<close>

section \<open>Types\<close>

type_synonym timestamp = int
type_synonym uuid = string

text \<open>JSON values, as \<open>JSON.parse\<close> produces them; an object keeps its properties in order.\<close>

datatype json =
    JNull
  | JBool bool
  | JNum rat
  | JStr string
  | JArr "json list"
  | JObj "(string \<times> json) list"

text \<open>
  A value a JavaScript \<open>throw\<close> or a promise rejection carries: an \<open>Error\<close> with its name, message
  and, for errors of drivers, its code; the worker's own class \<open>NonRetryableError\<close>; Node's
  \<open>AggregateError\<close>; or a thrown value that is no \<open>Error\<close>, given by what \<open>String\<close> makes of it.
\<close>

datatype js_error =
    JsError (err_name: string) (err_message: string) (err_code: "string option")
  | NonRetryableError string
  | AggregateError "js_error list" string "string option"
  | ThrownValue string

type_synonym 'a result = "js_error + 'a"

text \<open>The outcome of a call: \<open>Inl\<close> a rejection, \<open>Inr\<close> the value, with the state it leaves behind.\<close>

type_synonym ('s, 'a) outcome = "'a result \<times> 's"

section \<open>Collections of rules\<close>

named_theorems sql_simps \<open>what a SQL statement of the source does to a table\<close>
named_theorems set_clauses \<open>the assignments of the \<open>UPDATE\<close> statements on jobs\<close>
named_theorems int4_simps \<open>the range of \<open>INT\<close> columns\<close>

section \<open>Small helpers of the language and the driver\<close>

text \<open>\<open>result.rows[0] ?? null\<close>\<close>

definition first_row :: "'r list \<Rightarrow> 'r option" where
  "first_row rows = (case rows of [] \<Rightarrow> None | r # _ \<Rightarrow> Some r)"

text \<open>The property \<open>k\<close> of an object, \<open>None\<close> for \<open>undefined\<close>.\<close>

definition js_get :: "string \<Rightarrow> (string \<times> json) list \<Rightarrow> json option" where
  "js_get k props = map_of props k"

text \<open>\<open>err instanceof Error ? err.message : String(err)\<close>\<close>

fun error_text :: "js_error \<Rightarrow> string" where
  "error_text (JsError n m c) = m"
| "error_text (NonRetryableError m) = m"
| "error_text (AggregateError es m c) = m"
| "error_text (ThrownValue s) = s"

text \<open>
  How a template literal or \<open>String\<close> renders a value (a number that is no integer is not
  rendered; no statement of the development depends on it).
\<close>

fun nat_text :: "nat \<Rightarrow> string" where
  "nat_text n = (if n < 10 then [char_of (48 + n)] else nat_text (n div 10) @ [char_of (48 + n mod 10)])"

declare nat_text.simps [simp del]

definition int_text :: "int \<Rightarrow> string" where
  "int_text n = (if n < 0 then ''-'' @ nat_text (nat (- n)) else nat_text (nat n))"

fun join :: "string \<Rightarrow> string list \<Rightarrow> string" where
  "join sep [] = []"
| "join sep [x] = x"
| "join sep (x # y # xs) = x @ sep @ join sep (y # xs)"

fun js_text :: "json \<Rightarrow> string" where
  "js_text (JStr s) = s"
| "js_text JNull = ''null''"
| "js_text (JBool b) = (if b then ''true'' else ''false'')"
| "js_text (JNum q) = (if q \<in> \<int> then int_text \<lfloor>q\<rfloor> else [])"
| "js_text (JArr vs) = join '','' (map (\<lambda>v. if v = JNull then [] else js_text v) vs)"
| "js_text (JObj ps) = ''[object Object]''"

definition id_text :: "json option \<Rightarrow> string" where
  "id_text v = (case v of None \<Rightarrow> ''undefined'' | Some w \<Rightarrow> js_text w)"

text \<open>The truth value of an optional string: absent and empty are false.\<close>

definition truthy :: "string option \<Rightarrow> bool" where
  "truthy v \<longleftrightarrow> (case v of None \<Rightarrow> False | Some s \<Rightarrow> s \<noteq> [])"

text \<open>\<open>process.env.X || "default"\<close>, and \<open>.replace(/\/$/, "")\<close> as the scripts use it on their addresses.\<close>

definition env_or :: "string option \<Rightarrow> string \<Rightarrow> string" where
  "env_or v d = (if truthy v then the v else d)"

definition strip_slash :: "string \<Rightarrow> string" where
  "strip_slash s = (if s \<noteq> [] \<and> last s = CHR ''/'' then butlast s else s)"

text \<open>The largest value of an \<open>INT\<close> column.\<close>

definition int4_max :: int where
  "int4_max = 2147483647"

declare int4_max_def [int4_simps]

section \<open>Facts about lists\<close>

lemma first_row_simps [simp]:
  "first_row [] = None"
  "first_row (r # rs) = Some r"
  by (simp_all add: first_row_def)

lemma first_row_None_iff [simp]: "first_row rows = None \<longleftrightarrow> rows = []"
  by (simp add: first_row_def split: list.splits)

lemma first_row_in_set: "first_row rows = Some r \<Longrightarrow> r \<in> set rows"
  by (auto simp: first_row_def split: list.splits)

lemma first_row_map: "first_row (map f rows) = map_option f (first_row rows)"
  by (simp add: first_row_def split: list.splits)

lemma map_if_id: "(\<And>x. x \<in> set xs \<Longrightarrow> \<not> P x) \<Longrightarrow> map (\<lambda>x. if P x then f x else x) xs = xs"
  by (induction xs) auto

lemma sum_list_map_upd1:
  fixes g :: "'a \<Rightarrow> int"
  shows "sum_list (map g (map (\<lambda>r. if P r then f r else r) xs))
       = sum_list (map g xs) + sum_list (map (\<lambda>r. g (f r) - g r) (filter P xs))"
  by (induction xs) auto

lemma distinct_filter_key:
  assumes "distinct (map key xs)"
  shows "length (filter (\<lambda>r. key r = k \<and> P r) xs) \<le> 1"
  using assms
proof (induction xs)
  case Nil
  then show ?case by simp
next
  case (Cons x xs)
  show ?case
  proof (cases "key x = k \<and> P x")
    case True
    then have "\<forall>r \<in> set xs. key r \<noteq> k" using Cons.prems by (auto simp: image_iff)
    then have "filter (\<lambda>r. key r = k \<and> P r) xs = []" by (auto simp: filter_empty_conv)
    with True show ?thesis by simp
  next
    case False
    then show ?thesis using Cons by auto
  qed
qed

lemma filter_key_single:
  assumes "distinct (map key xs)" and "r \<in> set xs" and "key r = k" and "P r"
  shows "filter (\<lambda>r. key r = k \<and> P r) xs = [r]"
proof -
  have "r \<in> set (filter (\<lambda>r. key r = k \<and> P r) xs)" using assms by simp
  with distinct_filter_key [OF assms(1), of k P] show ?thesis
    by (cases "filter (\<lambda>r. key r = k \<and> P r) xs") auto
qed

section \<open>Machines driven by lists of events\<close>

text \<open>
  The processes and the dashboard are step functions folded over a list of events. What each step on an admissible
  event keeps, holds after every run of such events.
\<close>

locale machine_invariant =
  fixes step :: "'e \<Rightarrow> 's \<Rightarrow> 's" and admissible :: "'e \<Rightarrow> bool" and invar :: "'s \<Rightarrow> bool"
  assumes keeps: "invar s \<Longrightarrow> admissible e \<Longrightarrow> invar (step e s)"
begin

lemma run: "invar s \<Longrightarrow> list_all admissible es \<Longrightarrow> invar (fold step es s)"
  by (induction es arbitrary: s) (simp_all add: keeps)

lemma run_each: "invar s \<Longrightarrow> (\<And>e. admissible e) \<Longrightarrow> invar (fold step es s)"
  by (rule run) (simp_all add: list_all_iff)

end

end
