(* ===== verification/Database.thy ===== *)
theory Database
  imports Prelude
begin

text \<open>
  The PostgreSQL database of the platform: the rows of the tables \<open>jobs\<close> and \<open>outbox_events\<close>
  (infra/migrations), the meaning of the SQL statement forms the source uses, and the ways an
  awaited query can end.

  A table is the list of its rows. \<open>UPDATE \<dots> SET \<dots> WHERE \<dots> RETURNING *\<close> is
  \<open>sql_update\<close>, which rewrites the matching rows in place and returns the rewritten ones; one
  statement is atomic, because PostgreSQL locks the rows it updates. The value of \<open>now()\<close> and of
  \<open>gen_random_uuid()\<close> are arguments of the statements.

  \<open>query\<close> is \<open>await pool.query(\<dots>)\<close>: the statement runs and answers, or the connection fails
  before it runs, or it runs and the answer is lost.
\<close>

section \<open>Rows\<close>

datatype status = QUEUED | PROCESSING | COMPLETED | FAILED | RETRYING | DEAD_LETTERED

text \<open>A row of \<open>jobs\<close>, the interface \<open>Job\<close> of both job services.\<close>

record job =
  jid :: uuid
  jtype :: string
  payload :: "(string \<times> json) list"
  status :: status
  attempt_count :: int
  max_attempts :: int
  last_error :: "string option"
  created_at :: timestamp
  updated_at :: timestamp
  total_attempt_count :: int
  replay_count :: int
  last_dead_lettered_at :: "timestamp option"
  last_dead_letter_reason :: "string option"

text \<open>A row of \<open>outbox_events\<close>.\<close>

record outbox_event =
  ev_id :: uuid
  ev_job_id :: uuid
  ev_created_at :: timestamp
  claimed_at :: "timestamp option"
  published_at :: "timestamp option"
  attempts :: int
  ev_last_error :: "string option"

record db =
  jobs :: "job list"
  outbox_events :: "outbox_event list"

section \<open>Statements\<close>

definition sql_update :: "('r \<Rightarrow> bool) \<Rightarrow> ('r \<Rightarrow> 'r) \<Rightarrow> 'r list \<Rightarrow> 'r list \<times> 'r list" where
  "sql_update P u rows = (map (\<lambda>r. if P r then u r else r) rows, map u (filter P rows))"

declare sql_update_def [sql_simps]

text \<open>Adding 1 to an \<open>INT\<close> column raises \<open>22003\<close> (numeric value out of range) at its maximum.\<close>

definition int4_overflow :: "int \<Rightarrow> bool" where
  "int4_overflow n \<longleftrightarrow> n \<ge> int4_max"

declare int4_overflow_def [int4_simps]

definition pg_error :: "string \<Rightarrow> js_error" where
  "pg_error code = JsError ''error'' ''database error'' (Some code)"

text \<open>
  A statement maps a database to an error or to its answer and the new database. A failing
  statement changes nothing.
\<close>

type_synonym 'a statement = "db \<Rightarrow> js_error + ('a \<times> db)"

text \<open>
  What the driver and the type \<open>UUID\<close> make of a bound parameter: an error \<open>22P02\<close>, SQL's \<open>NULL\<close>
  (\<open>Inr None\<close>), or a value. Driver and server are not part of the sources: this is a parameter.
\<close>

type_synonym uuid_input = "json option \<Rightarrow> js_error + uuid option"

section \<open>Awaited queries\<close>

datatype io = Io_ok | Io_fail js_error | Io_lost js_error

definition query :: "io \<Rightarrow> 'a statement \<Rightarrow> db \<Rightarrow> (db, 'a) outcome" where
  "query i st d = (case i of
      Io_ok \<Rightarrow> (case st d of Inl e \<Rightarrow> (Inl e, d) | Inr (a, d') \<Rightarrow> (Inr a, d'))
    | Io_fail e \<Rightarrow> (Inl e, d)
    | Io_lost e \<Rightarrow> (case st d of Inl _ \<Rightarrow> (Inl e, d) | Inr (a, d') \<Rightarrow> (Inl e, d')))"

text \<open>
  \<open>UPDATE jobs SET s WHERE id = $1 AND P RETURNING *\<close>, the form of every update of a job. \<open>ovf\<close>
  says of a row whether an increment in \<open>s\<close> leaves the range of \<open>INT\<close>; comparing with \<open>NULL\<close>
  selects no row.
\<close>

definition job_update ::
  "(job \<Rightarrow> bool) \<Rightarrow> (job \<Rightarrow> job) \<Rightarrow> (job \<Rightarrow> bool) \<Rightarrow> uuid_input \<Rightarrow> json option \<Rightarrow> job list statement"
where
  "job_update P s ovf uin v d = (case uin v of
      Inl e \<Rightarrow> Inl e
    | Inr None \<Rightarrow> Inr ([], d)
    | Inr (Some u) \<Rightarrow>
        (if list_ex (\<lambda>j. jid j = u \<and> P j \<and> ovf j) (jobs d) then Inl (pg_error ''22003'')
         else (let (rows, ret) = sql_update (\<lambda>j. jid j = u \<and> P j) s (jobs d)
               in Inr (ret, d\<lparr>jobs := rows\<rparr>))))"

declare job_update_def [sql_simps]

text \<open>The job with a given identifier, and the identifiers in use.\<close>

definition find_job :: "db \<Rightarrow> uuid \<Rightarrow> job option" where
  "find_job d u = find (\<lambda>j. jid j = u) (jobs d)"

definition find_event :: "db \<Rightarrow> uuid \<Rightarrow> outbox_event option" where
  "find_event d u = find (\<lambda>e. ev_id e = u) (outbox_events d)"

text \<open>
  The constraints of the schema that the rows satisfy: primary keys, the foreign key of
  \<open>outbox_events\<close>, the range of the \<open>INT\<close> columns.
\<close>

definition int4 :: "int \<Rightarrow> bool" where
  "int4 n \<longleftrightarrow> - int4_max - 1 \<le> n \<and> n \<le> int4_max"

declare int4_def [int4_simps]

definition job_row_ok :: "job \<Rightarrow> bool" where
  "job_row_ok j \<longleftrightarrow> int4 (attempt_count j) \<and> int4 (max_attempts j)
     \<and> int4 (total_attempt_count j) \<and> int4 (replay_count j)"

definition schema_ok :: "db \<Rightarrow> bool" where
  "schema_ok d \<longleftrightarrow> distinct (map jid (jobs d)) \<and> distinct (map ev_id (outbox_events d))
     \<and> list_all job_row_ok (jobs d) \<and> list_all (\<lambda>e. int4 (attempts e)) (outbox_events d)
     \<and> list_all (\<lambda>e. ev_job_id e \<in> set (map jid (jobs d))) (outbox_events d)"

section \<open>Status as a finite, ordered type\<close>

instantiation status :: enum
begin

definition enum_status_inst [simp]:
  "enum_class.enum = [QUEUED, PROCESSING, COMPLETED, FAILED, RETRYING, DEAD_LETTERED]"

definition enum_all_status_inst [simp]:
  "enum_class.enum_all P \<longleftrightarrow> P QUEUED \<and> P PROCESSING \<and> P COMPLETED \<and> P FAILED \<and> P RETRYING \<and> P DEAD_LETTERED"

definition enum_ex_status_inst [simp]:
  "enum_class.enum_ex P \<longleftrightarrow> P QUEUED \<or> P PROCESSING \<or> P COMPLETED \<or> P FAILED \<or> P RETRYING \<or> P DEAD_LETTERED"

instance
proof
  show UN: "(UNIV :: status set) = set enum_class.enum"
    by (auto intro: status.exhaust)
  show "distinct (enum_class.enum :: status list)" by simp
  show "enum_class.enum_all P = Ball UNIV P" for P :: "status \<Rightarrow> bool"
    by (simp add: UN del: enum_status_inst) (simp)
  show "enum_class.enum_ex P = Bex UNIV P" for P :: "status \<Rightarrow> bool"
    by (simp add: UN del: enum_status_inst) (simp)
qed

end

section \<open>A table under a conditional update\<close>

text \<open>
  Every \<open>UPDATE\<close> of the source rewrites non-key columns of the rows a condition selects. The
  locale collects what follows from that for the table: its keys stay, other rows stay, and the
  row of a key is found again, rewritten exactly when the condition held.
\<close>

locale keyed_update =
  fixes key :: "'r \<Rightarrow> 'k" and upd :: "'r \<Rightarrow> 'r"
  assumes key_upd: "key (upd r) = key r"
begin

lemma keys_update [simp]: "map key (fst (sql_update P upd rows)) = map key rows"
  by (induction rows) (auto simp: sql_update_def key_upd)

lemma find_update:
  "distinct (map key rows) \<Longrightarrow>
   find (\<lambda>r. key r = k) (fst (sql_update P upd rows))
   = map_option (\<lambda>r. if P r then upd r else r) (find (\<lambda>r. key r = k) rows)"
  by (induction rows) (auto simp: sql_update_def key_upd)

lemma returning_update:
  assumes "distinct (map key rows)"
  shows "snd (sql_update (\<lambda>r. key r = k \<and> P r) upd rows)
    = (case find (\<lambda>r. key r = k) rows of
         None \<Rightarrow> []
       | Some r \<Rightarrow> (if P r then [upd r] else []))"
proof (cases "find (\<lambda>r. key r = k) rows")
  case None
  then have "filter (\<lambda>r. key r = k \<and> P r) rows = []"
    by (auto simp: find_None_iff filter_empty_conv)
  with None show ?thesis by (simp add: sql_update_def)
next
  case (Some r)
  then have r: "r \<in> set rows" "key r = k" by (auto simp: find_Some_iff)
  show ?thesis
  proof (cases "P r")
    case True
    with Some r assms show ?thesis
      by (simp add: sql_update_def filter_key_single [OF assms r])
  next
    case False
    have "\<And>s. s \<in> set rows \<Longrightarrow> key s = k \<Longrightarrow> s = r"
      using assms r by (auto simp: distinct_map inj_on_def)
    then have "filter (\<lambda>r. key r = k \<and> P r) rows = []"
      using False by (auto simp: filter_empty_conv)
    with False Some show ?thesis by (simp add: sql_update_def)
  qed
qed

lemma update_other:
  "r \<in> set rows \<Longrightarrow> \<not> P r \<Longrightarrow> r \<in> set (fst (sql_update P upd rows))"
  by (force simp: sql_update_def)

lemma update_set: "set (fst (sql_update P upd rows)) = {if P r then upd r else r |r. r \<in> set rows}"
  by (auto simp: sql_update_def)

end

section \<open>Facts about queries and lookups\<close>

lemma query_simps [simp]:
  "query Io_ok st d = (case st d of Inl e \<Rightarrow> (Inl e, d) | Inr (a, d') \<Rightarrow> (Inr a, d'))"
  "query (Io_fail e) st d = (Inl e, d)"
  by (simp_all add: query_def)

text \<open>The database after a query is the one before or the one the statement produces.\<close>

lemma query_cases:
  assumes "query i st d = (r, d')"
  obtains (unchanged) e where "d' = d" "r = Inl e"
  | (answered) a where "st d = Inr (a, d')" "r = Inr a" "i = Io_ok"
  | (lost) a e where "st d = Inr (a, d')" "r = Inl e" "i = Io_lost e"
  using assms by (auto simp: query_def split: io.splits sum.splits prod.splits)

lemma query_Inr_iff: "query i st d = (Inr a, d') \<longleftrightarrow> i = Io_ok \<and> st d = Inr (a, d')"
  by (auto simp: query_def split: io.splits sum.splits)

text \<open>A predicate the statement keeps is kept by the query, whatever becomes of the connection.\<close>

lemma query_preserves:
  assumes "\<And>a d'. st d = Inr (a, d') \<Longrightarrow> I d'" and "I d"
  shows "I (snd (query i st d))"
  using assms by (auto simp: query_def split: io.splits sum.splits)

lemma find_job_Some: "find_job d u = Some j \<Longrightarrow> j \<in> set (jobs d) \<and> jid j = u"
  by (auto simp: find_job_def find_Some_iff)

lemma find_job_None: "find_job d u = None \<longleftrightarrow> u \<notin> set (map jid (jobs d))"
  by (auto simp: find_job_def find_None_iff)

lemma find_job_in:
  assumes "schema_ok d" and "j \<in> set (jobs d)"
  shows "find_job d (jid j) = Some j"
proof (cases "find_job d (jid j)")
  case None
  with assms show ?thesis by (simp add: find_job_None)
next
  case (Some k)
  then have "k \<in> set (jobs d)" "jid k = jid j" by (auto dest: find_job_Some)
  with assms Some show ?thesis
    by (auto simp: schema_ok_def distinct_map inj_on_def)
qed

lemma find_job_iff:
  "schema_ok d \<Longrightarrow> find_job d u = Some j \<longleftrightarrow> j \<in> set (jobs d) \<and> jid j = u"
  using find_job_in find_job_Some by blast

section \<open>The contract of a job statement\<close>

text \<open>
  What an update \<open>SET s WHERE id = $1 AND P\<close> may have done when its parameter was bound to \<open>b\<close>:
  nothing, or rewritten the one row the parameter names, which satisfied \<open>P\<close>.
\<close>

definition job_effect :: "(job \<Rightarrow> bool) \<Rightarrow> (job \<Rightarrow> job) \<Rightarrow> js_error + uuid option \<Rightarrow> db \<Rightarrow> db \<Rightarrow> bool" where
  "job_effect P s b d d' \<longleftrightarrow> d' = d \<or>
     (\<exists>u j. b = Inr (Some u) \<and> find_job d u = Some j \<and> P j \<and> find_job d' = (find_job d)(u \<mapsto> s j)
        \<and> map jid (jobs d') = map jid (jobs d) \<and> outbox_events d' = outbox_events d)"

text \<open>
  A statement of the form \<open>job_update\<close> is correct for the schema when it rewrites no key and keeps
  the columns in range. Everything the services and the handlers need to know about it is proved
  here once, and holds for each statement of the source by an interpretation.
\<close>

locale job_statement =
  fixes P :: "job \<Rightarrow> bool" and s :: "job \<Rightarrow> job" and ovf :: "job \<Rightarrow> bool"
  assumes jid_s: "jid (s j) = jid j"
    and row_s: "job_row_ok j \<Longrightarrow> P j \<Longrightarrow> \<not> ovf j \<Longrightarrow> job_row_ok (s j)"

sublocale job_statement \<subseteq> ku: keyed_update jid s
  by unfold_locales (rule jid_s)

context job_statement
begin

lemma null_param: "uin v = Inr None \<Longrightarrow> job_update P s ovf uin v d = Inr ([], d)"
  by (simp add: job_update_def)

lemma bad_param: "uin v = Inl e \<Longrightarrow> job_update P s ovf uin v d = Inl e"
  by (simp add: job_update_def)

lemma run_cases:
  assumes "job_update P s ovf uin v d = Inr (ret, d')"
  obtains (null) "uin v = Inr None" "d' = d" "ret = []"
  | (sel) u where "uin v = Inr (Some u)"
      "\<forall>j \<in> set (jobs d). jid j = u \<longrightarrow> P j \<longrightarrow> \<not> ovf j"
      "d' = d\<lparr>jobs := fst (sql_update (\<lambda>j. jid j = u \<and> P j) s (jobs d))\<rparr>"
      "ret = snd (sql_update (\<lambda>j. jid j = u \<and> P j) s (jobs d))"
proof (cases "uin v")
  case (Inl e)
  with assms show ?thesis by (simp add: job_update_def)
next
  case (Inr p)
  show ?thesis
  proof (cases p)
    case None
    with Inr assms null show ?thesis by (simp add: job_update_def)
  next
    case (Some u)
    with Inr assms show ?thesis
      by (intro sel [of u]) (auto simp: job_update_def list_ex_iff split: if_splits prod.splits)
  qed
qed

lemma outbox_unchanged: "job_update P s ovf uin v d = Inr (ret, d') \<Longrightarrow> outbox_events d' = outbox_events d"
  by (erule run_cases) simp_all

lemma ids_unchanged: "job_update P s ovf uin v d = Inr (ret, d') \<Longrightarrow> map jid (jobs d') = map jid (jobs d)"
  by (erule run_cases) simp_all

lemma find_after:
  assumes ok: "schema_ok d" and run: "job_update P s ovf uin v d = Inr (ret, d')" and u: "uin v = Inr (Some u)"
  shows "find_job d' w = (if w = u then map_option (\<lambda>j. if P j then s j else j) (find_job d u) else find_job d w)"
proof -
  have d': "jobs d' = fst (sql_update (\<lambda>j. jid j = u \<and> P j) s (jobs d))"
    using run u by (auto simp: job_update_def split: if_splits prod.splits)
  have "find_job d' w = map_option (\<lambda>j. if jid j = u \<and> P j then s j else j) (find_job d w)"
    using ok by (simp add: find_job_def d' ku.find_update schema_ok_def)
  moreover have "map_option (\<lambda>j. if jid j = u \<and> P j then s j else j) (find_job d w)
      = (if w = u then map_option (\<lambda>j. if P j then s j else j) (find_job d u) else find_job d w)"
    by (cases "find_job d w") (auto dest: find_job_Some)
  ultimately show ?thesis by simp
qed

lemma returned:
  assumes ok: "schema_ok d" and run: "job_update P s ovf uin v d = Inr (ret, d')" and u: "uin v = Inr (Some u)"
  shows "ret = (case find_job d u of None \<Rightarrow> [] | Some j \<Rightarrow> (if P j then [s j] else []))"
proof -
  have "ret = snd (sql_update (\<lambda>j. jid j = u \<and> P j) s (jobs d))"
    using run u by (auto simp: job_update_def split: if_splits prod.splits)
  then show ?thesis using ok by (simp add: ku.returning_update find_job_def schema_ok_def)
qed

text \<open>The statement fails only on a malformed identifier or on a counter at its maximum.\<close>

lemma succeeds:
  assumes ok: "schema_ok d" and u: "uin v = Inr (Some u)"
    and no_ovf: "\<And>j. find_job d u = Some j \<Longrightarrow> P j \<Longrightarrow> \<not> ovf j"
  shows "\<exists>ret d'. job_update P s ovf uin v d = Inr (ret, d')"
proof -
  have "\<not> list_ex (\<lambda>j. jid j = u \<and> P j \<and> ovf j) (jobs d)"
    using no_ovf ok by (auto simp: list_ex_iff find_job_iff)
  then show ?thesis using u by (simp add: job_update_def split: prod.splits)
qed

lemma keeps_rows:
  assumes ok: "schema_ok d" and run: "job_update P s ovf uin v d = Inr (ret, d')"
  shows "list_all job_row_ok (jobs d')"
  using run
proof (cases rule: run_cases)
  case null
  with ok show ?thesis by (simp add: schema_ok_def)
next
  case (sel u)
  with ok row_s show ?thesis
    by (auto simp: list_all_iff schema_ok_def ku.update_set)
qed

lemma keeps_schema:
  assumes ok: "schema_ok d" and run: "job_update P s ovf uin v d = Inr (ret, d')"
  shows "schema_ok d'"
  using ok keeps_rows [OF assms] ids_unchanged [OF run] outbox_unchanged [OF run]
  by (auto simp: schema_ok_def simp flip: set_map)

text \<open>Every row of the new table was there before, or is the rewritten row of the parameter.\<close>

lemma rows_after:
  assumes "job_update P s ovf uin v d = Inr (ret, d')" and "j' \<in> set (jobs d')"
  shows "j' \<in> set (jobs d) \<or> (\<exists>j \<in> set (jobs d). P j \<and> \<not> ovf j \<and> j' = s j \<and> uin v = Inr (Some (jid j)))"
  using assms by (elim run_cases) (auto simp: sql_update_def split: if_splits)

lemma no_match:
  assumes "job_update P s ovf uin v d = Inr ([], d')"
  shows "d' = d"
  using assms
proof (cases rule: run_cases)
  case null
  then show ?thesis by simp
next
  case (sel u)
  then have "fst (sql_update (\<lambda>j. jid j = u \<and> P j) s (jobs d)) = jobs d"
    by (auto simp: sql_update_def filter_empty_conv intro: map_if_id)
  with sel show ?thesis by simp
qed

lemma matched:
  assumes ok: "schema_ok d" and run: "job_update P s ovf uin v d = Inr (r # rs, d')"
  shows "\<exists>u j. uin v = Inr (Some u) \<and> find_job d u = Some j \<and> P j \<and> r = s j \<and> rs = []
    \<and> find_job d' = (find_job d)(u \<mapsto> s j)"
  using run
proof (cases rule: run_cases)
  case null
  then show ?thesis by simp
next
  case (sel u)
  have "r # rs = (case find_job d u of None \<Rightarrow> [] | Some j \<Rightarrow> (if P j then [s j] else []))"
    by (rule returned [OF ok run sel(1)])
  then obtain j where j: "find_job d u = Some j" "P j" "r = s j" "rs = []"
    by (auto split: option.splits if_splits)
  moreover have "find_job d' = (find_job d)(u \<mapsto> s j)"
    using j by (auto simp: fun_eq_iff find_after [OF ok run sel(1)])
  ultimately show ?thesis using sel(1) by blast
qed

lemma effect:
  assumes ok: "schema_ok d" and run: "job_update P s ovf uin v d = Inr (ret, d')"
  shows "job_effect P s (uin v) d d' \<and> schema_ok d'"
proof (cases ret)
  case Nil
  with run no_match have "d' = d" by blast
  with ok show ?thesis by (simp add: job_effect_def)
next
  case (Cons r rs)
  with matched [OF ok] run have "\<exists>u j. uin v = Inr (Some u) \<and> find_job d u = Some j \<and> P j \<and> find_job d' = (find_job d)(u \<mapsto> s j)"
    by blast
  then show ?thesis
    unfolding job_effect_def
    using keeps_schema [OF ok run] ids_unchanged [OF run] outbox_unchanged [OF run] by blast
qed

text \<open>The same for the awaited query, whatever becomes of the connection.\<close>

lemma query_effect:
  assumes ok: "schema_ok d" and run: "query i (job_update P s ovf uin v) d = (r, d')"
  shows "job_effect P s (uin v) d d' \<and> schema_ok d'"
  using run
proof (cases rule: query_cases)
  case (unchanged e)
  with ok show ?thesis by (simp add: job_effect_def)
qed (use effect [OF ok] in blast)+

text \<open>On a job that exists and no counter at its maximum, the condition decides what happens.\<close>

lemma hit:
  assumes ok: "schema_ok d" and u: "uin v = Inr (Some u)" and j: "find_job d u = Some j" "P j" "\<not> ovf j"
  shows "\<exists>d'. job_update P s ovf uin v d = Inr ([s j], d') \<and> find_job d' = (find_job d)(u \<mapsto> s j)
    \<and> schema_ok d' \<and> outbox_events d' = outbox_events d"
proof -
  obtain ret d' where run: "job_update P s ovf uin v d = Inr (ret, d')"
    using succeeds [where uin = uin and v = v, OF ok u] j by auto
  moreover from returned [OF ok run u] j have "ret = [s j]" by simp
  moreover have "find_job d' = (find_job d)(u \<mapsto> s j)"
    using j by (auto simp: fun_eq_iff find_after [OF ok run u])
  ultimately show ?thesis using keeps_schema [OF ok run] outbox_unchanged [OF run] by blast
qed

lemma miss:
  assumes ok: "schema_ok d" and u: "uin v = Inr (Some u)" and j: "\<And>j. find_job d u = Some j \<Longrightarrow> \<not> P j"
  shows "job_update P s ovf uin v d = Inr ([], d)"
proof -
  obtain ret d' where run: "job_update P s ovf uin v d = Inr (ret, d')"
    using succeeds [where uin = uin and v = v, OF ok u] j by auto
  moreover from returned [OF ok run u] j have "ret = []" by (simp split: option.splits)
  ultimately show ?thesis using no_match by blast
qed

end

section \<open>A concrete database\<close>

text \<open>
  An instance of the driver's parameter binding that reads every string as an identifier, and a
  database with one job: the concrete inputs at which theorems with hypotheses are applied.
\<close>

definition plain_uin :: uuid_input where
  "plain_uin v = (case v of
      None \<Rightarrow> Inr None
    | Some JNull \<Rightarrow> Inr None
    | Some (JStr s) \<Rightarrow> Inr (Some s)
    | Some _ \<Rightarrow> Inl (pg_error ''22P02''))"

definition sample_job :: "status \<Rightarrow> int \<Rightarrow> (string \<times> json) list \<Rightarrow> job" where
  "sample_job st n pl = \<lparr>jid = ''j1'', jtype = ''email'', payload = pl, status = st, attempt_count = n,
     max_attempts = 5, last_error = None, created_at = 0, updated_at = 0, total_attempt_count = n, replay_count = 0,
     last_dead_lettered_at = None, last_dead_letter_reason = None\<rparr>"

definition sample_db :: "job \<Rightarrow> db" where
  "sample_db j = \<lparr>jobs = [j], outbox_events = []\<rparr>"

abbreviation j1 :: "json option" where
  "j1 \<equiv> Some (JStr ''j1'')"

lemma plain_uin_j1 [simp]: "plain_uin (Some (JStr u)) = Inr (Some u)"
  by (simp add: plain_uin_def)

lemma sample_schema [simp]: "0 \<le> n \<Longrightarrow> n \<le> int4_max \<Longrightarrow> schema_ok (sample_db (sample_job st n pl))"
  by (simp add: schema_ok_def sample_db_def sample_job_def job_row_ok_def int4_def int4_max_def)

lemma sample_find: "find_job (sample_db (sample_job st n pl)) u = (if u = ''j1'' then Some (sample_job st n pl) else None)"
  by (simp add: find_job_def sample_db_def sample_job_def)

lemma sample_job_simps [simp]:
  "jid (sample_job st n pl) = ''j1''" "status (sample_job st n pl) = st" "payload (sample_job st n pl) = pl"
  "attempt_count (sample_job st n pl) = n" "total_attempt_count (sample_job st n pl) = n"
  "max_attempts (sample_job st n pl) = 5" "updated_at (sample_job st n pl) = 0" "replay_count (sample_job st n pl) = 0"
  by (simp_all add: sample_job_def)

end
