(* ===== verification/Lifecycle.thy ===== *)
theory Lifecycle
  imports Database
begin

text \<open>
  The life of a job as the documentation states it (docs/failure-handling.md, docs/architecture.md):
  the abstract machine that the SQL statements of the two job services refine. A \<open>life\<close> keeps what
  the platform promises about a job: its status, the attempts used in the current replay cycle, the
  lifetime number of claims and of replays, the current error and the reason of the last
  dead-lettering. Identity, payload and times are not part of it; \<open>life_of\<close> forgets them.
\<close>

record life =
  phase :: status
  used :: int
  claims :: int
  replays :: int
  failure :: "string option"
  grave :: "string option"

datatype life_event = Claim | Complete | Retry string | DeadLetter string | Replay

definition newborn :: life where
  "newborn = \<lparr>phase = QUEUED, used = 0, claims = 0, replays = 0, failure = None, grave = None\<rparr>"

inductive life_step :: "life \<Rightarrow> life_event \<Rightarrow> life \<Rightarrow> bool" where
  claim: "phase l \<in> {QUEUED, RETRYING, PROCESSING} \<Longrightarrow>
     life_step l Claim (l\<lparr>phase := PROCESSING, used := used l + 1, claims := claims l + 1\<rparr>)"
| complete: "phase l = PROCESSING \<Longrightarrow> life_step l Complete (l\<lparr>phase := COMPLETED, failure := None\<rparr>)"
| retry: "phase l = PROCESSING \<Longrightarrow> life_step l (Retry m) (l\<lparr>phase := RETRYING, failure := Some m\<rparr>)"
| dead_letter: "phase l = PROCESSING \<Longrightarrow>
     life_step l (DeadLetter m) (l\<lparr>phase := DEAD_LETTERED, failure := Some m, grave := Some m\<rparr>)"
| replay: "phase l = DEAD_LETTERED \<Longrightarrow>
     life_step l Replay (l\<lparr>phase := QUEUED, used := 0, replays := replays l + 1, failure := None\<rparr>)"

inductive life_reach :: "life \<Rightarrow> bool" where
  born: "life_reach newborn"
| lives: "life_reach l \<Longrightarrow> life_step l e l' \<Longrightarrow> life_reach l'"

text \<open>The abstraction of a row.\<close>

definition life_of :: "job \<Rightarrow> life" where
  "life_of j = \<lparr>phase = status j, used = attempt_count j, claims = total_attempt_count j,
     replays = replay_count j, failure = last_error j, grave = last_dead_letter_reason j\<rparr>"

text \<open>What a life keeps true at all times.\<close>

definition life_inv :: "life \<Rightarrow> bool" where
  "life_inv l \<longleftrightarrow>
     0 \<le> used l \<and> used l \<le> claims l \<and> 0 \<le> replays l
   \<and> phase l \<noteq> FAILED
   \<and> (phase l = QUEUED \<longrightarrow> used l = 0 \<and> failure l = None)
   \<and> (phase l \<noteq> QUEUED \<longrightarrow> 1 \<le> used l)
   \<and> (phase l = COMPLETED \<longrightarrow> failure l = None)
   \<and> (phase l = RETRYING \<longrightarrow> failure l \<noteq> None)
   \<and> (phase l = DEAD_LETTERED \<longrightarrow> grave l \<noteq> None \<and> failure l = grave l)
   \<and> (0 < replays l \<longrightarrow> grave l \<noteq> None)
   \<and> (replays l = 0 \<longrightarrow> used l = claims l)"

inductive_cases life_step_from_Claim: "life_step l Claim l'"
inductive_cases life_step_to: "life_step l e l'"

inductive_simps life_step_simps:
  "life_step l Claim l'"
  "life_step l Complete l'"
  "life_step l (Retry m) l'"
  "life_step l (DeadLetter m) l'"
  "life_step l Replay l'"

lemma life_of_simps [simp]:
  "phase (life_of j) = status j"
  "used (life_of j) = attempt_count j"
  "claims (life_of j) = total_attempt_count j"
  "replays (life_of j) = replay_count j"
  "failure (life_of j) = last_error j"
  "grave (life_of j) = last_dead_letter_reason j"
  by (simp_all add: life_of_def)

lemma life_inv_newborn: "life_inv newborn"
  by (simp add: life_inv_def newborn_def)

lemma life_step_inv: "life_step l e l' \<Longrightarrow> life_inv l \<Longrightarrow> life_inv l'"
  by (induction rule: life_step.induct) (auto simp: life_inv_def)

lemma life_reach_inv: "life_reach l \<Longrightarrow> life_inv l"
  by (induction rule: life_reach.induct) (auto intro: life_inv_newborn life_step_inv)

text \<open>Completed is final, and the lifetime record only grows.\<close>

lemma life_step_completed: "life_step l e l' \<Longrightarrow> phase l \<noteq> COMPLETED"
  by (induction rule: life_step.induct) auto

lemma life_step_mono:
  "life_step l e l' \<Longrightarrow> claims l \<le> claims l' \<and> replays l \<le> replays l' \<and> (grave l \<noteq> None \<longrightarrow> grave l' \<noteq> None)"
  by (induction rule: life_step.induct) auto

text \<open>
  Runs of a life: what a whole sequence of events does to the counters. The lifetime counters
  count the events, and the attempts of the current cycle are the claims since the last replay.
\<close>

inductive life_run :: "life \<Rightarrow> life_event list \<Rightarrow> life \<Rightarrow> bool" where
  run_nil: "life_run l [] l"
| run_snoc: "life_run l es l' \<Longrightarrow> life_step l' e l'' \<Longrightarrow> life_run l (es @ [e]) l''"

fun claims_since_replay :: "int \<Rightarrow> life_event list \<Rightarrow> int" where
  "claims_since_replay n [] = n"
| "claims_since_replay n (Claim # es) = claims_since_replay (n + 1) es"
| "claims_since_replay n (Replay # es) = claims_since_replay 0 es"
| "claims_since_replay n (_ # es) = claims_since_replay n es"

lemma claims_since_replay_snoc:
  "claims_since_replay n (es @ [e]) =
     (case e of Claim \<Rightarrow> claims_since_replay n es + 1 | Replay \<Rightarrow> 0 | _ \<Rightarrow> claims_since_replay n es)"
proof (induction es arbitrary: n)
  case Nil
  then show ?case by (cases e) simp_all
next
  case (Cons x es)
  then show ?case by (cases x; cases e) simp_all
qed

lemma life_run_counts:
  "life_run l es l' \<Longrightarrow>
     claims l' = claims l + int (count_list es Claim)
   \<and> replays l' = replays l + int (count_list es Replay)
   \<and> used l' = claims_since_replay (used l) es"
proof (induction rule: life_run.induct)
  case (run_nil l)
  then show ?case by simp
next
  case (run_snoc l es l' e l'')
  from run_snoc.hyps(2) run_snoc.IH show ?case
    by (cases rule: life_step.cases) (auto simp: claims_since_replay_snoc)
qed

lemma life_run_reach: "life_run l es l' \<Longrightarrow> life_reach l \<Longrightarrow> life_reach l'"
  by (induction rule: life_run.induct) (auto intro: life_reach.lives)

lemma life_run_append: "life_run l' fs l'' \<Longrightarrow> life_run l es l' \<Longrightarrow> life_run l (es @ fs) l''"
  by (induction arbitrary: es rule: life_run.induct)
     (auto intro: life_run.intros simp flip: append_assoc)

section \<open>Refinement: a database step is at most one step of one life\<close>

definition same_identity :: "job \<Rightarrow> job \<Rightarrow> bool" where
  "same_identity j j' \<longleftrightarrow> jid j' = jid j \<and> jtype j' = jtype j \<and> payload j' = payload j
     \<and> max_attempts j' = max_attempts j \<and> created_at j' = created_at j"

text \<open>
  Nothing happened, or the job that \<open>b\<close> names made one step of its life, by an event satisfying \<open>E\<close>;
  all other jobs, the set of jobs and the outbox are as before.
\<close>

definition one_life_step ::
  "(life_event \<Rightarrow> bool) \<Rightarrow> js_error + uuid option \<Rightarrow> db \<Rightarrow> db \<Rightarrow> bool" where
  "one_life_step E b d d' \<longleftrightarrow> d' = d \<or>
     (\<exists>u j j' e. b = Inr (Some u) \<and> find_job d u = Some j \<and> find_job d' = (find_job d)(u \<mapsto> j')
        \<and> E e \<and> life_step (life_of j) e (life_of j') \<and> same_identity j j'
        \<and> map jid (jobs d') = map jid (jobs d) \<and> outbox_events d' = outbox_events d)"

lemma one_life_stepI:
  assumes "job_effect P s b d d'" and "\<And>j. P j \<Longrightarrow> life_step (life_of j) e (life_of (s j))"
    and "\<And>j. same_identity j (s j)" and "E e"
  shows "one_life_step E b d d'"
  using assms unfolding job_effect_def one_life_step_def by blast

lemma one_life_step_refl: "one_life_step E b d d"
  by (simp add: one_life_step_def)

lemma one_life_step_mono: "one_life_step E b d d' \<Longrightarrow> (\<And>e. E e \<Longrightarrow> F e) \<Longrightarrow> one_life_step F b d d'"
  unfolding one_life_step_def by blast

text \<open>Every job has lived by the rules.\<close>

definition lives_ok :: "db \<Rightarrow> bool" where
  "lives_ok d \<longleftrightarrow> (\<forall>u j. find_job d u = Some j \<longrightarrow> life_reach (life_of j))"

lemma one_life_step_lives: "one_life_step E b d d' \<Longrightarrow> lives_ok d \<Longrightarrow> lives_ok d'"
  unfolding one_life_step_def lives_ok_def by (auto split: if_splits) (blast intro: life_reach.lives)

end
