(* ===== verification/WorkerJobs.thy ===== *)
theory WorkerJobs
  imports Lifecycle
begin

text \<open>
  The worker's job service (apps/worker/src/services/jobService.ts, apps/worker/src/retry/
  claimPolicy.ts). Each function is one awaited statement; the \<open>mark\<close> functions throw when the
  statement matched no row. The arguments in front stand for what the function does not choose:
  the meaning of a bound identifier (\<open>uin\<close>), the fate of the query (\<open>i\<close>), the server's \<open>now()\<close>.
\<close>

section \<open>Definitions\<close>

definition STALE_PROCESSING_THRESHOLD_SECONDS :: int where
  "STALE_PROCESSING_THRESHOLD_SECONDS = 60"

definition getJobById :: "uuid_input \<Rightarrow> io \<Rightarrow> json option \<Rightarrow> db \<Rightarrow> (db, job option) outcome" where
  "getJobById uin i v = query i (\<lambda>d. case uin v of
      Inl e \<Rightarrow> Inl e
    | Inr None \<Rightarrow> Inr (None, d)
    | Inr (Some u) \<Rightarrow> Inr (first_row (filter (\<lambda>j. jid j = u) (jobs d)), d))"

text \<open>The \<open>WHERE\<close> and the \<open>SET\<close> clause of the atomic claim.\<close>

definition claim_where :: "timestamp \<Rightarrow> job \<Rightarrow> bool" where
  "claim_where now j \<longleftrightarrow> status j \<in> {QUEUED, RETRYING}
     \<or> status j = PROCESSING \<and> updated_at j < now - STALE_PROCESSING_THRESHOLD_SECONDS * 1000000"

definition claim_set :: "timestamp \<Rightarrow> job \<Rightarrow> job" where
  "claim_set now j = j\<lparr>status := PROCESSING, attempt_count := attempt_count j + 1,
     total_attempt_count := total_attempt_count j + 1, updated_at := now\<rparr>"

definition claim_overflow :: "job \<Rightarrow> bool" where
  "claim_overflow j \<longleftrightarrow> int4_overflow (attempt_count j) \<or> int4_overflow (total_attempt_count j)"

definition claimJob :: "uuid_input \<Rightarrow> io \<Rightarrow> timestamp \<Rightarrow> json option \<Rightarrow> db \<Rightarrow> (db, job option) outcome" where
  "claimJob uin i now v d =
     (case query i (job_update (claim_where now) (claim_set now) claim_overflow uin v) d of
        (Inl e, d') \<Rightarrow> (Inl e, d')
      | (Inr rows, d') \<Rightarrow> (Inr (first_row rows), d'))"

text \<open>
  The common shape of the \<open>mark\<close> functions: run the update, throw when it returned no row.
\<close>

definition update_or_throw ::
  "io \<Rightarrow> job list statement \<Rightarrow> string \<Rightarrow> db \<Rightarrow> (db, job) outcome" where
  "update_or_throw i st msg d = (case query i st d of
      (Inl e, d') \<Rightarrow> (Inl e, d')
    | (Inr rows, d') \<Rightarrow> (case first_row rows of
          None \<Rightarrow> (Inl (JsError ''Error'' msg None), d')
        | Some j \<Rightarrow> (Inr j, d')))"

definition in_processing :: "job \<Rightarrow> bool" where
  "in_processing j \<longleftrightarrow> status j = PROCESSING"

definition completed_set :: "timestamp \<Rightarrow> job \<Rightarrow> job" where
  "completed_set now j = j\<lparr>status := COMPLETED, last_error := None, updated_at := now\<rparr>"

definition markCompleted :: "uuid_input \<Rightarrow> io \<Rightarrow> timestamp \<Rightarrow> json option \<Rightarrow> db \<Rightarrow> (db, job) outcome" where
  "markCompleted uin i now v =
     update_or_throw i (job_update in_processing (completed_set now) (\<lambda>_. False) uin v)
       (''markCompleted: job '' @ id_text v @ '' not found or not in PROCESSING state'')"

definition failed_set :: "timestamp \<Rightarrow> string \<Rightarrow> job \<Rightarrow> job" where
  "failed_set now m j = j\<lparr>status := FAILED, last_error := Some m, updated_at := now\<rparr>"

definition markFailed ::
  "uuid_input \<Rightarrow> io \<Rightarrow> timestamp \<Rightarrow> json option \<Rightarrow> string \<Rightarrow> db \<Rightarrow> (db, job) outcome" where
  "markFailed uin i now v m =
     update_or_throw i (job_update (\<lambda>_. True) (failed_set now m) (\<lambda>_. False) uin v)
       (''markFailed: job '' @ id_text v @ '' not found'')"

definition retrying_set :: "timestamp \<Rightarrow> string \<Rightarrow> job \<Rightarrow> job" where
  "retrying_set now m j = j\<lparr>status := RETRYING, last_error := Some m, updated_at := now\<rparr>"

definition markRetrying ::
  "uuid_input \<Rightarrow> io \<Rightarrow> timestamp \<Rightarrow> json option \<Rightarrow> string \<Rightarrow> db \<Rightarrow> (db, job) outcome" where
  "markRetrying uin i now v m =
     update_or_throw i (job_update in_processing (retrying_set now m) (\<lambda>_. False) uin v)
       (''markRetrying: job '' @ id_text v @ '' not found or not in PROCESSING state'')"

definition dead_lettered_set :: "timestamp \<Rightarrow> string \<Rightarrow> job \<Rightarrow> job" where
  "dead_lettered_set now m j = j\<lparr>status := DEAD_LETTERED, last_error := Some m,
     last_dead_lettered_at := Some now, last_dead_letter_reason := Some m, updated_at := now\<rparr>"

declare claim_set_def [set_clauses] completed_set_def [set_clauses] failed_set_def [set_clauses]
  retrying_set_def [set_clauses] dead_lettered_set_def [set_clauses]

definition markDeadLettered ::
  "uuid_input \<Rightarrow> io \<Rightarrow> timestamp \<Rightarrow> json option \<Rightarrow> string \<Rightarrow> db \<Rightarrow> (db, job) outcome" where
  "markDeadLettered uin i now v m =
     update_or_throw i (job_update in_processing (dead_lettered_set now m) (\<lambda>_. False) uin v)
       (''markDeadLettered: job '' @ id_text v @ '' not found or not in PROCESSING state'')"

section \<open>Each statement keeps the contract of job statements\<close>

interpretation claim_stmt: job_statement "claim_where now" "claim_set now" claim_overflow for now
  by unfold_locales
     (auto simp: claim_set_def claim_overflow_def job_row_ok_def int4_simps)

interpretation completed_stmt: job_statement in_processing "completed_set now" "\<lambda>_. False" for now
  by unfold_locales (auto simp: completed_set_def job_row_ok_def)

interpretation failed_stmt: job_statement "\<lambda>_. True" "failed_set now m" "\<lambda>_. False" for now m
  by unfold_locales (auto simp: failed_set_def job_row_ok_def)

interpretation retrying_stmt: job_statement in_processing "retrying_set now m" "\<lambda>_. False" for now m
  by unfold_locales (auto simp: retrying_set_def job_row_ok_def)

interpretation dead_lettered_stmt: job_statement in_processing "dead_lettered_set now m" "\<lambda>_. False" for now m
  by unfold_locales (auto simp: dead_lettered_set_def job_row_ok_def)

section \<open>Refinement of the life of a job\<close>

lemma claim_life: "claim_where now j \<Longrightarrow> life_step (life_of j) Claim (life_of (claim_set now j))"
  by (auto simp: life_step_simps life_of_def claim_set_def claim_where_def)

lemma completed_life: "in_processing j \<Longrightarrow> life_step (life_of j) Complete (life_of (completed_set now j))"
  by (auto simp: life_step_simps life_of_def completed_set_def in_processing_def)

lemma retrying_life: "in_processing j \<Longrightarrow> life_step (life_of j) (Retry m) (life_of (retrying_set now m j))"
  by (auto simp: life_step_simps life_of_def retrying_set_def in_processing_def)

lemma dead_lettered_life:
  "in_processing j \<Longrightarrow> life_step (life_of j) (DeadLetter m) (life_of (dead_lettered_set now m j))"
  by (auto simp: life_step_simps life_of_def dead_lettered_set_def in_processing_def)

section \<open>What the functions do to the database\<close>

text \<open>Whatever becomes of the query, at most the addressed row changes, and only as its clause says.\<close>

lemma claimJob_effect:
  assumes "schema_ok d" and "claimJob uin i now v d = (r, d')"
  shows "job_effect (claim_where now) (claim_set now) (uin v) d d' \<and> schema_ok d'"
  using assms claim_stmt.query_effect [OF assms(1)]
  by (auto simp: claimJob_def split: prod.splits sum.splits)

lemma update_or_throw_query:
  "update_or_throw i st msg d = (r, d') \<Longrightarrow> \<exists>q. query i st d = (q, d')"
  by (auto simp: update_or_throw_def split: prod.splits sum.splits option.splits)

lemma markCompleted_effect:
  assumes "schema_ok d" and "markCompleted uin i now v d = (r, d')"
  shows "job_effect in_processing (completed_set now) (uin v) d d' \<and> schema_ok d'"
  using assms completed_stmt.query_effect [OF assms(1)]
  unfolding markCompleted_def by (auto dest!: update_or_throw_query)

lemma markRetrying_effect:
  assumes "schema_ok d" and "markRetrying uin i now v m d = (r, d')"
  shows "job_effect in_processing (retrying_set now m) (uin v) d d' \<and> schema_ok d'"
  using assms retrying_stmt.query_effect [OF assms(1)]
  unfolding markRetrying_def by (auto dest!: update_or_throw_query)

lemma markDeadLettered_effect:
  assumes "schema_ok d" and "markDeadLettered uin i now v m d = (r, d')"
  shows "job_effect in_processing (dead_lettered_set now m) (uin v) d d' \<and> schema_ok d'"
  using assms dead_lettered_stmt.query_effect [OF assms(1)]
  unfolding markDeadLettered_def by (auto dest!: update_or_throw_query)

lemma markFailed_effect:
  assumes "schema_ok d" and "markFailed uin i now v m d = (r, d')"
  shows "job_effect (\<lambda>_. True) (failed_set now m) (uin v) d d' \<and> schema_ok d'"
  using assms failed_stmt.query_effect [OF assms(1)]
  unfolding markFailed_def by (auto dest!: update_or_throw_query)

text \<open>A claim that returns a job has rewritten that job; one that returns none changed nothing.\<close>

lemma claimJob_won:
  assumes "schema_ok d" and "claimJob uin i now v d = (Inr (Some j'), d')"
  obtains u j where "uin v = Inr (Some u)" "find_job d u = Some j" "claim_where now j"
    "j' = claim_set now j" "find_job d' = (find_job d)(u \<mapsto> j')" "i = Io_ok"
proof -
  from assms(2) obtain rs where
    "query i (job_update (claim_where now) (claim_set now) claim_overflow uin v) d = (Inr (j' # rs), d')"
    by (auto simp: claimJob_def first_row_def split: prod.splits sum.splits list.splits)
  then have "i = Io_ok" and
    "job_update (claim_where now) (claim_set now) claim_overflow uin v d = Inr (j' # rs, d')"
    by (auto simp: query_Inr_iff)
  with claim_stmt.matched [OF assms(1)] that show thesis by blast
qed

lemma claimJob_lost_race:
  assumes "claimJob uin i now v d = (Inr None, d')"
  shows "d' = d \<and> i = Io_ok"
proof -
  from assms have "query i (job_update (claim_where now) (claim_set now) claim_overflow uin v) d = (Inr [], d')"
    by (auto simp: claimJob_def split: prod.splits sum.splits)
  then show ?thesis by (auto simp: query_Inr_iff dest: claim_stmt.no_match)
qed

text \<open>A healthy claim of an existing job: exactly the claimable state decides.\<close>

lemma claimJob_ok:
  assumes ok: "schema_ok d" and u: "uin v = Inr (Some u)" and j: "find_job d u = Some j"
    and no_ovf: "\<not> claim_overflow j"
  shows "\<exists>d'. claimJob uin Io_ok now v d = (Inr (if claim_where now j then Some (claim_set now j) else None), d')"
proof -
  obtain ret d' where run: "job_update (claim_where now) (claim_set now) claim_overflow uin v d = Inr (ret, d')"
    using claim_stmt.succeeds [where uin = uin and v = v, OF ok u] j no_ovf by fastforce
  moreover have "ret = (if claim_where now j then [claim_set now j] else [])"
    using claim_stmt.returned [where uin = uin and v = v, OF ok run u] j by simp
  ultimately show ?thesis by (simp add: claimJob_def)
qed

lemma update_or_throw_ok:
  assumes "update_or_throw i st msg d = (Inr j, d')"
  shows "i = Io_ok \<and> (\<exists>rs. st d = Inr (j # rs, d'))"
  using assms
  by (auto simp: update_or_throw_def query_Inr_iff first_row_def
      split: prod.splits sum.splits option.splits list.splits)

lemma claimJob_hit:
  assumes "schema_ok d" and "uin v = Inr (Some u)" and "find_job d u = Some j" "claim_where now j" "\<not> claim_overflow j"
  shows "\<exists>d'. claimJob uin Io_ok now v d = (Inr (Some (claim_set now j)), d')
    \<and> find_job d' = (find_job d)(u \<mapsto> claim_set now j) \<and> schema_ok d' \<and> outbox_events d' = outbox_events d"
  using claim_stmt.hit [where uin = uin and v = v, OF assms] by (auto simp: claimJob_def)

lemma claimJob_miss:
  assumes "schema_ok d" and "uin v = Inr (Some u)" and "\<And>j. find_job d u = Some j \<Longrightarrow> \<not> claim_where now j"
  shows "claimJob uin Io_ok now v d = (Inr None, d)"
  using claim_stmt.miss [where uin = uin and v = v, OF assms] by (simp add: claimJob_def)

lemma markCompleted_hit:
  assumes "schema_ok d" and "uin v = Inr (Some u)" and "find_job d u = Some j" and "in_processing j"
  shows "\<exists>d'. markCompleted uin Io_ok now v d = (Inr (completed_set now j), d')
    \<and> find_job d' = (find_job d)(u \<mapsto> completed_set now j) \<and> schema_ok d' \<and> outbox_events d' = outbox_events d"
  using completed_stmt.hit [where uin = uin and v = v and now = now, OF assms] unfolding markCompleted_def by (auto simp: update_or_throw_def)

lemma markRetrying_hit:
  assumes "schema_ok d" and "uin v = Inr (Some u)" and "find_job d u = Some j" and "in_processing j"
  shows "\<exists>d'. markRetrying uin Io_ok now v m d = (Inr (retrying_set now m j), d')
    \<and> find_job d' = (find_job d)(u \<mapsto> retrying_set now m j) \<and> schema_ok d' \<and> outbox_events d' = outbox_events d"
  using retrying_stmt.hit [where uin = uin and v = v and now = now and m = m, OF assms] unfolding markRetrying_def by (auto simp: update_or_throw_def)

lemma markDeadLettered_hit:
  assumes "schema_ok d" and "uin v = Inr (Some u)" and "find_job d u = Some j" and "in_processing j"
  shows "\<exists>d'. markDeadLettered uin Io_ok now v m d = (Inr (dead_lettered_set now m j), d')
    \<and> find_job d' = (find_job d)(u \<mapsto> dead_lettered_set now m j) \<and> schema_ok d' \<and> outbox_events d' = outbox_events d"
  using dead_lettered_stmt.hit [where uin = uin and v = v and now = now and m = m, OF assms] unfolding markDeadLettered_def by (auto simp: update_or_throw_def)

text \<open>A mark on a job that is not in \<open>PROCESSING\<close> throws and changes nothing.\<close>

lemma update_or_throw_miss:
  "st d = Inr ([], d) \<Longrightarrow> update_or_throw Io_ok st msg d = (Inl (JsError ''Error'' msg None), d)"
  by (simp add: update_or_throw_def)

section \<open>The functions as steps of a life\<close>

lemma same_identity_sets:
  "same_identity j (claim_set now j)" "same_identity j (completed_set now j)"
  "same_identity j (retrying_set now m j)" "same_identity j (dead_lettered_set now m j)"
  by (simp_all add: same_identity_def set_clauses)

lemma claimJob_life:
  assumes "schema_ok d" and "claimJob uin i now v d = (r, d')"
  shows "one_life_step ((=) Claim) (uin v) d d'"
  by (rule one_life_stepI [OF conjunct1 [OF claimJob_effect [OF assms]]])
     (simp_all add: claim_life same_identity_sets)

lemma markCompleted_life:
  assumes "schema_ok d" and "markCompleted uin i now v d = (r, d')"
  shows "one_life_step ((=) Complete) (uin v) d d'"
  by (rule one_life_stepI [OF conjunct1 [OF markCompleted_effect [OF assms]]])
     (simp_all add: completed_life same_identity_sets)

lemma markRetrying_life:
  assumes "schema_ok d" and "markRetrying uin i now v m d = (r, d')"
  shows "one_life_step ((=) (Retry m)) (uin v) d d'"
  by (rule one_life_stepI [OF conjunct1 [OF markRetrying_effect [OF assms]]])
     (simp_all add: retrying_life same_identity_sets)

lemma markDeadLettered_life:
  assumes "schema_ok d" and "markDeadLettered uin i now v m d = (r, d')"
  shows "one_life_step ((=) (DeadLetter m)) (uin v) d d'"
  by (rule one_life_stepI [OF conjunct1 [OF markDeadLettered_effect [OF assms]]])
     (simp_all add: dead_lettered_life same_identity_sets)

section \<open>Properties\<close>

text \<open>C12. The claim is a lock with a lease. A delivery wins the claim of a job at \<open>t1\<close>. In any later state of the tables in which the row of
  the job is still as that claim left it, whatever has become of the other rows, a claim of the job within the stale threshold of 60 seconds
  answers \<open>null\<close>, or throws because the query failed or its answer was lost, and changes nothing in any case, however the
  identifier is spelled; after the threshold the claim is won again, counting one more attempt, and nothing but the row of the job changes.\<close>

theorem claim_lease:
  assumes "schema_ok d" and "claimJob uin i t1 v d = (Inr (Some j), d1)"
    and "schema_ok d2" and "find_job d2 (jid j) = Some j" and "uin v' = Inr (Some (jid j))"
  shows "find_job d1 (jid j) = Some j
     \<and> (t2 \<le> t1 + 60 * 1000000 \<longrightarrow> claimJob uin Io_ok t2 v' d2 = (Inr None, d2)
        \<and> claimJob uin (Io_fail e) t2 v' d2 = (Inl e, d2) \<and> claimJob uin (Io_lost e) t2 v' d2 = (Inl e, d2))
     \<and> (t2 > t1 + 60 * 1000000 \<longrightarrow> \<not> claim_overflow j \<longrightarrow>
        (\<exists>d3. claimJob uin Io_ok t2 v' d2 = (Inr (Some (claim_set t2 j)), d3) \<and> find_job d3 = (find_job d2)(jid j \<mapsto> claim_set t2 j)
          \<and> attempt_count (claim_set t2 j) = attempt_count j + 1))"
proof -
  from claimJob_won [OF assms(1,2)] obtain u j0 where
    j: "j = claim_set t1 j0" and d1: "find_job d1 u = Some j"
    by (metis fun_upd_same)
  have u: "u = jid j" using find_job_Some [OF d1] by simp
  have w: "claim_where t2 j \<longleftrightarrow> t2 > t1 + 60 * 1000000"
    by (auto simp: j claim_where_def claim_set_def STALE_PROCESSING_THRESHOLD_SECONDS_def)
  have miss: "claimJob uin Io_ok t2 v' d2 = (Inr None, d2)" if "\<not> claim_where t2 j"
    using claimJob_miss [where uin = uin and v = v' and now = t2, OF assms(3,5)] assms(4) that by simp
  then have "claimJob uin (Io_lost e) t2 v' d2 = (Inl e, d2)" if "\<not> claim_where t2 j"
    using that by (auto simp: claimJob_def query_def split: sum.splits prod.splits)
  moreover have "claimJob uin (Io_fail e) t2 v' d2 = (Inl e, d2)" by (simp add: claimJob_def query_def)
  moreover note claimJob_hit [where uin = uin and v = v' and now = t2, OF assms(3,5,4)]
  ultimately show ?thesis using miss w d1 u by (auto simp: claim_set_def)
qed

theorem claim_lease_witness:
  "let j = claim_set 5 (sample_job QUEUED 0 []) in
   claimJob plain_uin Io_ok 5 j1 (sample_db (sample_job QUEUED 0 [])) = (Inr (Some j), sample_db j)
   \<and> claimJob plain_uin Io_ok (60 * 1000000) j1 (sample_db j) = (Inr None, sample_db j)"
proof -
  have "claimJob plain_uin Io_ok 5 j1 (sample_db (sample_job QUEUED 0 []))
      = (Inr (Some (claim_set 5 (sample_job QUEUED 0 []))), sample_db (claim_set 5 (sample_job QUEUED 0 [])))"
    by (simp add: claimJob_def sql_simps sample_db_def sample_job_def claim_where_def claim_set_def
        claim_overflow_def int4_simps)
  moreover have "jid (claim_set 5 (sample_job QUEUED 0 [])) = ''j1''" by (simp add: claim_set_def sample_job_def)
  moreover have "schema_ok (sample_db (claim_set 5 (sample_job QUEUED 0 [])))"
    by (simp add: schema_ok_def sample_db_def claim_set_def sample_job_def job_row_ok_def int4_simps)
  moreover have "find_job (sample_db (claim_set 5 (sample_job QUEUED 0 []))) ''j1'' = Some (claim_set 5 (sample_job QUEUED 0 []))"
    by (simp add: find_job_def sample_db_def claim_set_def sample_job_def)
  ultimately show ?thesis
    using claim_lease [of "sample_db (sample_job QUEUED 0 [])" plain_uin Io_ok 5 j1 "claim_set 5 (sample_job QUEUED 0 [])"
        "sample_db (claim_set 5 (sample_job QUEUED 0 []))" "sample_db (claim_set 5 (sample_job QUEUED 0 []))" j1 "60 * 1000000"]
    by (simp add: int4_max_def)
qed

text \<open>C13. The three outcomes of an attempt are recorded only for a job in \<open>PROCESSING\<close>: there each function rewrites
  exactly its row as specified and answers with it; on any other status, and on an unknown job, it throws its error and
  the database is unchanged.\<close>

theorem marks_guarded:
  assumes "schema_ok d" and "uin v = Inr (Some u)"
  shows "case find_job d u of
      Some j \<Rightarrow> (if status j = PROCESSING
        then (\<exists>d'. markCompleted uin Io_ok now v d = (Inr (completed_set now j), d') \<and> find_job d' = (find_job d)(u \<mapsto> completed_set now j))
           \<and> (\<exists>d'. markRetrying uin Io_ok now v m d = (Inr (retrying_set now m j), d') \<and> find_job d' = (find_job d)(u \<mapsto> retrying_set now m j))
           \<and> (\<exists>d'. markDeadLettered uin Io_ok now v m d = (Inr (dead_lettered_set now m j), d') \<and> find_job d' = (find_job d)(u \<mapsto> dead_lettered_set now m j))
        else (\<exists>e. markCompleted uin Io_ok now v d = (Inl e, d)) \<and> (\<exists>e. markRetrying uin Io_ok now v m d = (Inl e, d))
           \<and> (\<exists>e. markDeadLettered uin Io_ok now v m d = (Inl e, d)))
    | None \<Rightarrow> (\<exists>e. markCompleted uin Io_ok now v d = (Inl e, d)) \<and> (\<exists>e. markRetrying uin Io_ok now v m d = (Inl e, d))
           \<and> (\<exists>e. markDeadLettered uin Io_ok now v m d = (Inl e, d))"
proof -
  have miss: "(\<exists>e. markCompleted uin Io_ok now v d = (Inl e, d)) \<and> (\<exists>e. markRetrying uin Io_ok now v m d = (Inl e, d))
      \<and> (\<exists>e. markDeadLettered uin Io_ok now v m d = (Inl e, d))"
    if "\<And>j. find_job d u = Some j \<Longrightarrow> \<not> in_processing j"
    using completed_stmt.miss [where uin = uin and v = v, OF assms that]
      retrying_stmt.miss [where uin = uin and v = v, OF assms that]
      dead_lettered_stmt.miss [where uin = uin and v = v, OF assms that]
    by (simp add: markCompleted_def markRetrying_def markDeadLettered_def update_or_throw_miss)
  show ?thesis
  proof (cases "find_job d u")
    case None
    with miss show ?thesis by simp
  next
    case (Some j)
    show ?thesis
    proof (cases "in_processing j")
      case True
      note hits = markCompleted_hit [where uin = uin and v = v and now = now, OF assms Some True]
        markRetrying_hit [where uin = uin and v = v and now = now and m = m, OF assms Some True]
        markDeadLettered_hit [where uin = uin and v = v and now = now and m = m, OF assms Some True]
      from True hits show ?thesis unfolding Some in_processing_def by auto
    next
      case False
      with Some miss show ?thesis by (simp add: in_processing_def)
    qed
  qed
qed

theorem marks_guarded_witness:
  "(\<exists>d'. markCompleted plain_uin Io_ok 9 j1 (sample_db (sample_job PROCESSING 1 []))
      = (Inr (completed_set 9 (sample_job PROCESSING 1 [])), d'))
   \<and> (\<exists>e. markRetrying plain_uin Io_ok 9 j1 ''m'' (sample_db (sample_job COMPLETED 1 []))
      = (Inl e, sample_db (sample_job COMPLETED 1 [])))"
  using marks_guarded [of "sample_db (sample_job PROCESSING 1 [])" plain_uin j1 "''j1''" 9 "''m''"]
    marks_guarded [of "sample_db (sample_job COMPLETED 1 [])" plain_uin j1 "''j1''" 9 "''m''"]
  by (auto simp: sample_find int4_max_def)

text \<open>The marks do not know whose claim they end: when a second delivery has taken over a job whose claim went stale, the first one, late, still
  completes it, and the mark of the second then throws.\<close>

lemma late_mark_accepted:
  assumes "schema_ok d" and "uin v = Inr (Some u)" and "find_job d u = Some j" and "status j = PROCESSING" and "claim_where t2 j"
    and "\<not> claim_overflow j"
  shows "\<exists>d2 d3 e. claimJob uin Io_ok t2 v d = (Inr (Some (claim_set t2 j)), d2)
     \<and> markCompleted uin Io_ok t3 v d2 = (Inr (completed_set t3 (claim_set t2 j)), d3)
     \<and> markRetrying uin Io_ok t4 v m d3 = (Inl e, d3)"
proof -
  from claimJob_hit [where uin = uin and v = v, OF assms(1-3,5,6)] obtain d2 where
    d2: "claimJob uin Io_ok t2 v d = (Inr (Some (claim_set t2 j)), d2)" "find_job d2 = (find_job d)(u \<mapsto> claim_set t2 j)" "schema_ok d2" by blast
  from markCompleted_hit [where uin = uin and v = v and now = t3, OF d2(3) assms(2), of "claim_set t2 j"] d2(2) obtain d3 where
    d3: "markCompleted uin Io_ok t3 v d2 = (Inr (completed_set t3 (claim_set t2 j)), d3)"
      "find_job d3 = (find_job d2)(u \<mapsto> completed_set t3 (claim_set t2 j))" "schema_ok d3"
    by (auto simp: in_processing_def claim_set_def)
  have "\<not> in_processing k" if "find_job d3 u = Some k" for k using that d3(2) by (auto simp: in_processing_def completed_set_def)
  from retrying_stmt.miss [where uin = uin and v = v and now = t4 and m = m, OF d3(3) assms(2) this]
  have "\<exists>e. markRetrying uin Io_ok t4 v m d3 = (Inl e, d3)" by (simp add: markRetrying_def update_or_throw_miss)
  with d2(1) d3(1) show ?thesis by blast
qed

end
