(* ===== verification/RetryPolicy.thy ===== *)
theory RetryPolicy
  imports Prelude
begin

text \<open>
  The four delay policies of the platform: the retry delay of a job (apps/worker/src/retry/
  retryPolicy.ts), the delay before a message is requeued after an infrastructure error and the
  delay of the resubscription loop (apps/worker/src/consumer.ts), and the reconnect delay of the
  dashboard's WebSocket (apps/dashboard/src/ws/useJobEvents.ts).

  All are doublings under a cap. The JavaScript numbers involved are exact: a power of two is a
  double until it overflows to \<open>Infinity\<close>, and then the minimum is the cap, as it is here.
\<close>

section \<open>Definitions\<close>

definition BASE_DELAY_MS :: int where "BASE_DELAY_MS = 2000"
definition MULTIPLIER :: int where "MULTIPLIER = 2"
definition MAX_DELAY_MS :: int where "MAX_DELAY_MS = 20000"

definition calculateBackoffMs :: "int \<Rightarrow> int" where
  "calculateBackoffMs attemptCount =
     (let delay = BASE_DELAY_MS * MULTIPLIER ^ nat (max (attemptCount - 1) 0)
      in min delay MAX_DELAY_MS)"

definition DB_ERROR_BASE_DELAY_MS :: rat where "DB_ERROR_BASE_DELAY_MS = 1000"
definition DB_ERROR_MAX_DELAY_MS :: rat where "DB_ERROR_MAX_DELAY_MS = 30000"

definition computeDbErrorBackoffMs :: "int \<Rightarrow> rat" where
  "computeDbErrorBackoffMs consecutiveErrors =
     min (DB_ERROR_BASE_DELAY_MS * 2 powi (consecutiveErrors - 1)) DB_ERROR_MAX_DELAY_MS"

definition RECONNECT_BASE_DELAY_MS :: int where "RECONNECT_BASE_DELAY_MS = 1000"
definition RECONNECT_MAX_DELAY_MS :: int where "RECONNECT_MAX_DELAY_MS = 30000"

text \<open>The value of \<open>delayMs\<close> after \<open>n\<close> failed attempts of the resubscription loop.\<close>

fun resubscribeDelayMs :: "nat \<Rightarrow> int" where
  "resubscribeDelayMs 0 = RECONNECT_BASE_DELAY_MS"
| "resubscribeDelayMs (Suc n) = min (resubscribeDelayMs n * 2) RECONNECT_MAX_DELAY_MS"

definition wsReconnectDelayMs :: "nat \<Rightarrow> int" where
  "wsReconnectDelayMs reconnectAttempt = min (1000 * 2 ^ reconnectAttempt) 15000"

section \<open>Capped doubling\<close>

text \<open>
  The contract of a delay policy: the \<open>n\<close>-th consecutive failure waits for the base doubled \<open>n\<close>
  times, but never for more than the cap.
\<close>

locale capped_doubling =
  fixes delay :: "nat \<Rightarrow> 'a :: linordered_idom" and base cap :: 'a
  assumes delay_eq: "delay n = min (base * 2 ^ n) cap"
    and base_pos: "0 < base" and base_cap: "base \<le> cap"
begin

lemma grows: "base \<le> base * 2 ^ n"
  using base_pos by (simp add: one_le_power)

lemma bounds: "base \<le> delay n \<and> delay n \<le> cap"
  using base_cap grows by (simp add: delay_eq)

lemma pow_mono: "m \<le> n \<Longrightarrow> base * 2 ^ m \<le> base * 2 ^ n"
  using base_pos by (simp add: power_increasing)

lemma mono_delay: "m \<le> n \<Longrightarrow> delay m \<le> delay n"
  using pow_mono [of m n] by (auto simp: delay_eq min_le_iff_disj)

lemma doubles: "delay (Suc n) = min (2 * delay n) cap"
proof (cases "base * 2 ^ n \<le> cap")
  case True
  then show ?thesis by (simp add: delay_eq min_absorb1 mult.commute mult.left_commute)
next
  case False
  then have "cap \<le> base * 2 ^ n" by simp
  moreover from this have "cap \<le> base * 2 ^ Suc n" using pow_mono [of n "Suc n"] by simp
  moreover have "cap \<le> 2 * cap" using base_pos base_cap by simp
  ultimately show ?thesis by (simp add: delay_eq min_absorb2)
qed

lemma reaches_cap: "cap \<le> base * 2 ^ k \<Longrightarrow> k \<le> n \<Longrightarrow> delay n = cap"
  using pow_mono [of k n] by (auto simp: delay_eq min_absorb2)

text \<open>Under a sustained outage \<open>n\<close> consecutive failures take at least \<open>n\<close> base delays.\<close>

lemma total_wait: "of_nat n * base \<le> (\<Sum>k<n. delay k)"
proof (induction n)
  case 0
  then show ?case by simp
next
  case (Suc n)
  then show ?case using bounds [of n] by (simp add: algebra_simps)
qed

end

lemma resubscribeDelayMs_closed: "resubscribeDelayMs n = min (1000 * 2 ^ n) 30000"
  by (induction n) (auto simp: RECONNECT_BASE_DELAY_MS_def RECONNECT_MAX_DELAY_MS_def min_def)

interpretation job_retry: capped_doubling "\<lambda>n. calculateBackoffMs (int n + 1)" 2000 20000
  by unfold_locales
     (simp_all add: calculateBackoffMs_def BASE_DELAY_MS_def MULTIPLIER_def MAX_DELAY_MS_def)

interpretation db_error: capped_doubling "\<lambda>n. computeDbErrorBackoffMs (int n + 1)" 1000 30000
  by unfold_locales
     (simp_all add: computeDbErrorBackoffMs_def DB_ERROR_BASE_DELAY_MS_def DB_ERROR_MAX_DELAY_MS_def)

interpretation resubscribe: capped_doubling resubscribeDelayMs 1000 30000
  by unfold_locales (simp_all add: resubscribeDelayMs_closed)

interpretation ws_reconnect: capped_doubling wsReconnectDelayMs 1000 15000
  by unfold_locales (simp_all add: wsReconnectDelayMs_def)

section \<open>Properties\<close>

text \<open>The retry delay after the \<open>n\<close>-th attempt (counted from 1) lies between 2 and 20 seconds, doubles from
  each attempt to the next until the cap, never falls, and is the cap from the fifth attempt on; an attempt
  count of zero or below is treated as the first.\<close>

lemma retry_schedule:
  "2000 \<le> calculateBackoffMs n \<and> calculateBackoffMs n \<le> 20000
   \<and> (1 \<le> n \<longrightarrow> calculateBackoffMs (n + 1) = min (2 * calculateBackoffMs n) 20000)
   \<and> (m \<le> n \<longrightarrow> calculateBackoffMs m \<le> calculateBackoffMs n)
   \<and> (5 \<le> n \<longrightarrow> calculateBackoffMs n = 20000)
   \<and> (n \<le> 1 \<longrightarrow> calculateBackoffMs n = 2000)"
proof -
  have norm: "calculateBackoffMs k = calculateBackoffMs (int (nat (max (k - 1) 0)) + 1)" for k
    by (simp add: calculateBackoffMs_def)
  have a: "2000 \<le> calculateBackoffMs n \<and> calculateBackoffMs n \<le> 20000"
    using job_retry.bounds [of "nat (max (n - 1) 0)"] norm [of n] by simp
  have b: "calculateBackoffMs (n + 1) = min (2 * calculateBackoffMs n) 20000" if "1 \<le> n"
    using job_retry.doubles [of "nat (n - 1)"] that by (simp add: algebra_simps)
  have c: "calculateBackoffMs m \<le> calculateBackoffMs n" if "m \<le> n"
    using job_retry.mono_delay [of "nat (max (m - 1) 0)" "nat (max (n - 1) 0)"] that norm [of m] norm [of n]
    by (simp add: nat_mono)
  have d: "calculateBackoffMs n = 20000" if "5 \<le> n"
    using job_retry.reaches_cap [of 4 "nat (n - 1)"] that by simp
  have e: "calculateBackoffMs n = 2000" if "n \<le> 1"
    using that by (simp add: calculateBackoffMs_def BASE_DELAY_MS_def MAX_DELAY_MS_def)
  from a b c d e show ?thesis by blast
qed

text \<open>The delay before a requeue after the \<open>n\<close>-th consecutive infrastructure error lies between 1 and 30
  seconds, doubles until the cap, reaches it with the sixth error, and \<open>n\<close> consecutive errors hold the worker
  back for at least \<open>n\<close> seconds: an outage cannot make it redeliver in a hot loop.\<close>

lemma db_error_schedule:
  fixes n :: nat
  shows "1000 \<le> computeDbErrorBackoffMs (int n + 1) \<and> computeDbErrorBackoffMs (int n + 1) \<le> 30000
   \<and> computeDbErrorBackoffMs (int n + 2) = min (2 * computeDbErrorBackoffMs (int n + 1)) 30000
   \<and> computeDbErrorBackoffMs (int n + 6) = 30000
   \<and> of_nat n * 1000 \<le> (\<Sum>k<n. computeDbErrorBackoffMs (int k + 1))"
  using db_error.bounds [of n] db_error.doubles [of n] db_error.reaches_cap [of 5 "n + 5"] db_error.total_wait [of n]
  by (simp add: algebra_simps)

end
