(* ===== verification/Broker.thy ===== *)
theory Broker
  imports RetryPolicy
begin

text \<open>
  The message topology and the three publishers (apps/api/src/queue, apps/worker/src/queue).

  RabbitMQ itself is not part of the sources. What the code relies on is stated here as the
  effect of the AMQP calls it makes: declarations are idempotent, a direct exchange hands a message
  to every queue bound with its routing key, and a queue with a dead-letter exchange republishes
  an expired message there. A publish call has the outcomes the client library documents,
  including the silent loss of a buffered message; theorems that need a reliable broker say so.

  A message body is kept as the JSON value its text denotes, or as text that is no JSON.
\<close>

section \<open>Messages and the broker\<close>

datatype wire = Json_text json | Other_text string

definition JSON_stringify :: "json \<Rightarrow> wire" where
  "JSON_stringify v = Json_text v"

definition JSON_parse :: "wire \<Rightarrow> json option" where
  "JSON_parse w = (case w of Json_text v \<Rightarrow> Some v | Other_text _ \<Rightarrow> None)"

record publication =
  pub_exchange :: string
  pub_key :: string
  pub_body :: wire
  pub_persistent :: bool
  pub_expiration :: "string option"

record broker =
  exchanges :: "string list"
  bindings :: "(string \<times> string \<times> string) list"
  dead_letter_to :: "string \<rightharpoonup> string \<times> string"
  queue :: "string \<Rightarrow> publication list"

definition empty_broker :: broker where
  "empty_broker = \<lparr>exchanges = [], bindings = [], dead_letter_to = Map.empty, queue = (\<lambda>_. [])\<rparr>"

definition assertExchange :: "string \<Rightarrow> broker \<Rightarrow> broker" where
  "assertExchange x b = b\<lparr>exchanges := List.insert x (exchanges b)\<rparr>"

definition assertQueue :: "string \<Rightarrow> (string \<times> string) option \<Rightarrow> broker \<Rightarrow> broker" where
  "assertQueue q dlx b = (case dlx of
      None \<Rightarrow> b
    | Some t \<Rightarrow> b\<lparr>dead_letter_to := (dead_letter_to b)(q \<mapsto> t)\<rparr>)"

definition bindQueue :: "string \<Rightarrow> string \<Rightarrow> string \<Rightarrow> broker \<Rightarrow> broker" where
  "bindQueue q x k b = b\<lparr>bindings := List.insert (q, x, k) (bindings b)\<rparr>"

definition route :: "publication \<Rightarrow> broker \<Rightarrow> broker" where
  "route p b = b\<lparr>queue := (\<lambda>q. if (q, pub_exchange p, pub_key p) \<in> set (bindings b)
                                 then queue b q @ [p] else queue b q)\<rparr>"

text \<open>The expiry of one message of a queue that has a dead-letter exchange.\<close>

definition expire :: "string \<Rightarrow> publication \<Rightarrow> broker \<Rightarrow> broker" where
  "expire q p b = (let b' = b\<lparr>queue := (queue b)(q := remove1 p (queue b q))\<rparr> in
     case dead_letter_to b q of
       None \<Rightarrow> b'
     | Some (x, k) \<Rightarrow> route (p\<lparr>pub_exchange := x, pub_key := k, pub_expiration := None\<rparr>) b')"

section \<open>The declared topology\<close>

definition EXCHANGE_NAME :: string where "EXCHANGE_NAME = ''deadletter.jobs.exchange''"
definition QUEUE_NAME :: string where "QUEUE_NAME = ''deadletter.jobs.queue''"
definition ROUTING_KEY :: string where "ROUTING_KEY = ''job.created''"
definition FAILURES_EXCHANGE_NAME :: string where "FAILURES_EXCHANGE_NAME = ''deadletter.jobs.failures.exchange''"
definition RETRY_QUEUE_NAME :: string where "RETRY_QUEUE_NAME = ''deadletter.jobs.retry.queue''"
definition RETRY_ROUTING_KEY :: string where "RETRY_ROUTING_KEY = ''job.retry''"
definition DLQ_QUEUE_NAME :: string where "DLQ_QUEUE_NAME = ''deadletter.jobs.dlq''"
definition DLQ_ROUTING_KEY :: string where "DLQ_ROUTING_KEY = ''job.dead_letter''"

lemmas topology_names =
  EXCHANGE_NAME_def QUEUE_NAME_def ROUTING_KEY_def FAILURES_EXCHANGE_NAME_def
  RETRY_QUEUE_NAME_def RETRY_ROUTING_KEY_def DLQ_QUEUE_NAME_def DLQ_ROUTING_KEY_def

text \<open>What the API's \<open>getChannel\<close> declares on a new channel, and what the worker's does.\<close>

definition api_topology :: "broker \<Rightarrow> broker" where
  "api_topology b = bindQueue QUEUE_NAME EXCHANGE_NAME ROUTING_KEY
     (assertQueue QUEUE_NAME None (assertExchange EXCHANGE_NAME b))"

definition worker_topology :: "broker \<Rightarrow> broker" where
  "worker_topology b =
     (let b1 = bindQueue QUEUE_NAME EXCHANGE_NAME ROUTING_KEY
                 (assertQueue QUEUE_NAME None (assertExchange EXCHANGE_NAME b));
          b2 = assertExchange FAILURES_EXCHANGE_NAME b1;
          b3 = bindQueue RETRY_QUEUE_NAME FAILURES_EXCHANGE_NAME RETRY_ROUTING_KEY
                 (assertQueue RETRY_QUEUE_NAME (Some (EXCHANGE_NAME, ROUTING_KEY)) b2)
      in bindQueue DLQ_QUEUE_NAME FAILURES_EXCHANGE_NAME DLQ_ROUTING_KEY
           (assertQueue DLQ_QUEUE_NAME None b3))"

section \<open>Publishing\<close>

text \<open>
  The outcome of obtaining the channel and calling \<open>channel.publish\<close>: accepted and delivered;
  accepted, but lost with the connection before the broker had it; refused with \<open>false\<close> because the
  write buffer is full, which the client library documents as buffered all the same; or an
  exception (no connection, closed channel).
\<close>

datatype pub_io = Pub_ok | Pub_lost | Pub_full | Pub_throw js_error

definition channel_publish :: "pub_io \<Rightarrow> publication \<Rightarrow> broker \<Rightarrow> (broker, bool) outcome" where
  "channel_publish pio p b = (case pio of
      Pub_ok \<Rightarrow> (Inr True, route p b)
    | Pub_lost \<Rightarrow> (Inr True, b)
    | Pub_full \<Rightarrow> (Inr False, route p b)
    | Pub_throw e \<Rightarrow> (Inl e, b))"

definition publish_or_throw :: "pub_io \<Rightarrow> publication \<Rightarrow> string \<Rightarrow> broker \<Rightarrow> (broker, unit) outcome" where
  "publish_or_throw pio p msg b = (case channel_publish pio p b of
      (Inl e, b') \<Rightarrow> (Inl e, b')
    | (Inr published, b') \<Rightarrow>
        (if \<not> published then (Inl (JsError ''Error'' msg None), b') else (Inr (), b')))"

text \<open>\<open>{ jobId }\<close>: an undefined property is left out by \<open>JSON.stringify\<close>.\<close>

definition jobId_message :: "json option \<Rightarrow> json" where
  "jobId_message v = JObj (case v of None \<Rightarrow> [] | Some w \<Rightarrow> [(''jobId'', w)])"

definition job_created :: "uuid \<Rightarrow> publication" where
  "job_created jobId = \<lparr>pub_exchange = EXCHANGE_NAME, pub_key = ROUTING_KEY,
     pub_body = JSON_stringify (jobId_message (Some (JStr jobId))), pub_persistent = True, pub_expiration = None\<rparr>"

definition publishJobCreated :: "pub_io \<Rightarrow> uuid \<Rightarrow> broker \<Rightarrow> (broker, unit) outcome" where
  "publishJobCreated pio jobId =
     publish_or_throw pio (job_created jobId) ''Failed to publish job message: channel buffer full or closed''"

definition job_retry_message :: "json option \<Rightarrow> int \<Rightarrow> publication" where
  "job_retry_message jobId delayMs = \<lparr>pub_exchange = FAILURES_EXCHANGE_NAME, pub_key = RETRY_ROUTING_KEY,
     pub_body = JSON_stringify (jobId_message jobId), pub_persistent = True, pub_expiration = Some (int_text delayMs)\<rparr>"

definition publishRetry :: "pub_io \<Rightarrow> json option \<Rightarrow> int \<Rightarrow> broker \<Rightarrow> (broker, unit) outcome" where
  "publishRetry pio jobId delayMs =
     publish_or_throw pio (job_retry_message jobId delayMs)
       (''Failed to publish retry message for job '' @ id_text jobId @ '': channel buffer full or closed'')"

definition dead_letter_message :: "json option \<Rightarrow> publication" where
  "dead_letter_message jobId = \<lparr>pub_exchange = FAILURES_EXCHANGE_NAME, pub_key = DLQ_ROUTING_KEY,
     pub_body = JSON_stringify (jobId_message jobId), pub_persistent = True, pub_expiration = None\<rparr>"

definition publishDeadLetter :: "pub_io \<Rightarrow> json option \<Rightarrow> broker \<Rightarrow> (broker, unit) outcome" where
  "publishDeadLetter pio jobId =
     publish_or_throw pio (dead_letter_message jobId)
       (''Failed to publish dead-letter message for job '' @ id_text jobId @ '': channel buffer full or closed'')"

section \<open>Facts\<close>

text \<open>A broker in which the worker's topology stands: the bindings and nothing else of ours.\<close>

definition topology_ready :: "broker \<Rightarrow> bool" where
  "topology_ready b \<longleftrightarrow>
     set (bindings b) = {(QUEUE_NAME, EXCHANGE_NAME, ROUTING_KEY),
       (RETRY_QUEUE_NAME, FAILURES_EXCHANGE_NAME, RETRY_ROUTING_KEY),
       (DLQ_QUEUE_NAME, FAILURES_EXCHANGE_NAME, DLQ_ROUTING_KEY)}
   \<and> dead_letter_to b = [RETRY_QUEUE_NAME \<mapsto> (EXCHANGE_NAME, ROUTING_KEY)]"

lemma names_distinct [simp]:
  "RETRY_QUEUE_NAME \<noteq> QUEUE_NAME" "QUEUE_NAME \<noteq> RETRY_QUEUE_NAME"
  "DLQ_QUEUE_NAME \<noteq> QUEUE_NAME" "QUEUE_NAME \<noteq> DLQ_QUEUE_NAME"
  "DLQ_QUEUE_NAME \<noteq> RETRY_QUEUE_NAME" "RETRY_QUEUE_NAME \<noteq> DLQ_QUEUE_NAME"
  "FAILURES_EXCHANGE_NAME \<noteq> EXCHANGE_NAME" "EXCHANGE_NAME \<noteq> FAILURES_EXCHANGE_NAME"
  "RETRY_ROUTING_KEY \<noteq> DLQ_ROUTING_KEY" "DLQ_ROUTING_KEY \<noteq> RETRY_ROUTING_KEY"
  by (simp_all add: topology_names)

lemma topology_ready_worker: "topology_ready (worker_topology empty_broker)"
  by (auto simp: topology_ready_def worker_topology_def empty_broker_def assertExchange_def
      assertQueue_def bindQueue_def Let_def)

lemma route_ready [simp]: "topology_ready (route p b) = topology_ready b"
  by (simp add: topology_ready_def route_def)

lemma route_bindings [simp]: "bindings (route p b) = bindings b"
  by (simp add: route_def)

lemma queue_route:
  "queue (route p b) q = (if (q, pub_exchange p, pub_key p) \<in> set (bindings b) then queue b q @ [p] else queue b q)"
  by (simp add: route_def)

lemma channel_publish_ready [simp]:
  "topology_ready (snd (channel_publish pio p b)) = topology_ready b"
  by (simp add: channel_publish_def split: pub_io.splits)

lemma publish_or_throw_snd: "snd (publish_or_throw pio p msg b) = snd (channel_publish pio p b)"
  by (auto simp: publish_or_throw_def split: prod.splits sum.splits)

lemma publish_or_throw_ok:
  "publish_or_throw pio p msg b = (Inr (), b') \<longleftrightarrow>
     pio = Pub_ok \<and> b' = route p b \<or> pio = Pub_lost \<and> b' = b"
  by (auto simp: publish_or_throw_def channel_publish_def split: pub_io.splits)

lemma JSON_roundtrip: "JSON_parse (JSON_stringify v) = Some v"
  by (simp add: JSON_parse_def JSON_stringify_def)

text \<open>An expired retry message comes back to the jobs queue, still naming its job.\<close>

lemma expire_retry:
  assumes "topology_ready b" and "m \<in> set (queue b RETRY_QUEUE_NAME)"
  defines "m' \<equiv> m\<lparr>pub_exchange := EXCHANGE_NAME, pub_key := ROUTING_KEY, pub_expiration := None\<rparr>"
  shows "queue (expire RETRY_QUEUE_NAME m b) QUEUE_NAME = queue b QUEUE_NAME @ [m']"
    and "queue (expire RETRY_QUEUE_NAME m b) RETRY_QUEUE_NAME = remove1 m (queue b RETRY_QUEUE_NAME)"
    and "topology_ready (expire RETRY_QUEUE_NAME m b)"
  using assms(1)
  by (auto simp: expire_def Let_def topology_ready_def route_def m'_def)

lemma worker_topology_empty [simp]: "queue (worker_topology empty_broker) q = []"
  by (simp add: worker_topology_def Let_def assertExchange_def assertQueue_def bindQueue_def empty_broker_def)

section \<open>Properties\<close>

text \<open>Declaring the topology again, by a reconnecting worker or by the API, changes nothing: no exchange,
  binding or queued message is added or lost. On a fresh broker the worker's declaration contains the API's,
  routes a new job to the jobs queue only, a retry to the retry queue only and a dead letter to the DLQ only.\<close>

lemma topology_redeclared:
  "worker_topology (worker_topology b) = worker_topology b
   \<and> api_topology (worker_topology b) = worker_topology b
   \<and> queue (worker_topology b) = queue b \<and> queue (api_topology b) = queue b
   \<and> (let t = worker_topology empty_broker in
        (\<forall>q. queue (route (job_created u) t) q = (if q = QUEUE_NAME then [job_created u] else []))
      \<and> (\<forall>q. queue (route (job_retry_message v n) t) q = (if q = RETRY_QUEUE_NAME then [job_retry_message v n] else []))
      \<and> (\<forall>q. queue (route (dead_letter_message v) t) q = (if q = DLQ_QUEUE_NAME then [dead_letter_message v] else [])))"
proof -
  have "worker_topology (worker_topology b) = worker_topology b" "api_topology (worker_topology b) = worker_topology b"
    by (simp_all add: worker_topology_def api_topology_def Let_def assertExchange_def assertQueue_def bindQueue_def)
  moreover have "queue (worker_topology b) = queue b" "queue (api_topology b) = queue b"
    by (simp_all add: worker_topology_def api_topology_def Let_def assertExchange_def assertQueue_def bindQueue_def)
  ultimately show ?thesis
    using topology_ready_worker
    by (simp add: Let_def queue_route topology_ready_def job_created_def job_retry_message_def dead_letter_message_def)
qed

end
