(* ===== verification/Consumer.thy ===== *)
theory Consumer
  imports WorkerJobs Broker
begin

text \<open>
  The worker's message handler (apps/worker/src/consumer.ts, apps/worker/src/processors).

  The handler is an \<open>async\<close> function: between two \<open>await\<close>s it runs alone in its process, at an
  \<open>await\<close> everything else may run. It is modelled as a machine with one control point per
  \<open>await\<close> (\<open>pc\<close>) and one function, \<open>consumer_step\<close>, that performs the awaited call and the code up
  to the next one. \<open>run_handler\<close> runs a delivery alone; the system model interleaves the steps of many.

  What the code does not decide is in the record \<open>await\<close>: the fate of the query, the server's
  time, the outcome of a publish, and whether \<open>channel.ack\<close> and \<open>channel.nack\<close> throw because the
  channel of the subscription is closed. A rejection that no \<open>try\<close> of the handler catches is the
  ending \<open>Crashed\<close>: the promise of the consumer callback is awaited by nobody.
\<close>

section \<open>The processor\<close>

text \<open>\<open>processJob\<close> throws (\<open>Some\<close>) or returns (\<open>None\<close>).\<close>

definition processJob :: "job \<Rightarrow> js_error option" where
  "processJob j =
     (if js_get ''shouldFailPermanently'' (payload j) = Some (JBool True)
      then Some (NonRetryableError (''Simulated non-retryable failure for job type \"'' @ jtype j @ ''\"''))
      else if js_get ''shouldFail'' (payload j) = Some (JBool True)
      then Some (JsError ''Error'' (''Simulated failure for job type \"'' @ jtype j @ ''\"'') None)
      else None)"

fun is_NonRetryableError :: "js_error \<Rightarrow> bool" where
  "is_NonRetryableError (NonRetryableError m) = True"
| "is_NonRetryableError _ = False"

fun isInvalidTextRepresentationError :: "js_error \<Rightarrow> bool" where
  "isInvalidTextRepresentationError (JsError n m c) \<longleftrightarrow> c = Some ''22P02''"
| "isInvalidTextRepresentationError (AggregateError es m c) \<longleftrightarrow> c = Some ''22P02''"
| "isInvalidTextRepresentationError (NonRetryableError m) \<longleftrightarrow> False"
| "isInvalidTextRepresentationError (ThrownValue s) \<longleftrightarrow> False"

section \<open>Control points\<close>

datatype ending = Ignored | Acked | Requeued | Crashed js_error

datatype pc =
    At_claim "json option"
  | At_lookup "json option"
  | At_process "json option" job
  | At_markCompleted "json option"
  | At_markDeadLettered "json option" string
  | At_publishDeadLetter "json option"
  | At_markRetrying "json option" int string
  | At_publishRetry "json option" int
  | At_backoff rat
  | Finished ending

record await =
  aw_io :: io
  aw_now :: timestamp
  aw_pub :: pub_io
  aw_ack :: "js_error option"
  aw_nack :: "js_error option"

text \<open>An \<open>await\<close> at which nothing fails.\<close>

definition calm :: "timestamp \<Rightarrow> await" where
  "calm now = \<lparr>aw_io = Io_ok, aw_now = now, aw_pub = Pub_ok, aw_ack = None, aw_nack = None\<rparr>"

record worker_state =
  ws_db :: db
  ws_broker :: broker
  dbErrorCount :: int

section \<open>Receiving a message\<close>

text \<open>\<open>const { jobId } = content\<close>: destructuring \<open>null\<close> throws a \<open>TypeError\<close>.\<close>

fun destructure_jobId :: "json \<Rightarrow> json option result" where
  "destructure_jobId JNull =
     Inl (JsError ''TypeError'' ''Cannot destructure property 'jobId' of 'content' as it is null.'' None)"
| "destructure_jobId (JObj ps) = Inr (js_get ''jobId'' ps)"
| "destructure_jobId _ = Inr None"

text \<open>The wait of the test-only claim synchronisation, 0 when it is disabled or its time is past.\<close>

definition claim_sync_wait :: "int \<Rightarrow> int \<Rightarrow> int" where
  "claim_sync_wait epochMs nowMs =
     (if epochMs > 0 then (let waitMs = epochMs - nowMs in if waitMs > 0 then waitMs else 0) else 0)"

text \<open>\<open>channel.ack(msg)\<close> or \<open>channel.nack(msg, false, true)\<close> where no \<open>try\<close> surrounds it.\<close>

definition ack_unguarded :: "await \<Rightarrow> pc" where
  "ack_unguarded a = Finished (case aw_ack a of None \<Rightarrow> Acked | Some e \<Rightarrow> Crashed e)"

definition nack_unguarded :: "await \<Rightarrow> pc" where
  "nack_unguarded a = Finished (case aw_nack a of None \<Rightarrow> Requeued | Some e \<Rightarrow> Crashed e)"

definition on_delivery :: "await \<Rightarrow> wire option \<Rightarrow> pc" where
  "on_delivery a msg = (case msg of
      None \<Rightarrow> Finished Ignored
    | Some w \<Rightarrow> (case JSON_parse w of
          None \<Rightarrow> ack_unguarded a
        | Some content \<Rightarrow> (case destructure_jobId content of
              Inl e \<Rightarrow> Finished (Crashed e)
            | Inr jobId \<Rightarrow> At_claim jobId)))"

section \<open>The steps of the handler\<close>

definition backoffBeforeRequeue :: "worker_state \<Rightarrow> pc \<times> worker_state" where
  "backoffBeforeRequeue s = (let n = dbErrorCount s + 1 in
     (At_backoff (computeDbErrorBackoffMs n), s\<lparr>dbErrorCount := n\<rparr>))"

text \<open>The \<open>catch (dbErr)\<close> of the claim.\<close>

definition claim_catch :: "await \<Rightarrow> js_error \<Rightarrow> worker_state \<Rightarrow> pc \<times> worker_state" where
  "claim_catch a dbErr s =
     (if isInvalidTextRepresentationError dbErr then (ack_unguarded a, s) else backoffBeforeRequeue s)"

text \<open>The classification of a processing failure.\<close>

definition classify_failure :: "json option \<Rightarrow> job \<Rightarrow> js_error \<Rightarrow> pc" where
  "classify_failure jobId j err =
     (let message = error_text err;
          nonRetryable = is_NonRetryableError err;
          exhausted = attempt_count j \<ge> max_attempts j
      in if nonRetryable then At_markDeadLettered jobId message
         else if exhausted then At_markDeadLettered jobId message
         else At_markRetrying jobId (calculateBackoffMs (attempt_count j)) message)"

text \<open>
  The steps, one per \<open>await\<close>. At \<open>At_lookup\<close> the claim was refused and the code reads the row for a log line:
  the read changes nothing and its failure is caught, so that only the acknowledgement remains, still inside the
  \<open>try\<close> of the claim.
\<close>

fun consumer_step :: "uuid_input \<Rightarrow> await \<Rightarrow> pc \<Rightarrow> worker_state \<Rightarrow> pc \<times> worker_state" where
  "consumer_step uin a (At_claim jobId) s =
     (case claimJob uin (aw_io a) (aw_now a) jobId (ws_db s) of
        (Inl dbErr, d) \<Rightarrow> claim_catch a dbErr (s\<lparr>ws_db := d\<rparr>)
      | (Inr None, d) \<Rightarrow> (At_lookup jobId, s\<lparr>ws_db := d, dbErrorCount := 0\<rparr>)
      | (Inr (Some job), d) \<Rightarrow> (At_process jobId job, s\<lparr>ws_db := d, dbErrorCount := 0\<rparr>))"
| "consumer_step uin a (At_lookup jobId) s =
     (case aw_ack a of
        None \<Rightarrow> (Finished Acked, s)
      | Some e \<Rightarrow> claim_catch a e s)"
| "consumer_step uin a (At_process jobId job) s =
     (case processJob job of
        None \<Rightarrow> (At_markCompleted jobId, s)
      | Some err \<Rightarrow> (classify_failure jobId job err, s))"
| "consumer_step uin a (At_markCompleted jobId) s =
     (case markCompleted uin (aw_io a) (aw_now a) jobId (ws_db s) of
        (Inl bookkeepingErr, d) \<Rightarrow> backoffBeforeRequeue (s\<lparr>ws_db := d\<rparr>)
      | (Inr _, d) \<Rightarrow> (case aw_ack a of
            None \<Rightarrow> (Finished Acked, s\<lparr>ws_db := d\<rparr>)
          | Some e \<Rightarrow> backoffBeforeRequeue (s\<lparr>ws_db := d\<rparr>)))"
| "consumer_step uin a (At_markDeadLettered jobId message) s =
     (case markDeadLettered uin (aw_io a) (aw_now a) jobId message (ws_db s) of
        (Inl err, d) \<Rightarrow> backoffBeforeRequeue (s\<lparr>ws_db := d\<rparr>)
      | (Inr _, d) \<Rightarrow> (At_publishDeadLetter jobId, s\<lparr>ws_db := d\<rparr>))"
| "consumer_step uin a (At_publishDeadLetter jobId) s =
     (case publishDeadLetter (aw_pub a) jobId (ws_broker s) of
        (Inl err, b) \<Rightarrow> backoffBeforeRequeue (s\<lparr>ws_broker := b\<rparr>)
      | (Inr _, b) \<Rightarrow> (ack_unguarded a, s\<lparr>ws_broker := b\<rparr>))"
| "consumer_step uin a (At_markRetrying jobId delayMs message) s =
     (case markRetrying uin (aw_io a) (aw_now a) jobId message (ws_db s) of
        (Inl err, d) \<Rightarrow> backoffBeforeRequeue (s\<lparr>ws_db := d\<rparr>)
      | (Inr _, d) \<Rightarrow> (At_publishRetry jobId delayMs, s\<lparr>ws_db := d\<rparr>))"
| "consumer_step uin a (At_publishRetry jobId delayMs) s =
     (case publishRetry (aw_pub a) jobId delayMs (ws_broker s) of
        (Inl err, b) \<Rightarrow> backoffBeforeRequeue (s\<lparr>ws_broker := b\<rparr>)
      | (Inr _, b) \<Rightarrow> (ack_unguarded a, s\<lparr>ws_broker := b\<rparr>))"
| "consumer_step uin a (At_backoff delayMs) s = (nack_unguarded a, s)"
| "consumer_step uin a (Finished e) s = (Finished e, s)"

text \<open>One delivery handled alone: one element of the list per \<open>await\<close>.\<close>

fun run_handler :: "uuid_input \<Rightarrow> await list \<Rightarrow> pc \<Rightarrow> worker_state \<Rightarrow> pc \<times> worker_state" where
  "run_handler uin [] p s = (p, s)"
| "run_handler uin (a # as) p s = (let (p', s') = consumer_step uin a p s in run_handler uin as p' s')"

text \<open>
  The resubscription loop after a disconnect: \<open>outcomes\<close> says for each attempt whether
  \<open>subscribe()\<close> succeeds. The result is the list of delays slept and whether it subscribed.
\<close>

fun resubscribe_loop :: "int \<Rightarrow> bool list \<Rightarrow> int list \<times> bool" where
  "resubscribe_loop delayMs [] = ([], False)"
| "resubscribe_loop delayMs (ok # oks) =
     (if ok then ([], True)
      else (let (slept, r) = resubscribe_loop (min (delayMs * 2) RECONNECT_MAX_DELAY_MS) oks
            in (delayMs # slept, r)))"

definition resubscribeWithBackoff :: "bool \<Rightarrow> bool list \<Rightarrow> int list \<times> bool" where
  "resubscribeWithBackoff reconnecting outcomes =
     (if reconnecting then ([], False) else resubscribe_loop RECONNECT_BASE_DELAY_MS outcomes)"

section \<open>What a step of the handler can do\<close>

text \<open>The identifier a control point works on, and the events a step from it may cause.\<close>

fun pc_job :: "pc \<Rightarrow> json option option" where
  "pc_job (At_claim v) = Some v"
| "pc_job (At_lookup v) = Some v"
| "pc_job (At_process v j) = Some v"
| "pc_job (At_markCompleted v) = Some v"
| "pc_job (At_markDeadLettered v m) = Some v"
| "pc_job (At_publishDeadLetter v) = Some v"
| "pc_job (At_markRetrying v n m) = Some v"
| "pc_job (At_publishRetry v n) = Some v"
| "pc_job (At_backoff n) = None"
| "pc_job (Finished e) = None"

fun pc_event :: "pc \<Rightarrow> life_event \<Rightarrow> bool" where
  "pc_event (At_claim v) e \<longleftrightarrow> e = Claim"
| "pc_event (At_markCompleted v) e \<longleftrightarrow> e = Complete"
| "pc_event (At_markDeadLettered v m) e \<longleftrightarrow> e = DeadLetter m"
| "pc_event (At_markRetrying v n m) e \<longleftrightarrow> e = Retry m"
| "pc_event _ e \<longleftrightarrow> False"

definition pc_binding :: "uuid_input \<Rightarrow> pc \<Rightarrow> js_error + uuid option" where
  "pc_binding uin p = (case pc_job p of None \<Rightarrow> Inr None | Some v \<Rightarrow> uin v)"

lemma backoff_state [simp]:
  "ws_db (snd (backoffBeforeRequeue s)) = ws_db s" "ws_broker (snd (backoffBeforeRequeue s)) = ws_broker s"
  by (simp_all add: backoffBeforeRequeue_def Let_def)

lemma claim_catch_state [simp]:
  "ws_db (snd (claim_catch a e s)) = ws_db s" "ws_broker (snd (claim_catch a e s)) = ws_broker s"
  by (simp_all add: claim_catch_def)

lemma backoff_pc: "fst (backoffBeforeRequeue s) = At_backoff (computeDbErrorBackoffMs (dbErrorCount s + 1))"
  by (simp add: backoffBeforeRequeue_def Let_def)

text \<open>A step of the handler is at most one step in the life of the job its control point names.\<close>

lemma consumer_step_life:
  assumes ok: "schema_ok (ws_db s)" and run: "consumer_step uin a p s = (p', s')"
  shows "one_life_step (pc_event p) (pc_binding uin p) (ws_db s) (ws_db s') \<and> schema_ok (ws_db s')"
proof (cases p)
  case (At_claim v)
  obtain r d where c: "claimJob uin (aw_io a) (aw_now a) v (ws_db s) = (r, d)" by fastforce
  have "ws_db s' = d" using run c At_claim
    by (cases r) (auto split: option.splits dest: arg_cong [where f = "\<lambda>y. ws_db (snd y)"])
  with claimJob_life [OF ok c] claimJob_effect [OF ok c] At_claim show ?thesis
    by (auto simp: pc_binding_def elim: one_life_step_mono)
next
  case (At_markCompleted v)
  obtain r d where c: "markCompleted uin (aw_io a) (aw_now a) v (ws_db s) = (r, d)" by fastforce
  have "ws_db s' = d" using run c At_markCompleted
    by (cases r) (auto split: option.splits dest: arg_cong [where f = "\<lambda>y. ws_db (snd y)"])
  with markCompleted_life [OF ok c] markCompleted_effect [OF ok c] At_markCompleted show ?thesis
    by (auto simp: pc_binding_def elim: one_life_step_mono)
next
  case (At_markDeadLettered v m)
  obtain r d where c: "markDeadLettered uin (aw_io a) (aw_now a) v m (ws_db s) = (r, d)" by fastforce
  have "ws_db s' = d" using run c At_markDeadLettered
    by (cases r) (auto dest: arg_cong [where f = "\<lambda>y. ws_db (snd y)"])
  with markDeadLettered_life [OF ok c] markDeadLettered_effect [OF ok c] At_markDeadLettered show ?thesis
    by (auto simp: pc_binding_def elim: one_life_step_mono)
next
  case (At_markRetrying v n m)
  obtain r d where c: "markRetrying uin (aw_io a) (aw_now a) v m (ws_db s) = (r, d)" by fastforce
  have "ws_db s' = d" using run c At_markRetrying
    by (cases r) (auto dest: arg_cong [where f = "\<lambda>y. ws_db (snd y)"])
  with markRetrying_life [OF ok c] markRetrying_effect [OF ok c] At_markRetrying show ?thesis
    by (auto simp: pc_binding_def elim: one_life_step_mono)
qed (use run ok in \<open>auto simp: one_life_step_refl split: option.splits prod.splits sum.splits
        dest: arg_cong [where f = "\<lambda>y. ws_db (snd y)"]\<close>)

text \<open>A step only ever adds messages to queues, and keeps the topology.\<close>

lemma publish_grows:
  "set (queue b q) \<subseteq> set (queue (snd (publish_or_throw pio m msg b)) q)"
  by (auto simp: publish_or_throw_snd channel_publish_def queue_route split: pub_io.splits)

lemma publish_ready: "topology_ready (snd (publish_or_throw pio m msg b)) = topology_ready b"
  by (simp add: publish_or_throw_snd)

lemma consumer_step_publishes:
  assumes run: "consumer_step uin a p s = (p', s')"
  shows "ws_broker s' = ws_broker s \<or> (\<exists>m msg. ws_broker s' = snd (publish_or_throw (aw_pub a) m msg (ws_broker s)))"
proof (cases p)
  case (At_publishRetry v n)
  obtain r b where c: "publishRetry (aw_pub a) v n (ws_broker s) = (r, b)" by fastforce
  then have "ws_broker s' = b" using run At_publishRetry
    by (cases r) (auto dest: arg_cong [where f = "\<lambda>y. ws_broker (snd y)"])
  with c show ?thesis unfolding publishRetry_def by (metis snd_conv)
next
  case (At_publishDeadLetter v)
  obtain r b where c: "publishDeadLetter (aw_pub a) v (ws_broker s) = (r, b)" by fastforce
  then have "ws_broker s' = b" using run At_publishDeadLetter
    by (cases r) (auto dest: arg_cong [where f = "\<lambda>y. ws_broker (snd y)"])
  with c show ?thesis unfolding publishDeadLetter_def by (metis snd_conv)
qed (use run in \<open>auto split: option.splits prod.splits sum.splits
        dest: arg_cong [where f = "\<lambda>y. ws_broker (snd y)"]\<close>)

lemma consumer_step_grows:
  assumes "consumer_step uin a p s = (p', s')"
  shows "set (queue (ws_broker s) q) \<subseteq> set (queue (ws_broker s') q)"
  using consumer_step_publishes [OF assms] publish_grows by (metis order_refl)

lemma consumer_step_ready:
  assumes "consumer_step uin a p s = (p', s')"
  shows "topology_ready (ws_broker s') = topology_ready (ws_broker s)"
  using consumer_step_publishes [OF assms] publish_ready by metis

lemma claim_catch_pc:
  "fst (claim_catch a e s) = ack_unguarded a \<or> (\<exists>n. fst (claim_catch a e s) = At_backoff n)"
  by (simp add: claim_catch_def backoff_pc)

lemma pc_job_unguarded [simp]: "pc_job (ack_unguarded a) = None" "pc_job (nack_unguarded a) = None"
  by (simp_all add: ack_unguarded_def nack_unguarded_def)

lemma pc_job_backoff [simp]: "pc_job (fst (backoffBeforeRequeue s)) = None"
  by (simp add: backoff_pc)

lemma pc_job_claim_catch [simp]: "pc_job (fst (claim_catch a e s)) = None"
  using claim_catch_pc [of a e s] by auto

lemma pc_job_classify [simp]: "pc_job (classify_failure v j err) = Some v"
  by (simp add: classify_failure_def Let_def)

text \<open>A handler never changes the job it works on.\<close>

lemma consumer_step_job:
  assumes "consumer_step uin a p s = (p', s')" and "pc_job p' = Some v"
  shows "pc_job p = Some v"
proof -
  have "pc_job (fst (consumer_step uin a p s)) \<in> {None, pc_job p}"
    by (cases p) (auto split: prod.splits sum.splits option.splits)
  with assms show ?thesis by simp
qed

text \<open>How many more \<open>await\<close>s a handler can take.\<close>

fun pc_rank :: "pc \<Rightarrow> nat" where
  "pc_rank (At_claim v) = 5"
| "pc_rank (At_process v j) = 4"
| "pc_rank (At_markCompleted v) = 3"
| "pc_rank (At_markDeadLettered v m) = 3"
| "pc_rank (At_markRetrying v n m) = 3"
| "pc_rank (At_lookup v) = 2"
| "pc_rank (At_publishDeadLetter v) = 2"
| "pc_rank (At_publishRetry v n) = 2"
| "pc_rank (At_backoff n) = 1"
| "pc_rank (Finished e) = 0"

lemma pc_rank_simps [simp]:
  "pc_rank (ack_unguarded a) = 0" "pc_rank (nack_unguarded a) = 0" "pc_rank (fst (backoffBeforeRequeue s)) = 1"
  "pc_rank (classify_failure v j err) = 3"
  by (simp_all add: ack_unguarded_def nack_unguarded_def backoff_pc classify_failure_def Let_def)

lemma consumer_step_rank: "pc_rank (fst (consumer_step uin a p s)) \<le> pc_rank p - 1"
  by (cases p) (auto simp: claim_catch_def split: prod.splits sum.splits option.splits)

lemma pc_rank_0: "pc_rank p = 0 \<Longrightarrow> \<exists>e. p = Finished e"
  by (cases p) simp_all

lemma run_handler_rank: "pc_rank (fst (run_handler uin as p s)) \<le> pc_rank p - length as"
proof (induction as arbitrary: p s)
  case Nil
  then show ?case by simp
next
  case (Cons a as)
  show ?case
    using Cons [of "fst (consumer_step uin a p s)" "snd (consumer_step uin a p s)"] consumer_step_rank [of uin a p s]
    by (simp add: split_def Let_def)
qed

lemma on_delivery_rank: "pc_rank (on_delivery a msg) \<le> 5"
  by (simp add: on_delivery_def split: option.splits sum.splits)

text \<open>An attempt without faults: the claim, then \<open>processJob\<close> on the claimed row.\<close>

lemma processJob_same: "payload j' = payload j \<Longrightarrow> jtype j' = jtype j \<Longrightarrow> processJob j' = processJob j"
  by (simp add: processJob_def)

lemma processJob_claimed [simp]: "processJob (claim_set now j) = processJob j"
  by (simp add: processJob_def claim_set_def)

lemma claim_set_simps [simp]:
  "attempt_count (claim_set now j) = attempt_count j + 1" "max_attempts (claim_set now j) = max_attempts j"
  "in_processing (claim_set now j)"
  by (simp_all add: claim_set_def in_processing_def)

lemma calm_simps [simp]:
  "aw_io (calm t) = Io_ok" "aw_now (calm t) = t" "aw_pub (calm t) = Pub_ok" "aw_ack (calm t) = None" "aw_nack (calm t) = None"
  by (simp_all add: calm_def)

lemma calm_claim:
  assumes "schema_ok (ws_db s)" "uin v = Inr (Some u)" "find_job (ws_db s) u = Some j" "claim_where t j" "\<not> claim_overflow j"
  obtains d where "consumer_step uin (calm t) (At_claim v) s
      = (At_process v (claim_set t j), s\<lparr>ws_db := d, dbErrorCount := 0\<rparr>)"
    "find_job d = (find_job (ws_db s))(u \<mapsto> claim_set t j)" "schema_ok d"
  using claimJob_hit [where uin = uin and v = v, OF assms] that by auto

text \<open>The three ways a whole attempt without faults can go.\<close>

lemma attempt_succeeds:
  assumes "schema_ok (ws_db s)" "uin v = Inr (Some u)" "find_job (ws_db s) u = Some j" "claim_where t1 j"
    and "\<not> claim_overflow j" and "processJob j = None"
  shows "\<exists>s'. run_handler uin [calm t1, calm t2, calm t3] (At_claim v) s = (Finished Acked, s')
     \<and> find_job (ws_db s') = (find_job (ws_db s))(u \<mapsto> completed_set t3 (claim_set t1 j))
     \<and> ws_broker s' = ws_broker s \<and> dbErrorCount s' = 0"
proof -
  from calm_claim [where uin = uin and v = v, OF assms(1-5)] obtain d where
    c: "consumer_step uin (calm t1) (At_claim v) s = (At_process v (claim_set t1 j), s\<lparr>ws_db := d, dbErrorCount := 0\<rparr>)"
    and d: "find_job d = (find_job (ws_db s))(u \<mapsto> claim_set t1 j)" "schema_ok d" by blast
  from markCompleted_hit [where uin = uin and v = v and u = u and j = "claim_set t1 j" and now = t3, OF d(2) assms(2)] d
  obtain d' where "markCompleted uin Io_ok t3 v d = (Inr (completed_set t3 (claim_set t1 j)), d')"
    "find_job d' = (find_job (ws_db s))(u \<mapsto> completed_set t3 (claim_set t1 j))" by auto
  with c assms(6) show ?thesis by (simp del: consumer_step.simps(1))
qed

lemma attempt_retries:
  assumes "schema_ok (ws_db s)" "uin v = Inr (Some u)" "find_job (ws_db s) u = Some j" "claim_where t1 j"
    and "\<not> claim_overflow j" and "processJob j = Some err" "\<not> is_NonRetryableError err"
    and "attempt_count j + 1 < max_attempts j" and "topology_ready (ws_broker s)"
  shows "\<exists>s'. run_handler uin [calm t1, calm t2, calm t3, calm t4] (At_claim v) s = (Finished Acked, s')
     \<and> find_job (ws_db s') = (find_job (ws_db s))(u \<mapsto> retrying_set t3 (error_text err) (claim_set t1 j))
     \<and> (\<forall>q. queue (ws_broker s') q = (if q = RETRY_QUEUE_NAME
           then queue (ws_broker s) q @ [job_retry_message v (calculateBackoffMs (attempt_count j + 1))]
           else queue (ws_broker s) q))"
proof -
  from calm_claim [where uin = uin and v = v, OF assms(1-5)] obtain d where
    c: "consumer_step uin (calm t1) (At_claim v) s = (At_process v (claim_set t1 j), s\<lparr>ws_db := d, dbErrorCount := 0\<rparr>)"
    and d: "find_job d = (find_job (ws_db s))(u \<mapsto> claim_set t1 j)" "schema_ok d" by blast
  from markRetrying_hit [where uin = uin and v = v and u = u and j = "claim_set t1 j" and now = t3 and m = "error_text err",
      OF d(2) assms(2)] d
  obtain d' where m: "markRetrying uin Io_ok t3 v (error_text err) d = (Inr (retrying_set t3 (error_text err) (claim_set t1 j)), d')"
    "find_job d' = (find_job (ws_db s))(u \<mapsto> retrying_set t3 (error_text err) (claim_set t1 j))" by auto
  have p: "publishRetry Pub_ok v n b = (Inr (), route (job_retry_message v n) b)" for n b
    by (simp add: publishRetry_def publish_or_throw_ok)
  show ?thesis
    using c m p assms(6-9)
    by (auto simp del: consumer_step.simps(1)
        simp: classify_failure_def Let_def ack_unguarded_def queue_route topology_ready_def job_retry_message_def)
qed

lemma attempt_dead_letters:
  assumes "schema_ok (ws_db s)" "uin v = Inr (Some u)" "find_job (ws_db s) u = Some j" "claim_where t1 j"
    and "\<not> claim_overflow j" and "processJob j = Some err"
    and "is_NonRetryableError err \<or> attempt_count j + 1 \<ge> max_attempts j" and "topology_ready (ws_broker s)"
  shows "\<exists>s'. run_handler uin [calm t1, calm t2, calm t3, calm t4] (At_claim v) s = (Finished Acked, s')
     \<and> find_job (ws_db s') = (find_job (ws_db s))(u \<mapsto> dead_lettered_set t3 (error_text err) (claim_set t1 j))
     \<and> (\<forall>q. queue (ws_broker s') q = (if q = DLQ_QUEUE_NAME
           then queue (ws_broker s) q @ [dead_letter_message v] else queue (ws_broker s) q))"
proof -
  from calm_claim [where uin = uin and v = v, OF assms(1-5)] obtain d where
    c: "consumer_step uin (calm t1) (At_claim v) s = (At_process v (claim_set t1 j), s\<lparr>ws_db := d, dbErrorCount := 0\<rparr>)"
    and d: "find_job d = (find_job (ws_db s))(u \<mapsto> claim_set t1 j)" "schema_ok d" by blast
  from markDeadLettered_hit [where uin = uin and v = v and u = u and j = "claim_set t1 j" and now = t3 and m = "error_text err",
      OF d(2) assms(2)] d
  obtain d' where m: "markDeadLettered uin Io_ok t3 v (error_text err) d = (Inr (dead_lettered_set t3 (error_text err) (claim_set t1 j)), d')"
    "find_job d' = (find_job (ws_db s))(u \<mapsto> dead_lettered_set t3 (error_text err) (claim_set t1 j))" by auto
  have cl: "classify_failure v (claim_set t1 j) err = At_markDeadLettered v (error_text err)"
    using assms(7) by (auto simp: classify_failure_def Let_def)
  have p: "publishDeadLetter Pub_ok v b = (Inr (), route (dead_letter_message v) b)" for b
    by (simp add: publishDeadLetter_def publish_or_throw_ok)
  show ?thesis
    using c m p cl assms(6,8)
    by (auto simp del: consumer_step.simps(1)
        simp: ack_unguarded_def queue_route topology_ready_def dead_letter_message_def)
qed

section \<open>Properties\<close>

text \<open>C23. A retry published for a job comes back: once its delay has expired the broker holds, in the jobs queue,
  a message that a worker reads as the same job identifier, and the retry queue is as before the publish.\<close>

theorem retry_round_trip:
  assumes "topology_ready b" and "publishRetry Pub_ok v n b = (Inr (), b1)"
  shows "\<exists>m. queue b1 RETRY_QUEUE_NAME = queue b RETRY_QUEUE_NAME @ [m]
     \<and> pub_expiration m = Some (int_text n)
     \<and> (m \<notin> set (queue b RETRY_QUEUE_NAME) \<longrightarrow>
        queue (expire RETRY_QUEUE_NAME m b1) RETRY_QUEUE_NAME = queue b RETRY_QUEUE_NAME)
     \<and> (\<exists>m'. queue (expire RETRY_QUEUE_NAME m b1) QUEUE_NAME = queue b QUEUE_NAME @ [m']
            \<and> on_delivery a (Some (pub_body m')) = At_claim v)"
proof -
  let ?m = "job_retry_message v n"
  have b1: "b1 = route ?m b" using assms(2) by (simp add: publishRetry_def publish_or_throw_ok)
  have q: "queue b1 RETRY_QUEUE_NAME = queue b RETRY_QUEUE_NAME @ [?m]" "queue b1 QUEUE_NAME = queue b QUEUE_NAME"
    using assms(1) by (auto simp: b1 queue_route topology_ready_def job_retry_message_def)
  have r: "topology_ready b1" using assms(1) b1 by simp
  have "on_delivery a (Some (pub_body ?m)) = At_claim v"
    by (cases v) (simp_all add: on_delivery_def job_retry_message_def JSON_roundtrip jobId_message_def js_get_def)
  with q expire_retry [OF r, of ?m] show ?thesis
    by (intro exI [of _ ?m]) (simp add: remove1_append job_retry_message_def)
qed

theorem retry_round_trip_witness:
  "let b1 = route (job_retry_message (Some (JStr ''j1'')) 4000) (worker_topology empty_broker) in
   \<exists>m m'. queue b1 RETRY_QUEUE_NAME = [m] \<and> pub_expiration m = Some (int_text 4000)
     \<and> queue (expire RETRY_QUEUE_NAME m b1) QUEUE_NAME = [m']
     \<and> on_delivery (calm 0) (Some (pub_body m')) = At_claim (Some (JStr ''j1''))"
  using retry_round_trip [OF topology_ready_worker,
      of "Some (JStr ''j1'')" 4000 "route (job_retry_message (Some (JStr ''j1'')) 4000) (worker_topology empty_broker)" "calm 0"]
  by (simp add: publishRetry_def publish_or_throw_ok Let_def) blast

text \<open>C18. Whatever the message is and whatever fails on the way, a delivery's handler ends after at most five
  \<open>await\<close>s: the claim, the processor, the record of the outcome, the publish, the pause before a requeue.\<close>

theorem handler_ends:
  "\<exists>e. fst (run_handler uin (a1 # a2 # a3 # a4 # a5 # as) (on_delivery a msg) s) = Finished e"
proof (rule pc_rank_0)
  have "pc_rank (on_delivery a msg) - length (a1 # a2 # a3 # a4 # a5 # as) = 0"
    using on_delivery_rank [of a msg] by simp
  with run_handler_rank [of uin "a1 # a2 # a3 # a4 # a5 # as" "on_delivery a msg" s]
  show "pc_rank (fst (run_handler uin (a1 # a2 # a3 # a4 # a5 # as) (on_delivery a msg) s)) = 0" by linarith
qed

text \<open>C14. A claimable job whose processing succeeds ends as \<open>COMPLETED\<close> with no error and one attempt more, its
  message is acknowledged, nothing is published, no other job changes and the error counter of the worker is reset.\<close>

theorem handler_success:
  assumes "schema_ok (ws_db s)" "uin v = Inr (Some u)" "find_job (ws_db s) u = Some j" "claim_where t1 j"
    and "\<not> claim_overflow j" and "processJob j = None"
  shows "\<exists>s'. run_handler uin [calm t1, calm t2, calm t3] (At_claim v) s = (Finished Acked, s')
     \<and> find_job (ws_db s') = (find_job (ws_db s))(u \<mapsto> completed_set t3 (claim_set t1 j))
     \<and> ws_broker s' = ws_broker s \<and> dbErrorCount s' = 0"
  by (rule attempt_succeeds [where uin = uin and v = v, OF assms])

theorem handler_success_witness:
  "\<exists>s'. run_handler plain_uin [calm 1, calm 2, calm 3] (At_claim j1)
        \<lparr>ws_db = sample_db (sample_job QUEUED 0 []), ws_broker = empty_broker, dbErrorCount = 4\<rparr> = (Finished Acked, s')
     \<and> find_job (ws_db s') ''j1'' = Some (completed_set 3 (claim_set 1 (sample_job QUEUED 0 [])))"
  using handler_success [of "\<lparr>ws_db = sample_db (sample_job QUEUED 0 []), ws_broker = empty_broker, dbErrorCount = 4\<rparr>"
      plain_uin j1 "''j1''" "sample_job QUEUED 0 []" 1 2 3]
  by (auto simp: sample_find int4_max_def claim_where_def claim_overflow_def int4_overflow_def processJob_def js_get_def)

text \<open>C15. A retryable failure with attempts left: the job is \<open>RETRYING\<close> with the error recorded, exactly one message
  carrying its identifier goes to the retry queue with the delay of this attempt, and the delivery is acknowledged.\<close>

theorem handler_retry:
  assumes "schema_ok (ws_db s)" "uin v = Inr (Some u)" "find_job (ws_db s) u = Some j" "claim_where t1 j"
    and "\<not> claim_overflow j" and "processJob j = Some err" "\<not> is_NonRetryableError err"
    and "attempt_count j + 1 < max_attempts j" and "topology_ready (ws_broker s)"
  shows "\<exists>s'. run_handler uin [calm t1, calm t2, calm t3, calm t4] (At_claim v) s = (Finished Acked, s')
     \<and> find_job (ws_db s') = (find_job (ws_db s))(u \<mapsto> retrying_set t3 (error_text err) (claim_set t1 j))
     \<and> (\<forall>q. queue (ws_broker s') q = (if q = RETRY_QUEUE_NAME
           then queue (ws_broker s) q @ [job_retry_message v (calculateBackoffMs (attempt_count j + 1))]
           else queue (ws_broker s) q))"
  by (rule attempt_retries [where uin = uin and v = v, OF assms])

theorem handler_retry_witness:
  "\<exists>s'. run_handler plain_uin [calm 1, calm 2, calm 3, calm 4] (At_claim j1)
        \<lparr>ws_db = sample_db (sample_job RETRYING 1 [(''shouldFail'', JBool True)]),
         ws_broker = worker_topology empty_broker, dbErrorCount = 0\<rparr> = (Finished Acked, s')
     \<and> queue (ws_broker s') RETRY_QUEUE_NAME = [job_retry_message j1 4000]"
  using handler_retry [of "\<lparr>ws_db = sample_db (sample_job RETRYING 1 [(''shouldFail'', JBool True)]),
        ws_broker = worker_topology empty_broker, dbErrorCount = 0\<rparr>"
      plain_uin j1 "''j1''" "sample_job RETRYING 1 [(''shouldFail'', JBool True)]" 1 _ 2 3 4]
  by (auto simp: sample_find int4_max_def claim_where_def claim_overflow_def int4_overflow_def processJob_def js_get_def
      topology_ready_worker calculateBackoffMs_def BASE_DELAY_MS_def MULTIPLIER_def MAX_DELAY_MS_def)

text \<open>C16. A failure that is not retryable, or that used the last attempt: the job is \<open>DEAD_LETTERED\<close> with the reason and
  the time, exactly one message goes to the dead-letter queue, none to the retry queue, and the delivery is acknowledged.\<close>

theorem handler_dead_letter:
  assumes "schema_ok (ws_db s)" "uin v = Inr (Some u)" "find_job (ws_db s) u = Some j" "claim_where t1 j"
    and "\<not> claim_overflow j" and "processJob j = Some err"
    and "is_NonRetryableError err \<or> attempt_count j + 1 \<ge> max_attempts j" and "topology_ready (ws_broker s)"
  shows "\<exists>s'. run_handler uin [calm t1, calm t2, calm t3, calm t4] (At_claim v) s = (Finished Acked, s')
     \<and> find_job (ws_db s') = (find_job (ws_db s))(u \<mapsto> dead_lettered_set t3 (error_text err) (claim_set t1 j))
     \<and> (\<forall>q. queue (ws_broker s') q = (if q = DLQ_QUEUE_NAME
           then queue (ws_broker s) q @ [dead_letter_message v] else queue (ws_broker s) q))"
  by (rule attempt_dead_letters [where uin = uin and v = v, OF assms])

theorem handler_dead_letter_witness:
  "\<exists>s'. run_handler plain_uin [calm 1, calm 2, calm 3, calm 4] (At_claim j1)
        \<lparr>ws_db = sample_db (sample_job RETRYING 4 [(''shouldFail'', JBool True)]),
         ws_broker = worker_topology empty_broker, dbErrorCount = 0\<rparr> = (Finished Acked, s')
     \<and> queue (ws_broker s') DLQ_QUEUE_NAME = [dead_letter_message j1]"
  using handler_dead_letter [of "\<lparr>ws_db = sample_db (sample_job RETRYING 4 [(''shouldFail'', JBool True)]),
        ws_broker = worker_topology empty_broker, dbErrorCount = 0\<rparr>"
      plain_uin j1 "''j1''" "sample_job RETRYING 4 [(''shouldFail'', JBool True)]" 1 _ 2 3 4]
  by (auto simp: sample_find int4_max_def claim_where_def claim_overflow_def int4_overflow_def processJob_def js_get_def
      topology_ready_worker)

text \<open>Work that succeeded is never filed as a failure: when \<open>markCompleted\<close> throws, for whatever reason, the handler
  publishes nothing, records neither a retry nor a dead letter (the only event the job can have made is the completion
  itself, when just the answer was lost), counts one more consecutive error, pauses, and puts the message back.\<close>

lemma handler_bookkeeping:
  assumes "schema_ok (ws_db s)" and "markCompleted uin (aw_io a) (aw_now a) v (ws_db s) = (Inl e, d)" and "aw_nack b = None"
  shows "\<exists>s'. run_handler uin [a, b] (At_markCompleted v) s = (Finished Requeued, s')
     \<and> ws_db s' = d \<and> one_life_step ((=) Complete) (uin v) (ws_db s) d
     \<and> ws_broker s' = ws_broker s \<and> dbErrorCount s' = dbErrorCount s + 1"
  using assms(2,3) markCompleted_life [OF assms(1,2)]
  by (simp add: backoffBeforeRequeue_def Let_def nack_unguarded_def)

text \<open>When the database cannot be reached for the claim, nothing is recorded or published; the worker counts a
  consecutive error, sleeps for the delay of that count, and puts the message back, so that the job is not lost.\<close>

lemma handler_outage:
  assumes "aw_io a = Io_fail e" and "\<not> isInvalidTextRepresentationError e" and "aw_nack b = None"
  shows "consumer_step uin a (At_claim v) s
       = (At_backoff (computeDbErrorBackoffMs (dbErrorCount s + 1)), s\<lparr>dbErrorCount := dbErrorCount s + 1\<rparr>)
     \<and> run_handler uin [a, b] (At_claim v) s = (Finished Requeued, s\<lparr>dbErrorCount := dbErrorCount s + 1\<rparr>)"
  using assms
  by (simp add: claimJob_def claim_catch_def backoffBeforeRequeue_def Let_def nack_unguarded_def)

text \<open>Messages that can never be processed are acknowledged and leave no trace: a body that is no JSON, an identifier
  the database rejects as malformed, and a job that is missing, finished, or claimed by somebody else; in the last case
  without running the processor.\<close>

lemma handler_discards:
  assumes "schema_ok (ws_db s)" "uin bad = Inl e" "isInvalidTextRepresentationError e" "uin v = Inr (Some u)"
    and "\<And>j. find_job (ws_db s) u = Some j \<Longrightarrow> \<not> claim_where t1 j"
  shows "on_delivery (calm t0) (Some (Other_text txt)) = Finished Acked
     \<and> run_handler uin [calm t1] (At_claim bad) s = (Finished Acked, s)
     \<and> run_handler uin [calm t1, calm t2] (At_claim v) s = (Finished Acked, s\<lparr>dbErrorCount := 0\<rparr>)"
proof -
  have bad: "claimJob uin Io_ok t1 bad (ws_db s) = (Inl e, ws_db s)"
    using assms(2) by (simp add: claimJob_def job_update_def)
  have miss: "claimJob uin Io_ok t1 v (ws_db s) = (Inr None, ws_db s)"
    by (rule claimJob_miss [where uin = uin and v = v, OF assms(1,4,5)])
  show ?thesis
    using bad miss assms(3) by (simp add: on_delivery_def JSON_parse_def ack_unguarded_def claim_catch_def)
qed

text \<open>The resubscription loop stops with the first attempt that succeeds, and has slept once per failure before it: the base
  delay doubled from failure to failure, never above 30 seconds; a second loop is never started beside a running one.
\<close>

lemma resubscribe_schedule:
  "resubscribeWithBackoff False (replicate n False @ True # rest) = (map resubscribeDelayMs [0..<n], True)
   \<and> (\<forall>k. resubscribeDelayMs k = min (1000 * 2 ^ k) 30000)
   \<and> resubscribeWithBackoff True outcomes = ([], False)"
proof -
  have "resubscribe_loop (resubscribeDelayMs k) (replicate n False @ True # rest) = (map resubscribeDelayMs [k..<k + n], True)" for k
  proof (induction n arbitrary: k)
    case 0
    then show ?case by simp
  next
    case (Suc n)
    from Suc [of "Suc k"] show ?case by (simp add: upt_rec)
  qed
  from this [of 0] show ?thesis
    by (simp add: resubscribeWithBackoff_def resubscribeDelayMs_closed RECONNECT_BASE_DELAY_MS_def)
qed

end
