(* ===== verification/Outbox.thy ===== *)
theory Outbox
  imports Lifecycle Broker
begin

text \<open>
  The transactional outbox: the statements of apps/api/src/outbox/outboxService.ts and the
  dispatcher of apps/api/src/outbox/dispatcher.ts.

  The dispatcher's batch is, like the worker's handler, a machine with one control point per
  \<open>await\<close>, so that the system model can interleave batches (the interval timer of the source starts
  a new batch whether or not the last one has ended) with workers and with each other.
\<close>

section \<open>The statements\<close>

definition STALE_CLAIM_THRESHOLD_SECONDS :: int where
  "STALE_CLAIM_THRESHOLD_SECONDS = 30"

text \<open>
  \<open>INSERT INTO outbox_events (job_id)\<close>: the columns not given take their defaults. A used primary key
  raises \<open>23505\<close>, an unknown job \<open>23503\<close>.
\<close>

definition insertOutboxEvent :: "uuid \<Rightarrow> timestamp \<Rightarrow> uuid \<Rightarrow> unit statement" where
  "insertOutboxEvent new_id now jobId d =
     (if new_id \<in> set (map ev_id (outbox_events d)) then Inl (pg_error ''23505'')
      else if jobId \<notin> set (map jid (jobs d)) then Inl (pg_error ''23503'')
      else Inr ((), d\<lparr>outbox_events := outbox_events d @
        [\<lparr>ev_id = new_id, ev_job_id = jobId, ev_created_at = now, claimed_at = None,
          published_at = None, attempts = 0, ev_last_error = None\<rparr>]\<rparr>))"

definition pending :: "outbox_event \<Rightarrow> bool" where
  "pending e \<longleftrightarrow> published_at e = None"

definition claim_eligible :: "timestamp \<Rightarrow> outbox_event \<Rightarrow> bool" where
  "claim_eligible now e \<longleftrightarrow> pending e \<and>
     (case claimed_at e of None \<Rightarrow> True | Some t \<Rightarrow> t < now - STALE_CLAIM_THRESHOLD_SECONDS * 1000000)"

text \<open>
  The sub-select of the claim: eligible rows not locked by another transaction (\<open>SKIP LOCKED\<close>; the
  locked rows are an argument), oldest first, at most \<open>batchSize\<close>. Rows of equal age come in table order.
\<close>

definition select_claimable :: "timestamp \<Rightarrow> uuid list \<Rightarrow> nat \<Rightarrow> outbox_event list \<Rightarrow> uuid list" where
  "select_claimable now locked batchSize rows =
     map ev_id (take batchSize (sort_key ev_created_at
       (filter (\<lambda>e. claim_eligible now e \<and> ev_id e \<notin> set locked) rows)))"

definition claimPendingOutboxEvents ::
  "timestamp \<Rightarrow> uuid list \<Rightarrow> nat \<Rightarrow> outbox_event list statement" where
  "claimPendingOutboxEvents now locked batchSize d =
     (let ids = select_claimable now locked batchSize (outbox_events d);
          (rows, ret) = sql_update (\<lambda>e. ev_id e \<in> set ids) (\<lambda>e. e\<lparr>claimed_at := Some now\<rparr>) (outbox_events d)
      in Inr (ret, d\<lparr>outbox_events := rows\<rparr>))"

definition markOutboxPublished :: "timestamp \<Rightarrow> uuid \<Rightarrow> unit statement" where
  "markOutboxPublished now i d =
     Inr ((), d\<lparr>outbox_events := fst (sql_update (\<lambda>e. ev_id e = i) (\<lambda>e. e\<lparr>published_at := Some now\<rparr>)
       (outbox_events d))\<rparr>)"

definition markOutboxFailed :: "uuid \<Rightarrow> string \<Rightarrow> unit statement" where
  "markOutboxFailed i errorMessage d =
     (if list_ex (\<lambda>e. ev_id e = i \<and> int4_overflow (attempts e)) (outbox_events d)
      then Inl (pg_error ''22003'')
      else Inr ((), d\<lparr>outbox_events := fst (sql_update (\<lambda>e. ev_id e = i)
        (\<lambda>e. e\<lparr>claimed_at := None, attempts := attempts e + 1, ev_last_error := Some errorMessage\<rparr>)
        (outbox_events d))\<rparr>))"

definition countPendingOutboxEvents :: "db \<Rightarrow> int" where
  "countPendingOutboxEvents d = int (length (filter pending (outbox_events d)))"

section \<open>The dispatcher\<close>

definition BATCH_SIZE :: nat where
  "BATCH_SIZE = 10"

text \<open>The diagnostic text recorded for a failed dispatch.\<close>

fun dispatch_error_text :: "js_error \<Rightarrow> string" where
  "dispatch_error_text (AggregateError es m c) =
     (if es \<noteq> [] then join ''; '' (map error_text es)
      else if m \<noteq> [] then m else ''AggregateError'')"
| "dispatch_error_text (JsError n m c) = (if m \<noteq> [] then m else n)"
| "dispatch_error_text (NonRetryableError m) = (if m \<noteq> [] then m else ''NonRetryableError'')"
| "dispatch_error_text (ThrownValue s) = s"

text \<open>The object a batch returns: \<open>{ attempted, published, failed }\<close>.\<close>

record tally =
  attempted :: nat
  published :: nat
  failed :: nat

datatype dispatch_pc =
    D_claim
  | D_publish outbox_event "outbox_event list"
  | D_markPublished outbox_event "outbox_event list"
  | D_markFailed outbox_event string "outbox_event list"
  | D_return
  | D_reject js_error

record dispatch_await =
  da_io :: io
  da_now :: timestamp
  da_pub :: pub_io
  da_locked :: "uuid list"

record dispatch_state =
  ds_db :: db
  ds_broker :: broker
  ds_tally :: tally

definition next_event :: "outbox_event list \<Rightarrow> dispatch_pc" where
  "next_event es = (case es of [] \<Rightarrow> D_return | e # rest \<Rightarrow> D_publish e rest)"

definition empty_tally :: tally where
  "empty_tally = \<lparr>attempted = 0, published = 0, failed = 0\<rparr>"

fun dispatch_step :: "dispatch_await \<Rightarrow> dispatch_pc \<Rightarrow> dispatch_state \<Rightarrow> dispatch_pc \<times> dispatch_state" where
  "dispatch_step a D_claim s =
     (case query (da_io a) (claimPendingOutboxEvents (da_now a) (da_locked a) BATCH_SIZE) (ds_db s) of
        (Inl e, d) \<Rightarrow> (D_reject e, s\<lparr>ds_db := d\<rparr>)
      | (Inr claimed, d) \<Rightarrow>
          (next_event claimed, s\<lparr>ds_db := d, ds_tally := empty_tally\<lparr>attempted := length claimed\<rparr>\<rparr>))"
| "dispatch_step a (D_publish ev rest) s =
     (case publishJobCreated (da_pub a) (ev_job_id ev) (ds_broker s) of
        (Inl err, b) \<Rightarrow> (D_markFailed ev (dispatch_error_text err) rest, s\<lparr>ds_broker := b\<rparr>)
      | (Inr _, b) \<Rightarrow> (D_markPublished ev rest, s\<lparr>ds_broker := b\<rparr>))"
| "dispatch_step a (D_markPublished ev rest) s =
     (case query (da_io a) (markOutboxPublished (da_now a) (ev_id ev)) (ds_db s) of
        (Inl err, d) \<Rightarrow> (D_markFailed ev (dispatch_error_text err) rest, s\<lparr>ds_db := d\<rparr>)
      | (Inr _, d) \<Rightarrow>
          (next_event rest, s\<lparr>ds_db := d, ds_tally := (ds_tally s)\<lparr>published := published (ds_tally s) + 1\<rparr>\<rparr>))"
| "dispatch_step a (D_markFailed ev message rest) s =
     (case query (da_io a) (markOutboxFailed (ev_id ev) message) (ds_db s) of
        (Inl err, d) \<Rightarrow> (D_reject err, s\<lparr>ds_db := d\<rparr>)
      | (Inr _, d) \<Rightarrow>
          (next_event rest, s\<lparr>ds_db := d, ds_tally := (ds_tally s)\<lparr>failed := failed (ds_tally s) + 1\<rparr>\<rparr>))"
| "dispatch_step a D_return s = (D_return, s)"
| "dispatch_step a (D_reject e) s = (D_reject e, s)"

text \<open>One batch alone, one element of the list per \<open>await\<close>.\<close>

fun run_dispatch :: "dispatch_await list \<Rightarrow> dispatch_pc \<Rightarrow> dispatch_state \<Rightarrow> dispatch_pc \<times> dispatch_state" where
  "run_dispatch [] p s = (p, s)"
| "run_dispatch (a # as) p s = (let (p', s') = dispatch_step a p s in run_dispatch as p' s')"

definition dispatchOutboxBatch ::
  "dispatch_await list \<Rightarrow> db \<Rightarrow> broker \<Rightarrow> dispatch_pc \<times> dispatch_state" where
  "dispatchOutboxBatch as d b =
     run_dispatch as D_claim \<lparr>ds_db = d, ds_broker = b, ds_tally = empty_tally\<rparr>"

section \<open>The updates of the outbox rewrite no key\<close>

interpretation claimed_upd: keyed_update ev_id "\<lambda>e. e\<lparr>claimed_at := Some now\<rparr>" for now
  by unfold_locales simp

interpretation published_upd: keyed_update ev_id "\<lambda>e. e\<lparr>published_at := Some now\<rparr>" for now
  by unfold_locales simp

interpretation failed_upd: keyed_update ev_id
    "\<lambda>e. e\<lparr>claimed_at := None, attempts := attempts e + 1, ev_last_error := Some m\<rparr>" for m
  by unfold_locales simp

section \<open>Facts about the statements\<close>

lemma insertOutboxEvent_ok:
  "insertOutboxEvent new_id now u d = Inr ((), d') \<longleftrightarrow>
     new_id \<notin> set (map ev_id (outbox_events d)) \<and> u \<in> set (map jid (jobs d)) \<and>
     d' = d\<lparr>outbox_events := outbox_events d @
        [\<lparr>ev_id = new_id, ev_job_id = u, ev_created_at = now, claimed_at = None,
          published_at = None, attempts = 0, ev_last_error = None\<rparr>]\<rparr>"
  by (auto simp: insertOutboxEvent_def)

lemma insertOutboxEvent_schema:
  "insertOutboxEvent new_id now u d = Inr ((), d') \<Longrightarrow> schema_ok d \<Longrightarrow> schema_ok d'"
  by (auto simp: insertOutboxEvent_ok schema_ok_def int4_def int4_max_def)

text \<open>
  What a statement of the outbox leaves alone: the jobs, and of every event its identifier and its job.
\<close>

definition outbox_frame :: "db \<Rightarrow> db \<Rightarrow> bool" where
  "outbox_frame d d' \<longleftrightarrow> jobs d' = jobs d
     \<and> map (\<lambda>e. (ev_id e, ev_job_id e)) (outbox_events d') = map (\<lambda>e. (ev_id e, ev_job_id e)) (outbox_events d)"

lemma outbox_frame_update:
  "(\<And>e. ev_id (u e) = ev_id e \<and> ev_job_id (u e) = ev_job_id e) \<Longrightarrow>
   outbox_frame d (d\<lparr>outbox_events := fst (sql_update P u (outbox_events d))\<rparr>)"
  by (auto simp: outbox_frame_def sql_update_def)

lemma claimPending_frame:
  "claimPendingOutboxEvents now locked n d = Inr (ret, d') \<Longrightarrow> outbox_frame d d'"
  using outbox_frame_update [where u = "\<lambda>e. e\<lparr>claimed_at := Some now\<rparr>"]
  by (auto simp: claimPendingOutboxEvents_def Let_def split: prod.splits) (metis fst_conv)

lemma markPublished_frame: "markOutboxPublished now i d = Inr (r, d') \<Longrightarrow> outbox_frame d d'"
  by (auto simp: markOutboxPublished_def intro: outbox_frame_update)

lemma markFailed_frame: "markOutboxFailed i m d = Inr (r, d') \<Longrightarrow> outbox_frame d d'"
  by (auto simp: markOutboxFailed_def intro!: outbox_frame_update split: if_splits)

lemma outbox_frame_maps:
  assumes "outbox_frame d d'"
  shows "map ev_id (outbox_events d') = map ev_id (outbox_events d)"
    and "map ev_job_id (outbox_events d') = map ev_job_id (outbox_events d)"
    and "jobs d' = jobs d" "find_job d' = find_job d"
proof -
  from assms have eq: "map (\<lambda>e. (ev_id e, ev_job_id e)) (outbox_events d') = map (\<lambda>e. (ev_id e, ev_job_id e)) (outbox_events d)"
    and j: "jobs d' = jobs d" by (auto simp: outbox_frame_def)
  from eq have "map fst (map (\<lambda>e. (ev_id e, ev_job_id e)) (outbox_events d')) = map fst (map (\<lambda>e. (ev_id e, ev_job_id e)) (outbox_events d))"
    by simp
  then show "map ev_id (outbox_events d') = map ev_id (outbox_events d)" by (simp add: comp_def)
  from eq have "map snd (map (\<lambda>e. (ev_id e, ev_job_id e)) (outbox_events d')) = map snd (map (\<lambda>e. (ev_id e, ev_job_id e)) (outbox_events d))"
    by simp
  then show "map ev_job_id (outbox_events d') = map ev_job_id (outbox_events d)" by (simp add: comp_def)
  show "jobs d' = jobs d" "find_job d' = find_job d" using j by (simp_all add: find_job_def fun_eq_iff)
qed

lemma outbox_frame_refl: "outbox_frame d d"
  by (simp add: outbox_frame_def)

lemma select_claimable_eligible:
  "i \<in> set (select_claimable now locked n rows) \<Longrightarrow>
     \<exists>e \<in> set rows. ev_id e = i \<and> claim_eligible now e \<and> i \<notin> set locked"
  by (auto simp: select_claimable_def dest!: in_set_takeD)

lemma length_select_claimable: "length (select_claimable now locked n rows) \<le> n"
  by (simp add: select_claimable_def)

text \<open>Keyed rows selected by a list of their keys.\<close>

lemma length_filter_keys:
  assumes "distinct (map ev_id rows)"
  shows "length (filter (\<lambda>e. ev_id e \<in> set ids) rows) \<le> length ids"
proof -
  have "length (filter (\<lambda>e. ev_id e \<in> set ids) rows) = card (ev_id ` set (filter (\<lambda>e. ev_id e \<in> set ids) rows))"
    using assms by (metis distinct_card distinct_map_filter length_map set_map)
  also have "\<dots> \<le> card (set ids)" by (rule card_mono) auto
  also have "\<dots> \<le> length ids" by (rule card_length)
  finally show ?thesis .
qed

lemma claimPending_returned:
  assumes "claimPendingOutboxEvents now locked n d = Inr (ret, d')"
  shows "ret = map (\<lambda>e. e\<lparr>claimed_at := Some now\<rparr>)
     (filter (\<lambda>e. ev_id e \<in> set (select_claimable now locked n (outbox_events d))) (outbox_events d))"
    and "outbox_events d' = fst (sql_update (\<lambda>e. ev_id e \<in> set (select_claimable now locked n (outbox_events d)))
            (\<lambda>e. e\<lparr>claimed_at := Some now\<rparr>) (outbox_events d))"
  using assms by (auto simp: claimPendingOutboxEvents_def sql_update_def Let_def)

text \<open>An event just claimed is not claimed again before the staleness threshold has passed.\<close>

lemma not_eligible_fresh:
  "claimed_at e = Some t \<Longrightarrow> now \<le> t + STALE_CLAIM_THRESHOLD_SECONDS * 1000000 \<Longrightarrow> \<not> claim_eligible now e"
  by (simp add: claim_eligible_def)

section \<open>What a step of a batch can do\<close>

fun batch_events :: "dispatch_pc \<Rightarrow> outbox_event list" where
  "batch_events D_claim = []"
| "batch_events (D_publish ev rest) = ev # rest"
| "batch_events (D_markPublished ev rest) = ev # rest"
| "batch_events (D_markFailed ev m rest) = ev # rest"
| "batch_events D_return = []"
| "batch_events (D_reject e) = []"

lemma batch_events_next [simp]: "batch_events (next_event es) = es"
  by (simp add: next_event_def split: list.splits)

text \<open>The rows of a table before and after a statement that rewrites rows one by one.\<close>

definition rows_follow :: "(outbox_event \<Rightarrow> outbox_event \<Rightarrow> bool) \<Rightarrow> db \<Rightarrow> db \<Rightarrow> bool" where
  "rows_follow R d d' \<longleftrightarrow> (\<forall>e \<in> set (outbox_events d). \<exists>e' \<in> set (outbox_events d').
     ev_id e' = ev_id e \<and> ev_job_id e' = ev_job_id e \<and> R e e')"

lemma rows_follow_refl: "(\<And>e. R e e) \<Longrightarrow> rows_follow R d d"
  by (auto simp: rows_follow_def)

lemma rows_follow_update:
  assumes "\<And>e. ev_id (u e) = ev_id e \<and> ev_job_id (u e) = ev_job_id e"
    and "\<And>e. P e \<Longrightarrow> R e (u e)" and "\<And>e. R e e"
  shows "rows_follow R d (d\<lparr>outbox_events := fst (sql_update P u (outbox_events d))\<rparr>)"
  unfolding rows_follow_def
proof
  fix e assume e: "e \<in> set (outbox_events d)"
  let ?e = "if P e then u e else e"
  have "?e \<in> set (fst (sql_update P u (outbox_events d)))" using e by (auto simp: sql_update_def)
  moreover have "ev_id ?e = ev_id e \<and> ev_job_id ?e = ev_job_id e \<and> R e ?e" using assms by simp
  ultimately show "\<exists>e' \<in> set (outbox_events (d\<lparr>outbox_events := fst (sql_update P u (outbox_events d))\<rparr>)).
      ev_id e' = ev_id e \<and> ev_job_id e' = ev_job_id e \<and> R e e'" by auto
qed

abbreviation stays_pending :: "outbox_event \<Rightarrow> outbox_event \<Rightarrow> bool" where
  "stays_pending e e' \<equiv> pending e \<longrightarrow> pending e'"

lemma claimPending_stays:
  "claimPendingOutboxEvents now locked n d = Inr (ret, d') \<Longrightarrow> rows_follow stays_pending d d'"
  using rows_follow_update [where u = "\<lambda>e. e\<lparr>claimed_at := Some now\<rparr>" and R = stays_pending
      and P = "\<lambda>e. ev_id e \<in> set (select_claimable now locked n (outbox_events d))" and d = d]
  by (auto simp: claimPendingOutboxEvents_def Let_def pending_def split: prod.splits)

lemma markFailed_stays: "markOutboxFailed i m d = Inr (r, d') \<Longrightarrow> rows_follow stays_pending d d'"
  by (auto simp: markOutboxFailed_def pending_def intro!: rows_follow_update split: if_splits)

lemma markPublished_stays:
  "markOutboxPublished now i d = Inr (r, d') \<Longrightarrow> rows_follow (\<lambda>e e'. ev_id e \<noteq> i \<longrightarrow> stays_pending e e') d d'"
  by (auto simp: markOutboxPublished_def intro!: rows_follow_update)

lemma frame_schema:
  assumes "outbox_frame d d'" and "schema_ok d" and "list_all (\<lambda>e. int4 (attempts e)) (outbox_events d')"
  shows "schema_ok d'"
proof -
  have "set (map ev_job_id (outbox_events d')) = set (map ev_job_id (outbox_events d))"
    using outbox_frame_maps [OF assms(1)] by simp
  then have "list_all (\<lambda>e. ev_job_id e \<in> set (map jid (jobs d))) (outbox_events d')"
    using assms(2) unfolding schema_ok_def list_all_iff by auto (metis (no_types, lifting) image_iff)
  with assms outbox_frame_maps [OF assms(1)] show ?thesis by (simp add: schema_ok_def)
qed

lemma claimPending_schema:
  "claimPendingOutboxEvents now locked n d = Inr (ret, d') \<Longrightarrow> schema_ok d \<Longrightarrow> schema_ok d'"
  by (rule frame_schema [OF claimPending_frame])
     (auto simp: claimPendingOutboxEvents_def Let_def sql_update_def schema_ok_def list_all_iff)

lemma markPublished_schema: "markOutboxPublished now i d = Inr (r, d') \<Longrightarrow> schema_ok d \<Longrightarrow> schema_ok d'"
  by (rule frame_schema [OF markPublished_frame])
     (auto simp: markOutboxPublished_def sql_update_def schema_ok_def list_all_iff)

lemma markFailed_schema: "markOutboxFailed i m d = Inr (r, d') \<Longrightarrow> schema_ok d \<Longrightarrow> schema_ok d'"
  by (rule frame_schema [OF markFailed_frame])
     (fastforce simp: markOutboxFailed_def sql_update_def schema_ok_def list_all_iff list_ex_iff
       int4_simps split: if_splits)+

text \<open>The same for the awaited queries.\<close>

lemma query_rel:
  assumes "query i st d = (r, d')" and "\<And>a d''. st d = Inr (a, d'') \<Longrightarrow> R d''" and "R d"
  shows "R d'"
  using assms(1) by (cases rule: query_cases) (use assms(2,3) in auto)

lemma dispatch_step_db:
  assumes ok: "schema_ok (ds_db x)" and run: "dispatch_step a p x = (p', x')"
  shows "schema_ok (ds_db x') \<and> outbox_frame (ds_db x) (ds_db x')
    \<and> rows_follow (\<lambda>e e'. (\<forall>ev rest. p = D_markPublished ev rest \<longrightarrow> ev_id ev \<noteq> ev_id e) \<longrightarrow> stays_pending e e')
        (ds_db x) (ds_db x')"
proof -
  define G where "G d' \<longleftrightarrow> schema_ok d' \<and> outbox_frame (ds_db x) d'
    \<and> rows_follow (\<lambda>e e'. (\<forall>ev rest. p = D_markPublished ev rest \<longrightarrow> ev_id ev \<noteq> ev_id e) \<longrightarrow> stays_pending e e')
        (ds_db x) d'" for d'
  have refl: "G (ds_db x)" using ok by (auto simp: G_def intro: outbox_frame_refl rows_follow_refl)
  have "G (ds_db x')"
  proof (cases p)
    case D_claim
    obtain r d where q: "query (da_io a) (claimPendingOutboxEvents (da_now a) (da_locked a) BATCH_SIZE) (ds_db x) = (r, d)"
      by fastforce
    have "G d'" if "claimPendingOutboxEvents (da_now a) (da_locked a) BATCH_SIZE (ds_db x) = Inr (b, d')" for b d'
      using claimPending_stays [OF that] claimPending_schema [OF that ok] claimPending_frame [OF that]
      by (fastforce simp: G_def rows_follow_def)
    then have "G d" by (rule query_rel [where R = G, OF q _ refl])
    with run q D_claim show ?thesis by (cases r) auto
  next
    case (D_markPublished ev rest)
    obtain r d where q: "query (da_io a) (markOutboxPublished (da_now a) (ev_id ev)) (ds_db x) = (r, d)"
      by fastforce
    have "G d'" if "markOutboxPublished (da_now a) (ev_id ev) (ds_db x) = Inr (b, d')" for b d'
      using markPublished_stays [OF that] markPublished_schema [OF that ok] markPublished_frame [OF that] D_markPublished
      by (fastforce simp: G_def rows_follow_def)
    then have "G d" by (rule query_rel [where R = G, OF q _ refl])
    with run q D_markPublished show ?thesis by (cases r) auto
  next
    case (D_markFailed ev m rest)
    obtain r d where q: "query (da_io a) (markOutboxFailed (ev_id ev) m) (ds_db x) = (r, d)"
      by fastforce
    have "G d'" if "markOutboxFailed (ev_id ev) m (ds_db x) = Inr (b, d')" for b d'
      using markFailed_stays [OF that] markFailed_schema [OF that ok] markFailed_frame [OF that]
      by (fastforce simp: G_def rows_follow_def)
    then have "G d" by (rule query_rel [where R = G, OF q _ refl])
    with run q D_markFailed show ?thesis by (cases r) auto
  qed (use run refl in \<open>auto split: prod.splits sum.splits\<close>)
  then show ?thesis by (simp add: G_def)
qed

section \<open>A claimed batch\<close>

lemma select_claimable_distinct: "distinct (map ev_id rows) \<Longrightarrow> distinct (select_claimable now locked n rows)"
  unfolding select_claimable_def take_map [symmetric]
  by (intro distinct_take) (simp add: distinct_map inj_on_def)

text \<open>What the sub-select leaves out, it leaves out because the batch is full of rows that are no younger.\<close>

lemma select_claimable_left:
  assumes "e \<in> set rows" "claim_eligible now e" "ev_id e \<notin> set locked" "ev_id e \<notin> set (select_claimable now locked n rows)"
  defines "xs \<equiv> sort_key ev_created_at (filter (\<lambda>e. claim_eligible now e \<and> ev_id e \<notin> set locked) rows)"
  shows "length (take n xs) = n \<and> (\<forall>e' \<in> set (take n xs). ev_created_at e' \<le> ev_created_at e)"
proof -
  have e: "e \<in> set xs" "e \<notin> set (take n xs)"
    using assms(1-4) by (auto simp: xs_def select_claimable_def)
  then have d: "e \<in> set (drop n xs)" by (metis Un_iff append_take_drop_id set_append)
  then have "n < length xs" by (metis drop_all empty_iff empty_set linorder_not_less)
  moreover have "sorted (map ev_created_at (take n xs) @ map ev_created_at (drop n xs))"
    by (simp add: xs_def flip: map_append)
  ultimately show ?thesis using d by (auto simp: sorted_append)
qed

lemma claimPending_ids:
  assumes ok: "schema_ok d" and run: "claimPendingOutboxEvents now locked n d = Inr (ret, d')"
  shows "set (map ev_id ret) = set (select_claimable now locked n (outbox_events d))"
    and "distinct (map ev_id ret)" and "length ret = length (select_claimable now locked n (outbox_events d))"
proof -
  let ?ids = "select_claimable now locked n (outbox_events d)"
  have dist: "distinct (map ev_id (outbox_events d))" using ok by (simp add: schema_ok_def)
  have ids: "map ev_id ret = map ev_id (filter (\<lambda>e. ev_id e \<in> set ?ids) (outbox_events d))"
    by (simp add: claimPending_returned(1) [OF run])
  show s: "set (map ev_id ret) = set ?ids" unfolding ids using select_claimable_eligible by fastforce
  show di: "distinct (map ev_id ret)" unfolding ids using dist by (rule distinct_map_filter)
  have "length ret = card (set (map ev_id ret))" using di by (metis distinct_card length_map)
  also have "\<dots> = length ?ids" unfolding s by (rule distinct_card [OF select_claimable_distinct [OF dist]])
  finally show "length ret = length ?ids" .
qed

text \<open>The number of \<open>await\<close>s a batch still takes, and its bookkeeping.\<close>

fun batch_rank :: "dispatch_pc \<Rightarrow> nat" where
  "batch_rank D_claim = 3 * BATCH_SIZE + 1"
| "batch_rank (D_publish ev rest) = 3 * length rest + 3"
| "batch_rank (D_markPublished ev rest) = 3 * length rest + 2"
| "batch_rank (D_markFailed ev m rest) = 3 * length rest + 1"
| "batch_rank D_return = 0"
| "batch_rank (D_reject e) = 0"

definition tally_ok :: "dispatch_pc \<Rightarrow> dispatch_state \<Rightarrow> bool" where
  "tally_ok p s \<longleftrightarrow> p = D_claim \<or> (\<exists>e. p = D_reject e) \<or>
     attempted (ds_tally s) = published (ds_tally s) + failed (ds_tally s) + length (batch_events p)"

lemma batch_rank_next [simp]: "batch_rank (next_event es) = 3 * length es"
  by (simp add: next_event_def split: list.splits)

lemma dispatch_step_rank:
  assumes "schema_ok (ds_db s)"
  shows "batch_rank (fst (dispatch_step a p s)) \<le> batch_rank p - 1"
proof (cases p)
  case D_claim
  have "length ret \<le> BATCH_SIZE"
    if "claimPendingOutboxEvents (da_now a) (da_locked a) BATCH_SIZE (ds_db s) = Inr (ret, d)" for ret d
    using claimPending_ids(3) [OF assms that] length_select_claimable by simp
  then show ?thesis by (auto simp: D_claim query_Inr_iff split: prod.splits sum.splits)
qed (auto split: prod.splits sum.splits)

lemma dispatch_step_tally: "tally_ok p s \<Longrightarrow> tally_ok (fst (dispatch_step a p s)) (snd (dispatch_step a p s))"
  by (cases p) (auto simp: tally_ok_def empty_tally_def split: prod.splits sum.splits)

lemma run_dispatch_end:
  assumes "schema_ok (ds_db s)" and "tally_ok p s" and "run_dispatch as p s = (p', s')"
  shows "batch_rank p' \<le> batch_rank p - length as \<and> tally_ok p' s'"
  using assms
proof (induction as arbitrary: p s)
  case Nil
  then show ?case by simp
next
  case (Cons a as)
  obtain p1 s1 where st: "dispatch_step a p s = (p1, s1)" by fastforce
  have "schema_ok (ds_db s1)" using dispatch_step_db [OF Cons.prems(1) st] by simp
  moreover have "tally_ok p1 s1" using dispatch_step_tally [OF Cons.prems(2), of a] st by simp
  moreover have "run_dispatch as p1 s1 = (p', s')" using Cons.prems(3) st by simp
  ultimately have "batch_rank p' \<le> batch_rank p1 - length as \<and> tally_ok p' s'" by (rule Cons.IH)
  moreover have "batch_rank p1 \<le> batch_rank p - 1" using dispatch_step_rank [OF Cons.prems(1), of a p] st by simp
  ultimately show ?case by auto
qed

text \<open>The concrete outbox used at concrete inputs: two events of one job, the younger one first.\<close>

definition sample_event :: "uuid \<Rightarrow> timestamp \<Rightarrow> outbox_event" where
  "sample_event i t = \<lparr>ev_id = i, ev_job_id = ''j1'', ev_created_at = t, claimed_at = None, published_at = None,
     attempts = 0, ev_last_error = None\<rparr>"

definition sample_outbox :: db where
  "sample_outbox = (sample_db (sample_job QUEUED 0 []))\<lparr>outbox_events := [sample_event ''e2'' 20, sample_event ''e1'' 10]\<rparr>"

lemma sample_outbox_schema [simp]: "schema_ok sample_outbox"
  by (simp add: sample_outbox_def sample_db_def schema_ok_def job_row_ok_def int4_def int4_max_def sample_event_def)

lemma sample_claim1:
  "claimPendingOutboxEvents 100 [] 1 sample_outbox
     = Inr ([(sample_event ''e1'' 10)\<lparr>claimed_at := Some 100\<rparr>],
         sample_outbox\<lparr>outbox_events := [sample_event ''e2'' 20, (sample_event ''e1'' 10)\<lparr>claimed_at := Some 100\<rparr>]\<rparr>)"
  by (simp add: claimPendingOutboxEvents_def select_claimable_def sample_outbox_def sample_event_def claim_eligible_def
      pending_def sql_update_def)

section \<open>Properties\<close>

text \<open>C22. A claim of the dispatcher takes at most the batch size, each event once, only events that are unpublished,
  unlocked and not freshly claimed by another dispatcher, and stamps them; if it leaves an eligible event out, the
  batch is full and everything in it is at least as old.\<close>

theorem outbox_claim:
  assumes ok: "schema_ok d" and run: "claimPendingOutboxEvents now locked n d = Inr (ret, d')"
  shows "length ret \<le> n \<and> distinct (map ev_id ret)
     \<and> (\<forall>e' \<in> set ret. \<exists>e \<in> set (outbox_events d). claim_eligible now e \<and> ev_id e \<notin> set locked \<and> e' = e\<lparr>claimed_at := Some now\<rparr>)
     \<and> (\<forall>e \<in> set (outbox_events d). claim_eligible now e \<longrightarrow> ev_id e \<notin> set locked \<longrightarrow> ev_id e \<notin> set (map ev_id ret) \<longrightarrow>
          length ret = n \<and> (\<forall>e' \<in> set ret. ev_created_at e' \<le> ev_created_at e))"
proof (intro conjI ballI impI)
  let ?ids = "select_claimable now locked n (outbox_events d)"
  note ids = claimPending_ids [OF ok run]
  have inj: "e1 = e2" if "e1 \<in> set (outbox_events d)" "e2 \<in> set (outbox_events d)" "ev_id e1 = ev_id e2" for e1 e2
    using ok that by (auto simp: schema_ok_def distinct_map inj_on_def)
  show "length ret \<le> n" "distinct (map ev_id ret)" using ids length_select_claimable by auto
  fix e' assume e': "e' \<in> set ret"
  then obtain e where e: "e \<in> set (outbox_events d)" "ev_id e \<in> set ?ids" "e' = e\<lparr>claimed_at := Some now\<rparr>"
    unfolding claimPending_returned(1) [OF run] by auto
  with select_claimable_eligible [OF e(2)] inj
  show "\<exists>e \<in> set (outbox_events d). claim_eligible now e \<and> ev_id e \<notin> set locked \<and> e' = e\<lparr>claimed_at := Some now\<rparr>" by metis
next
  fix e assume a: "e \<in> set (outbox_events d)" "claim_eligible now e" "ev_id e \<notin> set locked" "ev_id e \<notin> set (map ev_id ret)"
  note ids = claimPending_ids [OF ok run]
  note left = select_claimable_left [OF a(1-3), of n] 
  show "length ret = n" using left a(4) ids by (simp add: select_claimable_def)
  fix e' assume e': "e' \<in> set ret"
  then obtain e0 where e0: "e0 \<in> set (outbox_events d)" "ev_id e0 \<in> set (select_claimable now locked n (outbox_events d))"
    "e' = e0\<lparr>claimed_at := Some now\<rparr>"
    unfolding claimPending_returned(1) [OF run] by auto
  then obtain e1 where e1: "e1 \<in> set (take n (sort_key ev_created_at (filter (\<lambda>e. claim_eligible now e \<and> ev_id e \<notin> set locked) (outbox_events d))))"
    "ev_id e1 = ev_id e0" by (auto simp: select_claimable_def)
  then have "e1 \<in> set (outbox_events d)" by (auto dest: in_set_takeD)
  then have "e1 = e0" using ok e0(1) e1(2) by (auto simp: schema_ok_def distinct_map inj_on_def)
  with e1(1) left a(4) ids(1) e0(3) show "ev_created_at e' \<le> ev_created_at e" by simp
qed

theorem outbox_claim_witness:
  "let ret = [(sample_event ''e1'' 10)\<lparr>claimed_at := Some 100\<rparr>] in
     claimPendingOutboxEvents 100 [] 1 sample_outbox
       = Inr (ret, sample_outbox\<lparr>outbox_events := [sample_event ''e2'' 20, (sample_event ''e1'' 10)\<lparr>claimed_at := Some 100\<rparr>]\<rparr>)
     \<and> (\<forall>e' \<in> set ret. ev_created_at e' \<le> ev_created_at (sample_event ''e2'' 20))"
  using outbox_claim [OF sample_outbox_schema sample_claim1] sample_claim1
  by (simp add: sample_outbox_def sample_event_def claim_eligible_def pending_def)

text \<open>Two dispatchers do not publish the same event while the first one's claim is fresh: a claim made at most 30 seconds
  after another shares no event with it.\<close>

lemma outbox_claims_disjoint:
  assumes ok: "schema_ok d" and c1: "claimPendingOutboxEvents t1 l1 n1 d = Inr (ret1, d1)"
    and c2: "claimPendingOutboxEvents t2 l2 n2 d1 = Inr (ret2, d2)" and t: "t2 \<le> t1 + 30 * 1000000"
  shows "set (map ev_id ret1) \<inter> set (map ev_id ret2) = {}"
proof (rule ccontr)
  assume "set (map ev_id ret1) \<inter> set (map ev_id ret2) \<noteq> {}"
  then obtain i where i: "i \<in> set (map ev_id ret1)" "i \<in> set (map ev_id ret2)" by auto
  have "i \<in> set (select_claimable t2 l2 n2 (outbox_events d1))"
    using i(2) claimPending_ids(1) [OF claimPending_schema [OF c1 ok] c2] by simp
  from select_claimable_eligible [OF this] obtain e where
    e: "e \<in> set (outbox_events d1)" "ev_id e = i" "claim_eligible t2 e" by blast
  have "i \<in> set (select_claimable t1 l1 n1 (outbox_events d))"
    using i(1) claimPending_ids(1) [OF ok c1] by simp
  with e(1,2) have "claimed_at e = Some t1"
    unfolding claimPending_returned(2) [OF c1] by (auto simp: sql_update_def split: if_splits)
  with not_eligible_fresh [of e t1 t2] t e(3) show False by (simp add: STALE_CLAIM_THRESHOLD_SECONDS_def)
qed

text \<open>A batch ends: whatever fails, it has returned or thrown after at most 31 \<open>await\<close>s (one claim, three per event),
  and if it returned, every attempted event is counted as published or as failed.\<close>

lemma dispatch_ends:
  assumes "schema_ok d" and "length as \<ge> 31" and "dispatchOutboxBatch as d b = (p, s)"
  shows "(p = D_return \<and> attempted (ds_tally s) = published (ds_tally s) + failed (ds_tally s)) \<or> (\<exists>e. p = D_reject e)"
proof -
  let ?s0 = "\<lparr>ds_db = d, ds_broker = b, ds_tally = empty_tally\<rparr>"
  have "batch_rank p \<le> batch_rank D_claim - length as \<and> tally_ok p s"
    by (rule run_dispatch_end [of ?s0]) (use assms in \<open>simp_all add: tally_ok_def dispatchOutboxBatch_def\<close>)
  with assms(2) have "batch_rank p = 0" "tally_ok p s" by (simp_all add: BATCH_SIZE_def)
  then show ?thesis by (cases p) (auto simp: tally_ok_def BATCH_SIZE_def)
qed

section \<open>A healthy batch\<close>

text \<open>An \<open>await\<close> of a batch at which nothing fails.\<close>

definition smooth :: "dispatch_await \<Rightarrow> bool" where
  "smooth a \<longleftrightarrow> da_io a = Io_ok \<and> da_pub a = Pub_ok"

text \<open>The events of a list are no longer pending.\<close>

definition all_published :: "uuid set \<Rightarrow> db \<Rightarrow> bool" where
  "all_published I d \<longleftrightarrow> (\<forall>e \<in> set (outbox_events d). ev_id e \<in> I \<longrightarrow> \<not> pending e)"

lemma all_published_mark:
  assumes "all_published I d" and "markOutboxPublished now i d = Inr (r, d')"
  shows "all_published (insert i I) d'"
  unfolding all_published_def
proof (intro ballI impI)
  fix e' assume e': "e' \<in> set (outbox_events d')" and i: "ev_id e' \<in> insert i I"
  have "d' = d\<lparr>outbox_events := map (\<lambda>e. if ev_id e = i then e\<lparr>published_at := Some now\<rparr> else e) (outbox_events d)\<rparr>"
    using assms(2) by (simp add: markOutboxPublished_def sql_update_def)
  with e' obtain e where e: "e \<in> set (outbox_events d)" "e' = (if ev_id e = i then e\<lparr>published_at := Some now\<rparr> else e)"
    by auto
  show "\<not> pending e'"
  proof (cases "ev_id e = i")
    case True
    with e show ?thesis by (simp add: pending_def)
  next
    case False
    with e i assms(1) show ?thesis by (auto simp: all_published_def)
  qed
qed

lemma smooth_batch:
  assumes "list_all smooth as" "length as = 2 * length es" "topology_ready (ds_broker s)" "all_published I (ds_db s)"
  shows "\<exists>s'. run_dispatch as (next_event es) s = (D_return, s')
     \<and> queue (ds_broker s') QUEUE_NAME = queue (ds_broker s) QUEUE_NAME @ map (job_created \<circ> ev_job_id) es
     \<and> ds_tally s' = (ds_tally s)\<lparr>published := published (ds_tally s) + length es\<rparr>
     \<and> all_published (I \<union> set (map ev_id es)) (ds_db s')"
  using assms
proof (induction es arbitrary: as s I)
  case Nil
  then show ?case by (simp add: next_event_def)
next
  case (Cons ev es)
  from Cons.prems(2) obtain a1 a2 as' where as: "as = a1 # a2 # as'" by (cases as; cases "tl as") auto
  have sm: "da_pub a1 = Pub_ok" "da_io a2 = Io_ok" "list_all smooth as'"
    using Cons.prems(1) unfolding as by (simp_all, simp_all add: smooth_def)
  have pub: "publishJobCreated Pub_ok (ev_job_id ev) b = (Inr (), route (job_created (ev_job_id ev)) b)" for b
    by (simp add: publishJobCreated_def publish_or_throw_ok)
  obtain d where mark: "markOutboxPublished (da_now a2) (ev_id ev) (ds_db s) = Inr ((), d)"
    by (simp add: markOutboxPublished_def)
  let ?s1 = "s\<lparr>ds_broker := route (job_created (ev_job_id ev)) (ds_broker s), ds_db := d,
    ds_tally := (ds_tally s)\<lparr>published := published (ds_tally s) + 1\<rparr>\<rparr>"
  have steps: "run_dispatch as (next_event (ev # es)) s = run_dispatch as' (next_event es) ?s1"
    using sm pub mark by (simp add: as next_event_def [of "ev # es"])
  have q: "queue (ds_broker ?s1) QUEUE_NAME = queue (ds_broker s) QUEUE_NAME @ [job_created (ev_job_id ev)]"
    using Cons.prems(3) by (simp add: queue_route topology_ready_def job_created_def)
  have "all_published (insert (ev_id ev) I) (ds_db ?s1)" using all_published_mark [OF Cons.prems(4) mark] by simp
  from Cons.IH [of as' ?s1, OF sm(3) _ _ this] Cons.prems(2,3) as steps q show ?case by auto
qed

text \<open>When nothing fails, a batch publishes every event it claimed: the messages go to the jobs queue in the order of the
  claim, every claimed event is marked published, and the batch reports them all as published and none as failed.\<close>

lemma dispatch_healthy:
  assumes "topology_ready b" and "list_all smooth (a # as)"
    and "claimPendingOutboxEvents (da_now a) (da_locked a) BATCH_SIZE d = Inr (ret, d1)" and "length as = 2 * length ret"
  shows "\<exists>s. dispatchOutboxBatch (a # as) d b = (D_return, s)
     \<and> queue (ds_broker s) QUEUE_NAME = queue b QUEUE_NAME @ map (job_created \<circ> ev_job_id) ret
     \<and> ds_tally s = \<lparr>attempted = length ret, published = length ret, failed = 0\<rparr>
     \<and> (\<forall>e \<in> set (outbox_events (ds_db s)). ev_id e \<in> set (map ev_id ret) \<longrightarrow> \<not> pending e)"
proof -
  let ?s1 = "\<lparr>ds_db = d1, ds_broker = b, ds_tally = empty_tally\<lparr>attempted := length ret\<rparr>\<rparr>"
  have "dispatchOutboxBatch (a # as) d b = run_dispatch as (next_event ret) ?s1"
    using assms(2,3) by (simp add: dispatchOutboxBatch_def smooth_def)
  with smooth_batch [of as ret ?s1 "{}"] assms show ?thesis
    by (auto simp: all_published_def empty_tally_def)
qed

text \<open>A publish that fails costs nothing but time: the event is released with the attempt counted and the diagnosis
  recorded, is still unpublished, and is eligible for the very next claim; the batch goes on with its next event.\<close>

lemma dispatch_failure_releases:
  assumes "schema_ok (ds_db s)" and "da_pub a1 = Pub_throw err" and "da_io a2 = Io_ok"
    and "find_event (ds_db s) (ev_id ev) = Some e" and "\<not> int4_overflow (attempts e)" and "pending e"
  shows "\<exists>s'. run_dispatch [a1, a2] (D_publish ev rest) s = (next_event rest, s')
     \<and> find_event (ds_db s') (ev_id ev)
         = Some (e\<lparr>claimed_at := None, attempts := attempts e + 1, ev_last_error := Some (dispatch_error_text err)\<rparr>)
     \<and> (\<forall>e'. find_event (ds_db s') (ev_id ev) = Some e' \<longrightarrow> claim_eligible now e')
     \<and> failed (ds_tally s') = failed (ds_tally s) + 1 \<and> ds_broker s' = ds_broker s"
proof -
  let ?u = "\<lambda>e. e\<lparr>claimed_at := None, attempts := attempts e + 1, ev_last_error := Some (dispatch_error_text err)\<rparr>"
  have dist: "distinct (map ev_id (outbox_events (ds_db s)))" using assms(1) by (simp add: schema_ok_def)
  have e: "e \<in> set (outbox_events (ds_db s))" "ev_id e = ev_id ev"
    using assms(4) by (auto simp: find_event_def find_Some_iff)
  have "\<not> list_ex (\<lambda>e. ev_id e = ev_id ev \<and> int4_overflow (attempts e)) (outbox_events (ds_db s))"
    using dist e assms(5) by (auto simp: list_ex_iff distinct_map inj_on_def)
  then have m: "markOutboxFailed (ev_id ev) (dispatch_error_text err) (ds_db s)
      = Inr ((), (ds_db s)\<lparr>outbox_events := fst (sql_update (\<lambda>e. ev_id e = ev_id ev) ?u (outbox_events (ds_db s)))\<rparr>)"
    by (simp add: markOutboxFailed_def)
  have f: "find (\<lambda>e. ev_id e = ev_id ev) (fst (sql_update (\<lambda>e. ev_id e = ev_id ev) ?u (outbox_events (ds_db s)))) = Some (?u e)"
    using failed_upd.find_update [OF dist] assms(4) e by (simp add: find_event_def)
  have p: "publishJobCreated (Pub_throw err) u b = (Inl err, b)" for u b
    by (simp add: publishJobCreated_def publish_or_throw_def channel_publish_def)
  show ?thesis
    using m f p assms(2,3,6) by (simp add: find_event_def claim_eligible_def pending_def)
qed

end
