(* ===== verification/ApiJobs.thy ===== *)
theory ApiJobs
  imports Outbox "HOL-Library.Multiset"
begin

text \<open>
  The API's job service, transactions and statistics (apps/api/src/services, apps/api/src/db/
  withTransaction.ts).

  A transaction works on its own copy of the database; the copy becomes the database at
  \<open>COMMIT\<close>. The record \<open>tx_io\<close> says how the calls of a transaction end.
\<close>

section \<open>Transactions\<close>

record tx_io =
  tx_connect :: io
  tx_begin :: io
  tx_first :: io
  tx_second :: io
  tx_commit :: io
  tx_rollback :: io

definition tx_fine :: tx_io where
  "tx_fine = \<lparr>tx_connect = Io_ok, tx_begin = Io_ok, tx_first = Io_ok, tx_second = Io_ok,
     tx_commit = Io_ok, tx_rollback = Io_ok\<rparr>"

text \<open>A statement of a transaction: an answer that is lost makes it throw as a failure does.\<close>

definition client_query :: "io \<Rightarrow> 'a statement \<Rightarrow> 'a statement" where
  "client_query i st d = (case i of Io_ok \<Rightarrow> st d | Io_fail e \<Rightarrow> Inl e | Io_lost e \<Rightarrow> Inl e)"

text \<open>\<open>await client.query("ROLLBACK"); throw err\<close>: a failing rollback replaces the error.\<close>

definition rollback_error :: "io \<Rightarrow> js_error \<Rightarrow> js_error" where
  "rollback_error i err = (case i of Io_ok \<Rightarrow> err | Io_fail e \<Rightarrow> e | Io_lost e \<Rightarrow> e)"

definition withTransaction :: "tx_io \<Rightarrow> 'a statement \<Rightarrow> db \<Rightarrow> (db, 'a) outcome" where
  "withTransaction t fn d = (case tx_connect t of
      Io_fail e \<Rightarrow> (Inl e, d)
    | Io_lost e \<Rightarrow> (Inl e, d)
    | Io_ok \<Rightarrow> (case tx_begin t of
          Io_fail e \<Rightarrow> (Inl (rollback_error (tx_rollback t) e), d)
        | Io_lost e \<Rightarrow> (Inl (rollback_error (tx_rollback t) e), d)
        | Io_ok \<Rightarrow> (case fn d of
              Inl err \<Rightarrow> (Inl (rollback_error (tx_rollback t) err), d)
            | Inr (result, d') \<Rightarrow> (case tx_commit t of
                  Io_ok \<Rightarrow> (Inr result, d')
                | Io_fail e \<Rightarrow> (Inl (rollback_error (tx_rollback t) e), d)
                | Io_lost e \<Rightarrow> (Inl (rollback_error (tx_rollback t) e), d')))))"

section \<open>The job service\<close>

text \<open>The row \<open>INSERT INTO jobs (type, payload)\<close> makes, with the defaults of the schema.\<close>

definition new_job :: "uuid \<Rightarrow> timestamp \<Rightarrow> string \<Rightarrow> (string \<times> json) list \<Rightarrow> job" where
  "new_job new_id now ty pl = \<lparr>jid = new_id, jtype = ty, payload = pl, status = QUEUED, attempt_count = 0,
     max_attempts = 5, last_error = None, created_at = now, updated_at = now,
     total_attempt_count = 0, replay_count = 0, last_dead_lettered_at = None,
     last_dead_letter_reason = None\<rparr>"

text \<open>
  PostgreSQL stores no NUL character: as a \<open>TEXT\<close> parameter it is an invalid byte sequence (22021), and a \<open>JSONB\<close> value takes no
  \<open>\u0000\<close> in any text or key, however deep (22P05). The other limits of the database on a value, as on its nesting, are failing queries.
\<close>

definition has_nul :: "string \<Rightarrow> bool" where
  "has_nul s \<longleftrightarrow> list_ex (\<lambda>c. c = CHR 0x00) s"

fun json_has_nul :: "json \<Rightarrow> bool" where
  "json_has_nul (JStr s) \<longleftrightarrow> has_nul s"
| "json_has_nul (JArr vs) \<longleftrightarrow> list_ex json_has_nul vs"
| "json_has_nul (JObj ps) \<longleftrightarrow> list_ex (\<lambda>p. has_nul (fst p) \<or> json_has_nul (snd p)) ps"
| "json_has_nul _ \<longleftrightarrow> False"

definition storable :: "string \<Rightarrow> (string \<times> json) list \<Rightarrow> bool" where
  "storable ty pl \<longleftrightarrow> \<not> has_nul ty \<and> \<not> json_has_nul (JObj pl)"

definition insert_job :: "uuid \<Rightarrow> timestamp \<Rightarrow> string \<Rightarrow> (string \<times> json) list \<Rightarrow> job list statement" where
  "insert_job new_id now ty pl d =
     (if has_nul ty then Inl (pg_error ''22021'')
      else if json_has_nul (JObj pl) then Inl (pg_error ''22P05'')
      else if new_id \<in> set (map jid (jobs d)) then Inl (pg_error ''23505'')
      else (let j = new_job new_id now ty pl in Inr ([j], d\<lparr>jobs := jobs d @ [j]\<rparr>)))"

text \<open>The callback of the transaction, and the function.\<close>

definition create_body ::
  "tx_io \<Rightarrow> uuid \<Rightarrow> uuid \<Rightarrow> timestamp \<Rightarrow> string \<Rightarrow> (string \<times> json) list \<Rightarrow> job statement" where
  "create_body t new_id new_ev now ty pl d =
     (case client_query (tx_first t) (insert_job new_id now ty pl) d of
       Inl e \<Rightarrow> Inl e
     | Inr (rows, d1) \<Rightarrow> (case first_row rows of
           None \<Rightarrow> Inl (JsError ''Error'' ''Failed to create job: no row returned from INSERT'' None)
         | Some j \<Rightarrow> (case client_query (tx_second t) (insertOutboxEvent new_ev now (jid j)) d1 of
               Inl e \<Rightarrow> Inl e
             | Inr (_, d2) \<Rightarrow> Inr (j, d2))))"

definition createJob ::
  "tx_io \<Rightarrow> uuid \<Rightarrow> uuid \<Rightarrow> timestamp \<Rightarrow> string \<Rightarrow> (string \<times> json) list \<Rightarrow> db \<Rightarrow> (db, job) outcome" where
  "createJob t new_id new_ev now ty pl = withTransaction t (create_body t new_id new_ev now ty pl)"

definition api_getJobById :: "uuid_input \<Rightarrow> io \<Rightarrow> json option \<Rightarrow> db \<Rightarrow> (db, job option) outcome" where
  "api_getJobById uin i v = query i (\<lambda>d. case uin v of
      Inl e \<Rightarrow> Inl e
    | Inr None \<Rightarrow> Inr (None, d)
    | Inr (Some u) \<Rightarrow> Inr (first_row (filter (\<lambda>j. jid j = u) (jobs d)), d))"

record recent_job =
  rj_id :: uuid
  rj_type :: string
  rj_status :: status
  rj_attempt_count :: int
  rj_max_attempts :: int
  rj_created_at :: timestamp
  rj_updated_at :: timestamp

definition recent_job_of :: "job \<Rightarrow> recent_job" where
  "recent_job_of j = \<lparr>rj_id = jid j, rj_type = jtype j, rj_status = status j,
     rj_attempt_count = attempt_count j, rj_max_attempts = max_attempts j,
     rj_created_at = created_at j, rj_updated_at = updated_at j\<rparr>"

text \<open>\<open>ORDER BY updated_at DESC LIMIT 20\<close>; rows of equal time come in table order.\<close>

definition listRecentJobs :: "db \<Rightarrow> recent_job list" where
  "listRecentJobs d = map recent_job_of (take 20 (sort_key (\<lambda>j. - updated_at j) (jobs d)))"

definition is_dead_lettered :: "job \<Rightarrow> bool" where
  "is_dead_lettered j \<longleftrightarrow> status j = DEAD_LETTERED"

definition replay_set :: "timestamp \<Rightarrow> job \<Rightarrow> job" where
  "replay_set now j = j\<lparr>status := QUEUED, attempt_count := 0, replay_count := replay_count j + 1,
     last_error := None, updated_at := now\<rparr>"

definition replay_overflow :: "job \<Rightarrow> bool" where
  "replay_overflow j \<longleftrightarrow> int4_overflow (replay_count j)"

text \<open>The callback of the transaction, and the function.\<close>

definition replay_body ::
  "uuid_input \<Rightarrow> tx_io \<Rightarrow> uuid \<Rightarrow> timestamp \<Rightarrow> json option \<Rightarrow> job option statement" where
  "replay_body uin t new_ev now v d =
     (case client_query (tx_first t) (job_update is_dead_lettered (replay_set now) replay_overflow uin v) d of
       Inl e \<Rightarrow> Inl e
     | Inr (rows, d1) \<Rightarrow> (case first_row rows of
           None \<Rightarrow> Inr (None, d1)
         | Some j \<Rightarrow> (case client_query (tx_second t) (insertOutboxEvent new_ev now (jid j)) d1 of
               Inl e \<Rightarrow> Inl e
             | Inr (_, d2) \<Rightarrow> Inr (Some j, d2))))"

definition claimReplay ::
  "uuid_input \<Rightarrow> tx_io \<Rightarrow> uuid \<Rightarrow> timestamp \<Rightarrow> json option \<Rightarrow> db \<Rightarrow> (db, job option) outcome" where
  "claimReplay uin t new_ev now v = withTransaction t (replay_body uin t new_ev now v)"

section \<open>Statistics\<close>

record job_stats =
  totalJobs :: int
  byStatus :: "status \<Rightarrow> int"
  totalReplays :: int
  totalAttempts :: int
  pendingOutboxEvents :: int

definition count_status :: "status \<Rightarrow> db \<Rightarrow> int" where
  "count_status x d = int (length (filter (\<lambda>j. status j = x) (jobs d)))"

definition getStats :: "db \<Rightarrow> job_stats" where
  "getStats d = \<lparr>totalJobs = int (length (jobs d)),
     byStatus = (\<lambda>x. case x of
        QUEUED \<Rightarrow> count_status QUEUED d
      | PROCESSING \<Rightarrow> count_status PROCESSING d
      | COMPLETED \<Rightarrow> count_status COMPLETED d
      | FAILED \<Rightarrow> count_status FAILED d
      | RETRYING \<Rightarrow> count_status RETRYING d
      | DEAD_LETTERED \<Rightarrow> count_status DEAD_LETTERED d),
     totalReplays = sum_list (map replay_count (jobs d)),
     totalAttempts = sum_list (map total_attempt_count (jobs d)),
     pendingOutboxEvents = int (length (filter (\<lambda>e. published_at e = None) (outbox_events d)))\<rparr>"

section \<open>The replay statement keeps the contract of job statements\<close>

interpretation replay_stmt: job_statement is_dead_lettered "replay_set now" replay_overflow for now
  by unfold_locales
     (auto simp: replay_set_def replay_overflow_def job_row_ok_def int4_simps)

lemma replay_life: "is_dead_lettered j \<Longrightarrow> life_step (life_of j) Replay (life_of (replay_set now j))"
  by (auto simp: life_step_simps life_of_def replay_set_def is_dead_lettered_def)

section \<open>Transactions\<close>

text \<open>
  A transaction leaves the database unchanged and throws, or commits what its callback did; the
  caller learns of the commit unless the answer to \<open>COMMIT\<close> is lost.
\<close>

lemma withTransaction_cases:
  assumes "withTransaction t fn d = (r, d')"
  obtains (aborted) e where "r = Inl e" "d' = d"
  | (committed) a where "fn d = Inr (a, d')" "r = Inr a" "tx_commit t = Io_ok"
  | (unanswered) a e e' where "fn d = Inr (a, d')" "r = Inl e'" "tx_commit t = Io_lost e"
  using assms unfolding withTransaction_def
  by (auto split: io.splits sum.splits prod.splits)

lemma withTransaction_fine: "withTransaction tx_fine fn d = (case fn d of Inl e \<Rightarrow> (Inl e, d) | Inr (a, d') \<Rightarrow> (Inr a, d'))"
  by (simp add: withTransaction_def tx_fine_def rollback_error_def split: sum.splits)

lemma client_query_Inr: "client_query i st d = Inr x \<longleftrightarrow> i = Io_ok \<and> st d = Inr x"
  by (auto simp: client_query_def split: io.splits)

definition new_event :: "uuid \<Rightarrow> timestamp \<Rightarrow> uuid \<Rightarrow> outbox_event" where
  "new_event new_ev now u = \<lparr>ev_id = new_ev, ev_job_id = u, ev_created_at = now, claimed_at = None,
     published_at = None, attempts = 0, ev_last_error = None\<rparr>"

lemma new_job_life: "life_of (new_job u now ty pl) = newborn"
  by (simp add: life_of_def new_job_def newborn_def)

lemma new_event_pending [simp]: "pending (new_event new_ev now u)" "ev_job_id (new_event new_ev now u) = u"
  "ev_id (new_event new_ev now u) = new_ev"
  by (simp_all add: pending_def new_event_def)

definition create_effect :: "uuid \<Rightarrow> uuid \<Rightarrow> timestamp \<Rightarrow> string \<Rightarrow> (string \<times> json) list \<Rightarrow> db \<Rightarrow> db \<Rightarrow> bool" where
  "create_effect new_id new_ev now ty pl d d' \<longleftrightarrow>
     new_id \<notin> set (map jid (jobs d)) \<and> new_ev \<notin> set (map ev_id (outbox_events d))
   \<and> jobs d' = jobs d @ [new_job new_id now ty pl]
   \<and> outbox_events d' = outbox_events d @ [new_event new_ev now new_id]"

lemma insert_job_ok:
  "insert_job new_id now ty pl d = Inr (rows, d1) \<longleftrightarrow> storable ty pl \<and> new_id \<notin> set (map jid (jobs d))
     \<and> rows = [new_job new_id now ty pl] \<and> d1 = d\<lparr>jobs := jobs d @ [new_job new_id now ty pl]\<rparr>"
  by (auto simp: insert_job_def storable_def Let_def)

lemma insert_job_nul: "\<not> storable ty pl \<Longrightarrow> \<exists>e. insert_job new_id now ty pl d = Inl e"
  by (auto simp: insert_job_def storable_def)

lemma no_nul [simp]: "\<not> has_nul []" "\<not> has_nul ''email''" "storable ''email'' []"
  by (simp_all add: has_nul_def storable_def)

lemma jid_new_job [simp]: "jid (new_job u now ty pl) = u"
  by (simp add: new_job_def)

lemma create_body_ok:
  assumes "create_body t new_id new_ev now ty pl d = Inr (j, d')"
  shows "j = new_job new_id now ty pl \<and> create_effect new_id new_ev now ty pl d d'"
proof -
  from assms obtain rows d1 where ins: "insert_job new_id now ty pl d = Inr (rows, d1)"
    by (auto simp: create_body_def client_query_Inr split: sum.splits)
  then have r: "first_row rows = Some (new_job new_id now ty pl)" "new_id \<notin> set (map jid (jobs d))"
    "d1 = d\<lparr>jobs := jobs d @ [new_job new_id now ty pl]\<rparr>" by (auto simp: insert_job_ok)
  with assms ins have "insertOutboxEvent new_ev now new_id d1 = Inr ((), d')" "j = new_job new_id now ty pl"
    by (auto simp: create_body_def client_query_def split: io.splits sum.splits)
  with r show ?thesis by (auto simp: insertOutboxEvent_ok create_effect_def new_event_def)
qed

lemma createJob_cases:
  assumes "createJob t new_id new_ev now ty pl d = (r, d')"
  obtains (aborted) e where "r = Inl e" "d' = d"
  | (created) "r = Inr (new_job new_id now ty pl)" "create_effect new_id new_ev now ty pl d d'"
  | (unanswered) e e' where "r = Inl e'" "tx_commit t = Io_lost e" "create_effect new_id new_ev now ty pl d d'"
proof -
  have body: "j = new_job new_id now ty pl \<and> create_effect new_id new_ev now ty pl d d'"
    if "create_body t new_id new_ev now ty pl d = Inr (j, d')" for j
    using that by (rule create_body_ok)
  from assms [unfolded createJob_def] show thesis
  proof (cases rule: withTransaction_cases)
    case (aborted e)
    then show thesis by (rule that(1))
  next
    case (committed a)
    with body that(2) show thesis by blast
  next
    case (unanswered a e e')
    with body that(3) show thesis by blast
  qed
qed

lemma create_effect_schema: "create_effect new_id new_ev now ty pl d d' \<Longrightarrow> schema_ok d \<Longrightarrow> schema_ok d'"
  by (auto simp: create_effect_def schema_ok_def job_row_ok_def new_job_def new_event_def
      int4_def int4_max_def list_all_iff)

lemma create_effect_find:
  "create_effect new_id new_ev now ty pl d d' \<Longrightarrow> find_job d' = (find_job d)(new_id \<mapsto> new_job new_id now ty pl)"
proof
  fix w
  have app: "find P (xs @ ys) = (case find P xs of None \<Rightarrow> find P ys | Some x \<Rightarrow> Some x)" for P and xs ys :: "job list"
    by (induction xs) auto
  assume eff: "create_effect new_id new_ev now ty pl d d'"
  have "find_job d new_id = None" using eff by (simp add: create_effect_def find_job_None)
  with eff show "find_job d' w = ((find_job d)(new_id \<mapsto> new_job new_id now ty pl)) w"
    by (auto simp: create_effect_def find_job_def app split: option.splits)
qed

text \<open>What a replay does when it wins: the row goes back to \<open>QUEUED\<close>, and an event goes with it.\<close>

definition replay_effect :: "uuid \<Rightarrow> timestamp \<Rightarrow> uuid \<Rightarrow> job \<Rightarrow> db \<Rightarrow> db \<Rightarrow> bool" where
  "replay_effect new_ev now u j d d' \<longleftrightarrow>
     find_job d u = Some j \<and> status j = DEAD_LETTERED
   \<and> find_job d' = (find_job d)(u \<mapsto> replay_set now j) \<and> map jid (jobs d') = map jid (jobs d)
   \<and> new_ev \<notin> set (map ev_id (outbox_events d))
   \<and> outbox_events d' = outbox_events d @ [new_event new_ev now u]"

lemma replay_body_cases:
  assumes ok: "schema_ok d" and run: "replay_body uin t new_ev now v d = Inr (a, d')"
  shows "a = None \<and> d' = d \<or>
    (\<exists>u j. uin v = Inr (Some u) \<and> a = Some (replay_set now j) \<and> replay_effect new_ev now u j d d' \<and> schema_ok d')"
proof -
  from run obtain rows d1 where
    upd: "job_update is_dead_lettered (replay_set now) replay_overflow uin v d = Inr (rows, d1)"
    by (auto simp: replay_body_def client_query_Inr split: sum.splits prod.splits)
  show ?thesis
  proof (cases rows)
    case Nil
    with upd run show ?thesis
      by (auto simp: replay_body_def client_query_def split: io.splits dest: replay_stmt.no_match)
  next
    case (Cons r rs)
    with replay_stmt.matched [OF ok] upd obtain u j where
      m: "uin v = Inr (Some u)" "find_job d u = Some j" "is_dead_lettered j" "r = replay_set now j"
        "find_job d1 = (find_job d)(u \<mapsto> replay_set now j)" by blast
    have ju: "jid r = u" using m by (auto simp: replay_set_def dest: find_job_Some)
    from run upd Cons have ins: "insertOutboxEvent new_ev now u d1 = Inr ((), d')" and a: "a = Some r"
      by (auto simp: replay_body_def client_query_Inr ju client_query_def split: sum.splits io.splits)
    have d1: "schema_ok d1" "map jid (jobs d1) = map jid (jobs d)" "outbox_events d1 = outbox_events d"
      using replay_stmt.keeps_schema [OF ok upd] replay_stmt.ids_unchanged [OF upd]
        replay_stmt.outbox_unchanged [OF upd] by auto
    have "replay_effect new_ev now u j d d'"
      using m d1 ins
      by (auto simp: replay_effect_def insertOutboxEvent_ok is_dead_lettered_def new_event_def find_job_def fun_eq_iff)
    with m a insertOutboxEvent_schema [OF ins d1(1)] show ?thesis by blast
  qed
qed

lemma claimReplay_cases:
  assumes ok: "schema_ok d" and run: "claimReplay uin t new_ev now v d = (r, d')"
  obtains (aborted) e where "r = Inl e" "d' = d"
  | (rejected) "r = Inr None" "d' = d"
  | (replayed) u j where "uin v = Inr (Some u)" "r = Inr (Some (replay_set now j))"
      "replay_effect new_ev now u j d d'" "schema_ok d'"
  | (unanswered) u j e e' where "uin v = Inr (Some u)" "r = Inl e'" "tx_commit t = Io_lost e"
      "replay_effect new_ev now u j d d'" "schema_ok d'"
  using run [unfolded claimReplay_def]
proof (cases rule: withTransaction_cases)
  case (aborted e)
  then show thesis by (rule that(1))
next
  case (committed a)
  with replay_body_cases [OF ok] that(2,3) show thesis by blast
next
  case (unanswered a e e')
  with replay_body_cases [OF ok] that(1,4) show thesis by blast
qed

section \<open>Properties\<close>

lemma tx_fine_simps [simp]: "tx_first tx_fine = Io_ok" "tx_second tx_fine = Io_ok"
  by (simp_all add: tx_fine_def)

lemma client_query_ok [simp]: "client_query Io_ok st d = st d"
  by (simp add: client_query_def)

lemma createJob_fine:
  assumes fresh: "new_id \<notin> set (map jid (jobs d))" "new_ev \<notin> set (map ev_id (outbox_events d))" and st: "storable ty pl"
  shows "\<exists>d'. createJob tx_fine new_id new_ev now ty pl d = (Inr (new_job new_id now ty pl), d')"
proof -
  have "insert_job new_id now ty pl d = Inr ([new_job new_id now ty pl], d\<lparr>jobs := jobs d @ [new_job new_id now ty pl]\<rparr>)"
    using fresh(1) st by (simp add: insert_job_ok)
  moreover have "\<exists>d2. insertOutboxEvent new_ev now new_id (d\<lparr>jobs := jobs d @ [new_job new_id now ty pl]\<rparr>) = Inr ((), d2)"
    using fresh(2) by (simp add: insertOutboxEvent_ok)
  ultimately have "\<exists>d2. create_body tx_fine new_id new_ev now ty pl d = Inr (new_job new_id now ty pl, d2)"
    by (auto simp: create_body_def)
  then show ?thesis by (auto simp: createJob_def withTransaction_fine)
qed

lemma createJob_nul: "\<not> storable ty pl \<Longrightarrow> \<exists>e. createJob tx_fine new_id new_ev now ty pl d = (Inl e, d)"
  using insert_job_nul [of ty pl new_id now d] by (auto simp: createJob_def withTransaction_fine create_body_def)

text \<open>C20. Creating a job is atomic and outbox-safe. Either the call throws and the database is unchanged, or both the new
  \<open>QUEUED\<close> row and its unpublished outbox event are there and nothing else has changed; the caller is told of the
  second case by the returned row, unless exactly the answer to \<open>COMMIT\<close> was lost. With fresh identifiers and no fault it succeeds exactly if the database can store the
  values, that is, if type and payload are free of NUL characters.\<close>

theorem createJob_atomic:
  "createJob t new_id new_ev now ty pl d = (r, d') \<Longrightarrow>
     ((\<exists>e. r = Inl e) \<and> d' = d
      \<or> create_effect new_id new_ev now ty pl d d' \<and> (r = Inr (new_job new_id now ty pl) \<or> (\<exists>e. tx_commit t = Io_lost e)))
   \<and> (t = tx_fine \<longrightarrow> new_id \<notin> set (map jid (jobs d)) \<longrightarrow> new_ev \<notin> set (map ev_id (outbox_events d)) \<longrightarrow>
        (if storable ty pl then r = Inr (new_job new_id now ty pl) else (\<exists>e. r = Inl e) \<and> d' = d))"
proof (intro conjI impI)
  assume run: "createJob t new_id new_ev now ty pl d = (r, d')"
  then show "(\<exists>e. r = Inl e) \<and> d' = d
      \<or> create_effect new_id new_ev now ty pl d d' \<and> (r = Inr (new_job new_id now ty pl) \<or> (\<exists>e. tx_commit t = Io_lost e))"
    by (cases rule: createJob_cases) auto
  assume t: "t = tx_fine" and fresh: "new_id \<notin> set (map jid (jobs d))" "new_ev \<notin> set (map ev_id (outbox_events d))"
  from createJob_fine [OF fresh, of ty pl now] createJob_nul [of ty pl new_id new_ev now d] run t
  show "if storable ty pl then r = Inr (new_job new_id now ty pl) else (\<exists>e. r = Inl e) \<and> d' = d" by auto
qed

lemma filter_id_none: "u \<notin> jid ` set js \<Longrightarrow> filter (\<lambda>j. jid j = u) js = []"
  by (auto simp: filter_empty_conv)

text \<open>What was created can be read: after a successful creation the job is found by its identifier exactly as it was
  returned, and the statistics count one job, one queued job and one pending event more.\<close>

lemma create_then_read:
  assumes ok: "schema_ok d" and run: "createJob t new_id new_ev now ty pl d = (Inr j, d')" and u: "uin v = Inr (Some new_id)"
  shows "api_getJobById uin Io_ok v d' = (Inr (Some j), d')
     \<and> totalJobs (getStats d') = totalJobs (getStats d) + 1
     \<and> byStatus (getStats d') QUEUED = byStatus (getStats d) QUEUED + 1
     \<and> pendingOutboxEvents (getStats d') = pendingOutboxEvents (getStats d) + 1"
proof -
  from run have j: "j = new_job new_id now ty pl" and eff: "create_effect new_id new_ev now ty pl d d'"
    by (auto elim: createJob_cases)
  have "first_row (filter (\<lambda>j. jid j = new_id) (jobs d')) = Some j"
    using eff j by (simp add: create_effect_def filter_id_none)
  moreover have "status (new_job new_id now ty pl) = QUEUED" by (simp add: new_job_def)
  ultimately show ?thesis
    using eff u by (simp add: api_getJobById_def getStats_def count_status_def create_effect_def new_event_def)
qed

text \<open>A creation on the empty database, for use at concrete inputs.\<close>

lemma sample_create:
  "createJob tx_fine ''j1'' ''e1'' 7 ''email'' [] \<lparr>jobs = [], outbox_events = []\<rparr>
     = (Inr (new_job ''j1'' 7 ''email'' []),
        \<lparr>jobs = [new_job ''j1'' 7 ''email'' []], outbox_events = [new_event ''e1'' 7 ''j1'']\<rparr>)"
  by (simp add: createJob_def withTransaction_fine create_body_def insert_job_def insertOutboxEvent_def new_event_def Let_def)

theorem createJob_atomic_witness:
  "create_effect ''j1'' ''e1'' 7 ''email'' [] \<lparr>jobs = [], outbox_events = []\<rparr>
     \<lparr>jobs = [new_job ''j1'' 7 ''email'' []], outbox_events = [new_event ''e1'' 7 ''j1'']\<rparr>"
  using createJob_atomic [OF sample_create] by simp

lemma claimReplay_miss:
  assumes "schema_ok d" and "uin v = Inr (Some u)" and "\<And>j. find_job d u = Some j \<Longrightarrow> \<not> is_dead_lettered j"
  shows "claimReplay uin tx_fine new_ev now v d = (Inr None, d)"
  using replay_stmt.miss [where uin = uin and v = v and now = now, OF assms]
  by (simp add: claimReplay_def withTransaction_fine replay_body_def)

lemma claimReplay_hit:
  assumes ok: "schema_ok d" and u: "uin v = Inr (Some u)" and new: "new_ev \<notin> set (map ev_id (outbox_events d))"
    and j: "find_job d u = Some j" "is_dead_lettered j" and no_ovf: "replay_count j < int4_max"
  shows "\<exists>d2. claimReplay uin tx_fine new_ev now v d = (Inr (Some (replay_set now j)), d2)
    \<and> find_job d2 = (find_job d)(u \<mapsto> replay_set now j) \<and> outbox_events d2 = outbox_events d @ [new_event new_ev now u] \<and> schema_ok d2"
proof -
  have "\<not> replay_overflow j" using no_ovf by (simp add: replay_overflow_def int4_overflow_def)
  from replay_stmt.hit [where uin = uin and v = v and now = now, OF ok u j this] obtain d1 where
    d1: "job_update is_dead_lettered (replay_set now) replay_overflow uin v d = Inr ([replay_set now j], d1)"
      "find_job d1 = (find_job d)(u \<mapsto> replay_set now j)" "schema_ok d1" "outbox_events d1 = outbox_events d" by blast
  have ju: "jid (replay_set now j) = u" using find_job_Some [OF j(1)] by (simp add: replay_set_def)
  have "u \<in> set (map jid (jobs d1))" using d1(2) by (metis find_job_None fun_upd_same option.distinct(1))
  then obtain d2 where ins: "insertOutboxEvent new_ev now u d1 = Inr ((), d2)"
    and d2: "d2 = d1\<lparr>outbox_events := outbox_events d1 @ [new_event new_ev now u]\<rparr>"
    using new d1(4) by (auto simp: insertOutboxEvent_ok new_event_def)
  have "claimReplay uin tx_fine new_ev now v d = (Inr (Some (replay_set now j)), d2)"
    using d1(1) ins ju by (simp add: claimReplay_def withTransaction_fine replay_body_def)
  moreover have "find_job d2 = (find_job d)(u \<mapsto> replay_set now j)" using d1(2) by (simp add: d2 find_job_def fun_eq_iff)
  ultimately show ?thesis using insertOutboxEvent_schema [OF ins d1(3)] d1(4) d2 by auto
qed

lemma find_job_first: "first_row (filter (\<lambda>j. jid j = u) (jobs d)) = find_job d u"
proof -
  have "first_row (filter (\<lambda>j. jid j = u) js) = find (\<lambda>j. jid j = u) js" for js by (induction js) simp_all
  then show ?thesis by (simp add: find_job_def)
qed

text \<open>C21. A replay takes exactly the dead-lettered jobs. On one, the row goes back to \<open>QUEUED\<close> with a fresh budget of attempts, no
  error and one replay more, its lifetime attempts and the record of its last dead-lettering are kept, and an unpublished
  event for it is added in the same transaction; a second replay, before the job is dead-lettered again, is refused. On any
  other job, and on an unknown one, the answer is \<open>null\<close> and nothing changes.\<close>

theorem replay_once:
  assumes ok: "schema_ok d" and u: "uin v = Inr (Some u)" and new: "new_ev \<notin> set (map ev_id (outbox_events d))"
    and no_ovf: "\<And>j. find_job d u = Some j \<Longrightarrow> replay_count j < int4_max"
  shows "if (\<exists>j. find_job d u = Some j \<and> status j = DEAD_LETTERED)
     then (\<exists>j d'. find_job d u = Some j
        \<and> claimReplay uin tx_fine new_ev now v d = (Inr (Some (replay_set now j)), d')
        \<and> find_job d' = (find_job d)(u \<mapsto> replay_set now j)
        \<and> outbox_events d' = outbox_events d @ [new_event new_ev now u]
        \<and> claimReplay uin tx_fine new_ev' now' v d' = (Inr None, d'))
     else claimReplay uin tx_fine new_ev now v d = (Inr None, d)"
proof (cases "\<exists>j. find_job d u = Some j \<and> status j = DEAD_LETTERED")
  case False
  then show ?thesis
    using claimReplay_miss [where uin = uin and v = v, OF ok u] by (auto simp: is_dead_lettered_def)
next
  case True
  then obtain j where j: "find_job d u = Some j" "is_dead_lettered j" by (auto simp: is_dead_lettered_def)
  from claimReplay_hit [where uin = uin and v = v and now = now, OF ok u new j no_ovf [OF j(1)]] obtain d2 where
    d2: "claimReplay uin tx_fine new_ev now v d = (Inr (Some (replay_set now j)), d2)"
      "find_job d2 = (find_job d)(u \<mapsto> replay_set now j)" "outbox_events d2 = outbox_events d @ [new_event new_ev now u]"
      "schema_ok d2" by blast
  have "claimReplay uin tx_fine new_ev' now' v d2 = (Inr None, d2)"
    by (rule claimReplay_miss [where uin = uin and v = v, OF d2(4) u]) (auto simp: d2(2) is_dead_lettered_def replay_set_def)
  with True j d2 show ?thesis by auto
qed

theorem replay_once_witness:
  "\<exists>d'. claimReplay plain_uin tx_fine ''e1'' 9 j1 (sample_db (sample_job DEAD_LETTERED 5 []))
        = (Inr (Some (replay_set 9 (sample_job DEAD_LETTERED 5 []))), d')
     \<and> claimReplay plain_uin tx_fine ''e2'' 10 j1 d' = (Inr None, d')"
  using replay_once [of "sample_db (sample_job DEAD_LETTERED 5 [])" plain_uin j1 "''j1''" "''e1''" 9 "''e2''" 10]
  by (auto simp: sample_find int4_max_def sample_db_def [of "sample_job DEAD_LETTERED 5 []", THEN arg_cong, of outbox_events])

text \<open>The list of recent jobs: no more than 20, all of them when there are no more than 20, projections of distinct rows
  of the table, the most recently updated first, and no job left out is more recent than one listed.\<close>

lemma recent_jobs:
  "length (listRecentJobs d) = min 20 (length (jobs d))
   \<and> sorted_wrt (\<lambda>a b. rj_updated_at a \<ge> rj_updated_at b) (listRecentJobs d)
   \<and> (\<exists>listed left_out. mset (jobs d) = mset listed + mset left_out \<and> listRecentJobs d = map recent_job_of listed
        \<and> (\<forall>a \<in> set listed. \<forall>b \<in> set left_out. updated_at b \<le> updated_at a))"
proof (intro conjI)
  define xs where "xs = sort_key (\<lambda>j. - updated_at j) (jobs d)"
  have eq: "listRecentJobs d = map recent_job_of (take 20 xs)" by (simp add: listRecentJobs_def xs_def)
  have ord: "sorted (map (\<lambda>j. - updated_at j) xs)" by (simp add: xs_def)
  show "length (listRecentJobs d) = min 20 (length (jobs d))" by (simp add: listRecentJobs_def min.commute)
  have "sorted (map (\<lambda>j. - updated_at j) (take 20 xs))" using ord by (metis sorted_wrt_take take_map)
  then show "sorted_wrt (\<lambda>a b. rj_updated_at a \<ge> rj_updated_at b) (listRecentJobs d)"
    by (simp add: eq sorted_map sorted_wrt_map recent_job_of_def)
  have "sorted (map (\<lambda>j. - updated_at j) (take 20 xs) @ map (\<lambda>j. - updated_at j) (drop 20 xs))"
    using ord by (simp flip: map_append)
  then have "\<forall>a \<in> set (take 20 xs). \<forall>b \<in> set (drop 20 xs). updated_at b \<le> updated_at a"
    by (auto simp: sorted_append)
  moreover have "mset (jobs d) = mset (take 20 xs) + mset (drop 20 xs)"
    by (simp add: xs_def flip: mset_append)
  ultimately show "\<exists>listed left_out. mset (jobs d) = mset listed + mset left_out \<and> listRecentJobs d = map recent_job_of listed
        \<and> (\<forall>a \<in> set listed. \<forall>b \<in> set left_out. updated_at b \<le> updated_at a)"
    using eq by blast
qed

text \<open>The rows after a replay that succeeded.\<close>

lemma replay_rows:
  assumes ok: "schema_ok d" and run: "claimReplay uin tx_fine new_ev now v d = (Inr (Some r), d')"
  shows "\<exists>u j. find_job d u = Some j \<and> is_dead_lettered j
    \<and> jobs d' = fst (sql_update (\<lambda>j. jid j = u \<and> is_dead_lettered j) (replay_set now) (jobs d))
    \<and> outbox_events d' = outbox_events d @ [new_event new_ev now u]"
proof -
  from run have body: "replay_body uin tx_fine new_ev now v d = Inr (Some r, d')"
    by (auto simp: claimReplay_def withTransaction_fine split: sum.splits)
  then obtain rows d1 where upd: "job_update is_dead_lettered (replay_set now) replay_overflow uin v d = Inr (rows, d1)"
    and fr: "first_row rows = Some r" and ins: "insertOutboxEvent new_ev now (jid r) d1 = Inr ((), d')"
    by (auto simp: replay_body_def split: sum.splits option.splits)
  then obtain rs where rows: "rows = r # rs" by (cases rows) auto
  from replay_stmt.matched [OF ok upd [unfolded rows]] obtain u j where
    m: "uin v = Inr (Some u)" "find_job d u = Some j" "is_dead_lettered j" "r = replay_set now j" by blast
  have ju: "jid r = u" using m find_job_Some [OF m(2)] by (simp add: replay_set_def)
  from upd have "jobs d1 = fst (sql_update (\<lambda>j. jid j = u \<and> is_dead_lettered j) (replay_set now) (jobs d))"
    by (cases rule: replay_stmt.run_cases) (use m(1) in auto)
  with m ins ju replay_stmt.outbox_unchanged [OF upd] show ?thesis
    by (auto simp: insertOutboxEvent_ok new_event_def)
qed

lemma length_by_status:
  "int (length js) = (\<Sum>x \<leftarrow> enum_class.enum. int (length (filter (\<lambda>j. status j = x) js)))" for js :: "job list"
proof (induction js)
  case Nil
  then show ?case by simp
next
  case (Cons j js)
  then show ?case by (cases "status j") simp_all
qed

text \<open>A count over the rows, as a sum, and what rewriting the one row of a key does to a sum.\<close>

lemma count_status_sum: "count_status x d = (\<Sum>j \<leftarrow> jobs d. if status j = x then 1 else 0)"
proof -
  have "int (length (filter (\<lambda>j. status j = x) js)) = (\<Sum>j \<leftarrow> js. if status j = x then 1 else 0)" for js :: "job list"
    by (induction js) simp_all
  then show ?thesis by (simp add: count_status_def)
qed

lemma sum_rewritten:
  fixes g :: "job \<Rightarrow> int"
  assumes "schema_ok d" and "find_job d u = Some j" and "P j"
    and "jobs d' = fst (sql_update (\<lambda>j. jid j = u \<and> P j) s (jobs d))"
  shows "(\<Sum>j \<leftarrow> jobs d'. g j) = (\<Sum>j \<leftarrow> jobs d. g j) + (g (s j) - g j)"
proof -
  have j: "j \<in> set (jobs d)" "jid j = u" using find_job_Some [OF assms(2)] by auto
  have "filter (\<lambda>j. jid j = u \<and> P j) (jobs d) = [j]"
    by (rule filter_key_single) (use assms(1,3) j in \<open>auto simp: schema_ok_def\<close>)
  then show ?thesis
    using sum_list_map_upd1 [of g "\<lambda>j. jid j = u \<and> P j" s "jobs d"] by (simp add: assms(4) sql_update_def)
qed

text \<open>The statistics are consistent: the counts of the six statuses add up to the number of jobs, and the pending events
  are those the dispatcher counts. A replay that succeeds moves exactly one job from \<open>DEAD_LETTERED\<close> to \<open>QUEUED\<close>, adds one
  replay and one pending event, and leaves the number of jobs and of attempts alone.\<close>

lemma stats_consistent:
  "(\<Sum>x \<leftarrow> [QUEUED, PROCESSING, COMPLETED, FAILED, RETRYING, DEAD_LETTERED]. byStatus (getStats d) x) = totalJobs (getStats d)
   \<and> pendingOutboxEvents (getStats d) = countPendingOutboxEvents d
   \<and> (schema_ok d \<longrightarrow> claimReplay uin tx_fine new_ev now v d = (Inr (Some r), d') \<longrightarrow>
        byStatus (getStats d') = (byStatus (getStats d))
          (DEAD_LETTERED := byStatus (getStats d) DEAD_LETTERED - 1, QUEUED := byStatus (getStats d) QUEUED + 1)
      \<and> totalReplays (getStats d') = totalReplays (getStats d) + 1
      \<and> pendingOutboxEvents (getStats d') = pendingOutboxEvents (getStats d) + 1
      \<and> totalJobs (getStats d') = totalJobs (getStats d) \<and> totalAttempts (getStats d') = totalAttempts (getStats d))"
proof (intro conjI impI)
  show "(\<Sum>x \<leftarrow> [QUEUED, PROCESSING, COMPLETED, FAILED, RETRYING, DEAD_LETTERED]. byStatus (getStats d) x) = totalJobs (getStats d)"
    using length_by_status [of "jobs d"] by (simp add: getStats_def count_status_def)
  show "pendingOutboxEvents (getStats d) = countPendingOutboxEvents d"
    by (simp add: getStats_def countPendingOutboxEvents_def pending_def [abs_def])
next
  assume ok: "schema_ok d" and run: "claimReplay uin tx_fine new_ev now v d = (Inr (Some r), d')"
  from replay_rows [OF ok run] obtain u j where j: "find_job d u = Some j" "is_dead_lettered j"
    and js: "jobs d' = fst (sql_update (\<lambda>j. jid j = u \<and> is_dead_lettered j) (replay_set now) (jobs d))"
    and ev: "outbox_events d' = outbox_events d @ [new_event new_ev now u]" by blast
  note sum = sum_rewritten [OF ok j js]
  have c: "count_status x d' = count_status x d + ((if QUEUED = x then 1 else 0) - (if DEAD_LETTERED = x then 1 else 0))" for x
    using j(2) sum [of "\<lambda>j. if status j = x then 1 else 0"] by (simp add: count_status_sum is_dead_lettered_def replay_set_def)
  show "byStatus (getStats d') = (byStatus (getStats d))
          (DEAD_LETTERED := byStatus (getStats d) DEAD_LETTERED - 1, QUEUED := byStatus (getStats d) QUEUED + 1)"
    by (rule ext) (simp add: getStats_def c split: status.splits)
  show "totalReplays (getStats d') = totalReplays (getStats d) + 1"
    using sum [of replay_count] by (simp add: getStats_def replay_set_def)
  show "totalAttempts (getStats d') = totalAttempts (getStats d)"
    using sum [of total_attempt_count] by (simp add: getStats_def replay_set_def)
  show "pendingOutboxEvents (getStats d') = pendingOutboxEvents (getStats d) + 1"
    by (simp add: getStats_def ev new_event_def)
  show "totalJobs (getStats d') = totalJobs (getStats d)" by (simp add: getStats_def js sql_update_def)
qed

end
