(* ===== verification/Platform.thy ===== *)
theory Platform
  imports Consumer ApiJobs
begin

text \<open>
  The running platform: the database, the broker, any number of workers each with at most one
  unacknowledged delivery (\<open>channel.prefetch(1)\<close>), and any number of dispatcher batches in flight.
  A step is one request of the API, one step of a worker's handler or of a batch, or an event of
  the environment: a delivery, the expiry of a retry delay, a crash, the loss of a channel. Every
  interleaving is a run.

  \<open>drops\<close> says whether a channel may be lost while its process lives on; the handler then keeps
  working on a delivery the broker has already put back, and its \<open>ack\<close> and \<open>nack\<close> throw.
\<close>

section \<open>State\<close>

record delivery =
  dl_message :: publication
  dl_pc :: pc
  dl_attached :: bool

record sys =
  s_db :: db
  s_broker :: broker
  s_errors :: "nat \<Rightarrow> int"
  s_active :: "nat \<Rightarrow> delivery option"
  s_batch :: "nat \<Rightarrow> (dispatch_pc \<times> tally) option"

definition requeue :: "publication \<Rightarrow> broker \<Rightarrow> broker" where
  "requeue m b = b\<lparr>queue := (queue b)(QUEUE_NAME := m # queue b QUEUE_NAME)\<rparr>"

definition take_message :: "publication \<Rightarrow> broker \<Rightarrow> broker" where
  "take_message m b = b\<lparr>queue := (queue b)(QUEUE_NAME := remove1 m (queue b QUEUE_NAME))\<rparr>"

text \<open>
  What the end of a handler means for its delivery. An unhandled rejection ends the process, so
  the broker puts an attached message back.
\<close>

definition settle :: "nat \<Rightarrow> publication \<Rightarrow> bool \<Rightarrow> pc \<Rightarrow> sys \<Rightarrow> sys" where
  "settle w m att p s = (case p of
      Finished Acked \<Rightarrow> s\<lparr>s_active := (s_active s)(w := None)\<rparr>
    | Finished Ignored \<Rightarrow> s\<lparr>s_active := (s_active s)(w := None)\<rparr>
    | Finished Requeued \<Rightarrow> s\<lparr>s_active := (s_active s)(w := None), s_broker := requeue m (s_broker s)\<rparr>
    | Finished (Crashed e) \<Rightarrow> s\<lparr>s_active := (s_active s)(w := None), s_errors := (s_errors s)(w := 0),
        s_broker := (if att then requeue m (s_broker s) else s_broker s)\<rparr>
    | _ \<Rightarrow> s\<lparr>s_active := (s_active s)(w \<mapsto> \<lparr>dl_message = m, dl_pc = p, dl_attached = att\<rparr>)\<rparr>)"

text \<open>
  The environment of a worker's step: a lost connection does not carry the error code of a
  malformed identifier, \<open>ack\<close> and \<open>nack\<close> throw exactly on a lost channel, and the broker keeps
  what it accepted.
\<close>

definition fault_genuine :: "io \<Rightarrow> bool" where
  "fault_genuine i = (case i of Io_ok \<Rightarrow> True
     | Io_fail e \<Rightarrow> \<not> isInvalidTextRepresentationError e
     | Io_lost e \<Rightarrow> \<not> isInvalidTextRepresentationError e)"

definition env_ok :: "bool \<Rightarrow> await \<Rightarrow> bool" where
  "env_ok att a \<longleftrightarrow> fault_genuine (aw_io a) \<and> aw_pub a \<noteq> Pub_lost
     \<and> (aw_ack a = None \<longleftrightarrow> att) \<and> (aw_nack a = None \<longleftrightarrow> att)"

definition worker_view :: "nat \<Rightarrow> sys \<Rightarrow> worker_state" where
  "worker_view w s = \<lparr>ws_db = s_db s, ws_broker = s_broker s, dbErrorCount = s_errors s w\<rparr>"

definition worker_commit :: "nat \<Rightarrow> worker_state \<Rightarrow> sys \<Rightarrow> sys" where
  "worker_commit w x s = s\<lparr>s_db := ws_db x, s_broker := ws_broker x, s_errors := (s_errors s)(w := dbErrorCount x)\<rparr>"

definition batch_store :: "nat \<Rightarrow> dispatch_pc \<Rightarrow> dispatch_state \<Rightarrow> sys \<Rightarrow> sys" where
  "batch_store k p x s = s\<lparr>s_db := ds_db x, s_broker := ds_broker x,
     s_batch := (s_batch s)(k := (case p of D_return \<Rightarrow> None | D_reject e \<Rightarrow> None | _ \<Rightarrow> Some (p, ds_tally x)))\<rparr>"

section \<open>Steps\<close>

inductive sys_step :: "uuid_input \<Rightarrow> bool \<Rightarrow> sys \<Rightarrow> sys \<Rightarrow> bool" for uin drops where
  create: "createJob t new_id new_ev now ty pl (s_db s) = (r, d) \<Longrightarrow>
     uin (Some (JStr new_id)) = Inr (Some new_id) \<Longrightarrow>
     sys_step uin drops s (s\<lparr>s_db := d\<rparr>)"
| replay: "claimReplay uin t new_ev now v (s_db s) = (r, d) \<Longrightarrow>
     sys_step uin drops s (s\<lparr>s_db := d\<rparr>)"
| batch_start: "s_batch s k = None \<Longrightarrow>
     sys_step uin drops s (s\<lparr>s_batch := (s_batch s)(k \<mapsto> (D_claim, empty_tally))\<rparr>)"
| batch_step: "s_batch s k = Some (p, ta) \<Longrightarrow> da_pub a \<noteq> Pub_lost \<Longrightarrow>
     dispatch_step a p \<lparr>ds_db = s_db s, ds_broker = s_broker s, ds_tally = ta\<rparr> = (p', x) \<Longrightarrow>
     sys_step uin drops s (batch_store k p' x s)"
| api_crash: "sys_step uin drops s (s\<lparr>s_batch := (s_batch s)(k := None)\<rparr>)"
| deliver: "s_active s w = None \<Longrightarrow> m \<in> set (queue (s_broker s) QUEUE_NAME) \<Longrightarrow> env_ok True a \<Longrightarrow>
     sys_step uin drops s
       (settle w m True (on_delivery a (Some (pub_body m))) (s\<lparr>s_broker := take_message m (s_broker s)\<rparr>))"
| worker_step: "s_active s w = Some dl \<Longrightarrow> env_ok (dl_attached dl) a \<Longrightarrow>
     consumer_step uin a (dl_pc dl) (worker_view w s) = (p', x) \<Longrightarrow>
     sys_step uin drops s (settle w (dl_message dl) (dl_attached dl) p' (worker_commit w x s))"
| worker_crash: "s_active s w = Some dl \<Longrightarrow>
     sys_step uin drops s (settle w (dl_message dl) (dl_attached dl) (Finished (Crashed err)) s)"
| channel_drop: "drops \<Longrightarrow> s_active s w = Some dl \<Longrightarrow> dl_attached dl \<Longrightarrow>
     sys_step uin drops s (s\<lparr>s_active := (s_active s)(w \<mapsto> dl\<lparr>dl_attached := False\<rparr>),
       s_broker := requeue (dl_message dl) (s_broker s)\<rparr>)"
| retry_expired: "m \<in> set (queue (s_broker s) RETRY_QUEUE_NAME) \<Longrightarrow>
     sys_step uin drops s (s\<lparr>s_broker := expire RETRY_QUEUE_NAME m (s_broker s)\<rparr>)"

definition sys_init :: sys where
  "sys_init = \<lparr>s_db = \<lparr>jobs = [], outbox_events = []\<rparr>, s_broker = worker_topology empty_broker,
     s_errors = (\<lambda>_. 0), s_active = (\<lambda>_. None), s_batch = (\<lambda>_. None)\<rparr>"

inductive sys_reach :: "uuid_input \<Rightarrow> bool \<Rightarrow> sys \<Rightarrow> bool" for uin drops where
  start: "sys_reach uin drops sys_init"
| step: "sys_reach uin drops s \<Longrightarrow> sys_step uin drops s s' \<Longrightarrow> sys_reach uin drops s'"

section \<open>What keeps a job alive\<close>

text \<open>A message for the job \<open>u\<close>: the handler will bind it to \<open>u\<close>.\<close>

definition names_job :: "uuid_input \<Rightarrow> uuid \<Rightarrow> publication \<Rightarrow> bool" where
  "names_job uin u m \<longleftrightarrow> (\<exists>content v. JSON_parse (pub_body m) = Some content
     \<and> destructure_jobId content = Inr v \<and> uin v = Inr (Some u))"

text \<open>A delivery that still leads to a claim of its job: it has not claimed yet, or it will publish or put back.\<close>

definition leads_on :: "pc \<Rightarrow> bool" where
  "leads_on p = (case p of At_claim _ \<Rightarrow> True | At_publishRetry _ _ \<Rightarrow> True | At_backoff _ \<Rightarrow> True | _ \<Rightarrow> False)"

text \<open>The event's message has been published, the event is about to be marked.\<close>

definition being_marked :: "sys \<Rightarrow> uuid \<Rightarrow> bool" where
  "being_marked s i \<longleftrightarrow> (\<exists>k ev rest ta. s_batch s k = Some (D_markPublished ev rest, ta) \<and> ev_id ev = i)"

definition has_event :: "sys \<Rightarrow> uuid \<Rightarrow> bool" where
  "has_event s u \<longleftrightarrow> (\<exists>e \<in> set (outbox_events (s_db s)). ev_job_id e = u \<and> pending e \<and> \<not> being_marked s (ev_id e))"

definition has_message :: "uuid_input \<Rightarrow> broker \<Rightarrow> uuid \<Rightarrow> bool" where
  "has_message uin b u \<longleftrightarrow> (\<exists>m \<in> set (queue b QUEUE_NAME) \<union> set (queue b RETRY_QUEUE_NAME). names_job uin u m)"

definition has_delivery :: "uuid_input \<Rightarrow> sys \<Rightarrow> uuid \<Rightarrow> bool" where
  "has_delivery uin s u \<longleftrightarrow> (\<exists>w dl. s_active s w = Some dl \<and> dl_attached dl
     \<and> names_job uin u (dl_message dl) \<and> leads_on (dl_pc dl))"

definition tracked :: "uuid_input \<Rightarrow> sys \<Rightarrow> uuid \<Rightarrow> bool" where
  "tracked uin s u \<longleftrightarrow> has_event s u \<or> has_message uin (s_broker s) u \<or> has_delivery uin s u"

section \<open>Steps of a handler and the jobs that wait\<close>

definition waits :: "job \<Rightarrow> bool" where
  "waits j \<longleftrightarrow> status j \<in> {QUEUED, RETRYING}"

lemma life_step_waits:
  "life_step l e l' \<Longrightarrow> phase l' \<in> {QUEUED, RETRYING} \<Longrightarrow> e = Replay \<and> phase l' = QUEUED \<or> (\<exists>m. e = Retry m) \<and> phase l' = RETRYING"
  by (auto elim: life_step.cases)

text \<open>A step makes no job wait but the one it marks for retry.\<close>

lemma consumer_step_waits:
  assumes ok: "schema_ok (ws_db s)" and run: "consumer_step uin a p s = (p', s')"
    and j: "find_job (ws_db s') u = Some j" "waits j"
  shows "find_job (ws_db s) u = Some j
    \<or> status j = RETRYING \<and> pc_binding uin p = Inr (Some u) \<and> leads_on p'"
proof -
  from consumer_step_life [OF ok run] consider "ws_db s' = ws_db s"
    | u0 j0 j' e where "pc_binding uin p = Inr (Some u0)" "find_job (ws_db s') = (find_job (ws_db s))(u0 \<mapsto> j')"
        "pc_event p e" "life_step (life_of j0) e (life_of j')"
    unfolding one_life_step_def by blast
  then show ?thesis
  proof cases
    case 1
    with j show ?thesis by simp
  next
    case 2
    show ?thesis
    proof (cases "u = u0")
      case False
      with 2 j show ?thesis by simp
    next
      case True
      with 2 j have jj: "j' = j" by simp
      from life_step_waits [OF 2(4)] j jj have "(\<exists>m. e = Retry m) \<and> status j = RETRYING \<or> e = Replay"
        by (auto simp: waits_def)
      with 2(3) obtain v n m where p: "p = At_markRetrying v n m" and st: "status j = RETRYING"
        by (cases p) auto
      have "leads_on (fst (consumer_step uin a p s))"
        by (simp add: p leads_on_def backoff_pc split: prod.splits sum.splits)
      with run st True 2(1) show ?thesis by simp
    qed
  qed
qed

lemma claimJob_error_genuine:
  assumes "claimJob uin i now v d = (Inl e, d')" and "uin v = Inr (Some u)" and "fault_genuine i"
  shows "\<not> isInvalidTextRepresentationError e"
  using assms
  by (auto simp: claimJob_def query_def job_update_def fault_genuine_def pg_error_def
      split: io.splits sum.splits if_splits prod.splits)

text \<open>A delivery before its claim leads on, or leaves its job claimed or found not waiting.\<close>

lemma consumer_claim_leads:
  assumes ok: "schema_ok (ws_db s)" and run: "consumer_step uin a (At_claim v) s = (p', s')"
    and v: "uin v = Inr (Some u)" and env: "fault_genuine (aw_io a)"
  shows "leads_on p' \<or> (\<forall>j. find_job (ws_db s') u = Some j \<longrightarrow> \<not> waits j)"
proof -
  obtain r d where c: "claimJob uin (aw_io a) (aw_now a) v (ws_db s) = (r, d)" by fastforce
  show ?thesis
  proof (cases r)
    case (Inl e)
    with c run claimJob_error_genuine [OF c [unfolded Inl] v env] have "p' = fst (backoffBeforeRequeue (s\<lparr>ws_db := d\<rparr>))"
      by (simp add: claim_catch_def)
    then show ?thesis by (simp add: backoff_pc leads_on_def)
  next
    case (Inr jo)
    have d: "ws_db s' = d" using run c Inr by (auto split: option.splits)
    show ?thesis
    proof (cases jo)
      case None
      have i: "d = ws_db s" "aw_io a = Io_ok" using claimJob_lost_race c Inr None by blast+
      have "\<not> waits j" if j: "find_job (ws_db s) u = Some j" for j
      proof
        assume "waits j"
        then have w: "claim_where (aw_now a) j" by (auto simp: waits_def claim_where_def)
        have "\<not> claim_overflow j"
        proof
          assume "claim_overflow j"
          with w find_job_Some [OF j] have "list_ex (\<lambda>j. jid j = u \<and> claim_where (aw_now a) j \<and> claim_overflow j) (jobs (ws_db s))"
            by (auto simp: list_ex_iff)
          with c Inr i v show False by (simp add: claimJob_def job_update_def)
        qed
        from claimJob_ok [where uin = uin and v = v and now = "aw_now a", OF ok v j this] c Inr None i w show False by auto
      qed
      with d i show ?thesis by simp
    next
      case (Some j')
      from claimJob_won [OF ok c [unfolded Inr Some]] v obtain j where
        "j' = claim_set (aw_now a) j" "find_job d = (find_job (ws_db s))(u \<mapsto> j')" by auto
      with d show ?thesis by (simp add: waits_def claim_set_def)
    qed
  qed
qed

lemma consumer_publish_leads:
  assumes run: "consumer_step uin a (At_publishRetry v n) s = (p', s')" and "aw_pub a \<noteq> Pub_lost"
    and "topology_ready (ws_broker s)"
  shows "leads_on p' \<or> job_retry_message v n \<in> set (queue (ws_broker s') RETRY_QUEUE_NAME)"
proof -
  obtain r b where c: "publishRetry (aw_pub a) v n (ws_broker s) = (r, b)" by fastforce
  show ?thesis
  proof (cases r)
    case (Inl e)
    with c run show ?thesis by (auto simp: backoffBeforeRequeue_def Let_def leads_on_def)
  next
    case (Inr x)
    then have "b = route (job_retry_message v n) (ws_broker s)"
      using c assms(2) by (auto simp: publishRetry_def publish_or_throw_ok)
    with c run Inr assms(3) show ?thesis
      by (auto simp: queue_route topology_ready_def job_retry_message_def)
  qed
qed

lemma names_job_retry: "uin v = Inr (Some u) \<Longrightarrow> names_job uin u (job_retry_message v n)"
  by (cases v) (simp_all add: names_job_def job_retry_message_def JSON_roundtrip jobId_message_def js_get_def)

lemma names_job_created: "uin (Some (JStr u)) = Inr (Some u) \<Longrightarrow> names_job uin u (job_created u)"
  by (simp add: names_job_def job_created_def JSON_roundtrip jobId_message_def js_get_def)

section \<open>Steps of a batch\<close>

definition event_keys :: "db \<Rightarrow> (uuid \<times> uuid) set" where
  "event_keys d = (\<lambda>e. (ev_id e, ev_job_id e)) ` set (outbox_events d)"

definition batch_ok :: "db \<Rightarrow> dispatch_pc \<Rightarrow> bool" where
  "batch_ok d p \<longleftrightarrow> (\<forall>ev \<in> set (batch_events p). (ev_id ev, ev_job_id ev) \<in> event_keys d)"

lemma frame_event_keys: "outbox_frame d d' \<Longrightarrow> event_keys d' = event_keys d"
  unfolding outbox_frame_def event_keys_def by (metis set_map)

lemma dispatch_step_events:
  assumes ok: "schema_ok (ds_db x)" and run: "dispatch_step a p x = (p', x')" and b: "batch_ok (ds_db x) p"
  shows "batch_ok (ds_db x') p'"
proof -
  have keys: "event_keys (ds_db x') = event_keys (ds_db x)"
    using dispatch_step_db [OF ok run] frame_event_keys by blast
  have "batch_ok (ds_db x) p'"
  proof (cases p)
    case D_claim
    with run show ?thesis
      by (auto simp: batch_ok_def event_keys_def query_def claimPendingOutboxEvents_def sql_update_def Let_def
          split: io.splits sum.splits)
  qed (use run b in \<open>auto simp: batch_ok_def split: prod.splits sum.splits\<close>)
  then show ?thesis by (simp add: batch_ok_def keys)
qed

lemma dispatch_step_broker:
  assumes "dispatch_step a p x = (p', x')"
  shows "set (queue (ds_broker x) q) \<subseteq> set (queue (ds_broker x') q) \<and>
    topology_ready (ds_broker x') = topology_ready (ds_broker x)"
proof (cases p)
  case (D_publish ev rest)
  have b: "ds_broker x' = snd (publishJobCreated (da_pub a) (ev_job_id ev) (ds_broker x))"
    using assms D_publish by (auto split: prod.splits sum.splits)
  show ?thesis
    unfolding b publishJobCreated_def by (simp add: publish_grows publish_ready)
qed (use assms in \<open>auto split: prod.splits sum.splits\<close>)

text \<open>An event is about to be marked only after its message has gone to the jobs queue.\<close>

lemma dispatch_step_marks:
  assumes "dispatch_step a p x = (D_markPublished ev rest, x')" and "da_pub a \<noteq> Pub_lost"
    and "topology_ready (ds_broker x)"
  shows "job_created (ev_job_id ev) \<in> set (queue (ds_broker x') QUEUE_NAME)"
proof (cases p)
  case (D_publish ev' rest')
  with assms have "ev' = ev" "ds_broker x' = route (job_created (ev_job_id ev)) (ds_broker x)"
    by (auto simp: publishJobCreated_def publish_or_throw_ok split: prod.splits sum.splits)
  with assms(3) show ?thesis by (simp add: queue_route topology_ready_def job_created_def)
qed (use assms in \<open>auto simp: next_event_def split: prod.splits sum.splits list.splits\<close>)

section \<open>Settling a delivery\<close>

lemma settle_frame [simp]:
  "s_db (settle w m att p s) = s_db s" "s_batch (settle w m att p s) = s_batch s"
  by (simp_all add: settle_def split: pc.splits ending.splits)

lemma settle_other: "w' \<noteq> w \<Longrightarrow> s_active (settle w m att p s) w' = s_active s w'"
  by (simp add: settle_def split: pc.splits ending.splits)

lemma requeue_grows: "set (queue b q) \<subseteq> set (queue (requeue m b) q)"
  by (auto simp: requeue_def)

lemma requeue_ready [simp]: "topology_ready (requeue m b) = topology_ready b"
  by (simp add: requeue_def topology_ready_def)

lemma take_message_ready [simp]: "topology_ready (take_message m b) = topology_ready b"
  by (simp add: take_message_def topology_ready_def)

lemma settle_grows: "set (queue (s_broker s) q) \<subseteq> set (queue (s_broker (settle w m att p s)) q)"
  using requeue_grows by (simp add: settle_def split: pc.splits ending.splits)

lemma settle_ready [simp]: "topology_ready (s_broker (settle w m att p s)) = topology_ready (s_broker s)"
  by (simp add: settle_def split: pc.splits ending.splits)

lemma settle_active:
  "s_active (settle w m att p s) w = Some dl \<Longrightarrow>
     dl = \<lparr>dl_message = m, dl_pc = p, dl_attached = att\<rparr> \<and> (\<forall>e. p \<noteq> Finished e)"
  by (auto simp: settle_def split: pc.splits ending.splits)

lemma has_message_mono:
  "(\<And>q. set (queue b q) \<subseteq> set (queue b' q)) \<Longrightarrow> has_message uin b u \<Longrightarrow> has_message uin b' u"
  unfolding has_message_def by blast

text \<open>A delivery that leads on, or is put back, keeps its job tracked.\<close>

lemma settle_tracks:
  assumes "names_job uin u m" and "att"
    and "leads_on p \<or> p = Finished Requeued \<or> (\<exists>e. p = Finished (Crashed e))"
  shows "tracked uin (settle w m att p s) u"
proof -
  consider "leads_on p" | "p = Finished Requeued" | e where "p = Finished (Crashed e)"
    using assms(3) by blast
  then show ?thesis
  proof cases
    case 1
    then have "s_active (settle w m att p s) w = Some \<lparr>dl_message = m, dl_pc = p, dl_attached = att\<rparr>"
      by (simp add: settle_def leads_on_def split: pc.splits)
    moreover have "dl_attached \<lparr>dl_message = m, dl_pc = p, dl_attached = att\<rparr>
        \<and> names_job uin u (dl_message \<lparr>dl_message = m, dl_pc = p, dl_attached = att\<rparr>)
        \<and> leads_on (dl_pc \<lparr>dl_message = m, dl_pc = p, dl_attached = att\<rparr>)"
      using 1 assms by simp
    ultimately show ?thesis unfolding tracked_def has_delivery_def by blast
  qed (use assms in \<open>auto simp: tracked_def has_message_def settle_def requeue_def\<close>)
qed

text \<open>Settling one delivery does not lose what other deliveries, messages and events track.\<close>

lemma settle_keeps:
  assumes "tracked uin s u"
  shows "tracked uin (settle w m att p s) u \<or>
    (\<exists>dl. s_active s w = Some dl \<and> dl_attached dl \<and> names_job uin u (dl_message dl) \<and> leads_on (dl_pc dl))"
proof -
  have ev: "has_event s u \<Longrightarrow> has_event (settle w m att p s) u"
    by (simp add: has_event_def being_marked_def)
  have ms: "has_message uin (s_broker s) u \<Longrightarrow> has_message uin (s_broker (settle w m att p s)) u"
    by (rule has_message_mono [OF settle_grows])
  have dl: "has_delivery uin (settle w m att p s) u"
    if "s_active s w' = Some dl" "dl_attached dl" "names_job uin u (dl_message dl)" "leads_on (dl_pc dl)" "w' \<noteq> w" for w' dl
    using that settle_other unfolding has_delivery_def by metis
  show ?thesis
    using assms ev ms dl unfolding tracked_def has_delivery_def by metis
qed

end
