(* ===== verification/PlatformInv.thy ===== *)
theory PlatformInv
  imports Platform
begin

text \<open>
  The invariant of the running platform and its preservation by every step. Its core is that a
  waiting job is never forgotten: as long as a job is \<open>QUEUED\<close> (and, where no channel is lost under
  a living process, \<open>RETRYING\<close>), an outbox event still to be published, a message in the jobs or the
  retry queue, or a delivery that will claim, publish or put back names it.
\<close>

section \<open>The invariant\<close>

definition delivery_ok :: "delivery \<Rightarrow> bool" where
  "delivery_ok dl \<longleftrightarrow> (\<forall>e. dl_pc dl \<noteq> Finished e) \<and>
     (\<forall>v. pc_job (dl_pc dl) = Some v \<longrightarrow>
        (\<exists>c. JSON_parse (pub_body (dl_message dl)) = Some c \<and> destructure_jobId c = Inr v))"

definition waiting :: "bool \<Rightarrow> status set" where
  "waiting drops = (if drops then {QUEUED} else {QUEUED, RETRYING})"

definition nothing_lost :: "uuid_input \<Rightarrow> bool \<Rightarrow> sys \<Rightarrow> bool" where
  "nothing_lost uin drops s \<longleftrightarrow>
     (\<forall>u j. find_job (s_db s) u = Some j \<longrightarrow> status j \<in> waiting drops \<longrightarrow> tracked uin s u)"

definition ids_canonical :: "uuid_input \<Rightarrow> db \<Rightarrow> bool" where
  "ids_canonical uin d \<longleftrightarrow> (\<forall>u \<in> set (map jid (jobs d)). uin (Some (JStr u)) = Inr (Some u))"

definition deliveries_ok :: "bool \<Rightarrow> sys \<Rightarrow> bool" where
  "deliveries_ok drops s \<longleftrightarrow>
     (\<forall>w dl. s_active s w = Some dl \<longrightarrow> delivery_ok dl \<and> (drops \<or> dl_attached dl))"

definition batches_ok :: "sys \<Rightarrow> bool" where
  "batches_ok s \<longleftrightarrow> (\<forall>k p ta. s_batch s k = Some (p, ta) \<longrightarrow> batch_ok (s_db s) p)"

definition plat_inv :: "uuid_input \<Rightarrow> bool \<Rightarrow> sys \<Rightarrow> bool" where
  "plat_inv uin drops s \<longleftrightarrow> schema_ok (s_db s) \<and> lives_ok (s_db s) \<and> topology_ready (s_broker s)
     \<and> ids_canonical uin (s_db s) \<and> deliveries_ok drops s \<and> batches_ok s \<and> nothing_lost uin drops s"

lemma plat_invI:
  assumes "schema_ok (s_db s)" "lives_ok (s_db s)" "topology_ready (s_broker s)"
    "ids_canonical uin (s_db s)" "deliveries_ok drops s" "batches_ok s" "nothing_lost uin drops s"
  shows "plat_inv uin drops s"
  using assms by (simp add: plat_inv_def)

lemma plat_invD:
  assumes "plat_inv uin drops s"
  shows "schema_ok (s_db s)" "lives_ok (s_db s)" "topology_ready (s_broker s)"
    "ids_canonical uin (s_db s)" "deliveries_ok drops s" "batches_ok s" "nothing_lost uin drops s"
  using assms by (simp_all add: plat_inv_def)

lemma plat_inv_init: "plat_inv uin drops sys_init"
  by (rule plat_invI)
     (simp_all add: sys_init_def schema_ok_def lives_ok_def find_job_def topology_ready_worker
       ids_canonical_def deliveries_ok_def batches_ok_def nothing_lost_def)

section \<open>Requests of the API\<close>

lemma being_marked_event:
  "batches_ok s \<Longrightarrow> being_marked s i \<Longrightarrow> i \<in> set (map ev_id (outbox_events (s_db s)))"
  by (fastforce simp: batches_ok_def being_marked_def batch_ok_def event_keys_def)

text \<open>A request that adds an event to the outbox and touches neither broker nor processes.\<close>

lemma added_event_tracks:
  assumes b: "batches_ok s" and fresh: "new_ev \<notin> set (map ev_id (outbox_events (s_db s)))"
    and ob: "outbox_events d = outbox_events (s_db s) @ [new_event new_ev now u]"
  shows "tracked uin (s\<lparr>s_db := d\<rparr>) u"
    and "tracked uin s w \<Longrightarrow> tracked uin (s\<lparr>s_db := d\<rparr>) w"
proof -
  have m: "being_marked (s\<lparr>s_db := d\<rparr>) i = being_marked s i" for i by (simp add: being_marked_def)
  have "\<not> being_marked s new_ev" using being_marked_event [OF b] fresh by blast
  then show "tracked uin (s\<lparr>s_db := d\<rparr>) u"
    by (auto simp: tracked_def has_event_def ob m)
  show "tracked uin s w \<Longrightarrow> tracked uin (s\<lparr>s_db := d\<rparr>) w"
    by (auto simp: tracked_def has_event_def has_delivery_def ob m)
qed

lemma batches_ok_grow:
  "batches_ok s \<Longrightarrow> event_keys (s_db s) \<subseteq> event_keys d \<Longrightarrow> batches_ok (s\<lparr>s_db := d\<rparr>)"
  by (auto simp: batches_ok_def batch_ok_def)

lemma create_inv:
  assumes inv: "plat_inv uin drops s" and eff: "create_effect new_id new_ev now ty pl (s_db s) d"
    and can: "uin (Some (JStr new_id)) = Inr (Some new_id)"
  shows "plat_inv uin drops (s\<lparr>s_db := d\<rparr>)"
proof (rule plat_invI)
  note i = plat_invD [OF inv]
  have ob: "outbox_events d = outbox_events (s_db s) @ [new_event new_ev now new_id]"
    and fresh: "new_ev \<notin> set (map ev_id (outbox_events (s_db s)))"
    using eff by (auto simp: create_effect_def)
  show "schema_ok (s_db (s\<lparr>s_db := d\<rparr>))" using create_effect_schema [OF eff i(1)] by simp
  show "lives_ok (s_db (s\<lparr>s_db := d\<rparr>))"
    using i(2) by (auto simp: lives_ok_def create_effect_find [OF eff] new_job_life intro: life_reach.born)
  show "ids_canonical uin (s_db (s\<lparr>s_db := d\<rparr>))"
    using i(4) eff can by (auto simp: ids_canonical_def create_effect_def)
  show "batches_ok (s\<lparr>s_db := d\<rparr>)" by (rule batches_ok_grow [OF i(6)]) (auto simp: event_keys_def ob)
  show "nothing_lost uin drops (s\<lparr>s_db := d\<rparr>)"
    unfolding nothing_lost_def using i(7) added_event_tracks [OF i(6) fresh ob]
    by (auto simp: create_effect_find [OF eff] nothing_lost_def split: if_splits)
  show "topology_ready (s_broker (s\<lparr>s_db := d\<rparr>))" "deliveries_ok drops (s\<lparr>s_db := d\<rparr>)"
    using i by (simp_all add: deliveries_ok_def)
qed

lemma replay_inv:
  assumes inv: "plat_inv uin drops s" and eff: "replay_effect new_ev now u j (s_db s) d" and sch: "schema_ok d"
  shows "plat_inv uin drops (s\<lparr>s_db := d\<rparr>)"
proof (rule plat_invI)
  note i = plat_invD [OF inv]
  have ob: "outbox_events d = outbox_events (s_db s) @ [new_event new_ev now u]"
    and fresh: "new_ev \<notin> set (map ev_id (outbox_events (s_db s)))"
    and j: "find_job (s_db s) u = Some j" "is_dead_lettered j"
    and find: "find_job d = (find_job (s_db s))(u \<mapsto> replay_set now j)"
    using eff by (auto simp: replay_effect_def is_dead_lettered_def)
  show "schema_ok (s_db (s\<lparr>s_db := d\<rparr>))" using sch by simp
  have "life_reach (life_of (replay_set now j))"
    using i(2) j replay_life [OF j(2)] by (auto simp: lives_ok_def intro: life_reach.lives)
  then show "lives_ok (s_db (s\<lparr>s_db := d\<rparr>))" using i(2) by (auto simp: lives_ok_def find)
  show "ids_canonical uin (s_db (s\<lparr>s_db := d\<rparr>))"
    using i(4) eff by (auto simp: ids_canonical_def replay_effect_def simp del: set_map)
  show "batches_ok (s\<lparr>s_db := d\<rparr>)" by (rule batches_ok_grow [OF i(6)]) (auto simp: event_keys_def ob)
  show "nothing_lost uin drops (s\<lparr>s_db := d\<rparr>)"
    unfolding nothing_lost_def using i(7) added_event_tracks [OF i(6) fresh ob]
    by (auto simp: find nothing_lost_def split: if_splits)
  show "topology_ready (s_broker (s\<lparr>s_db := d\<rparr>))" "deliveries_ok drops (s\<lparr>s_db := d\<rparr>)"
    using i by (simp_all add: deliveries_ok_def)
qed

section \<open>Steps of a batch\<close>

lemma frame_tables:
  assumes "outbox_frame d d'"
  shows "find_job d' = find_job d" "event_keys d' = event_keys d"
    "lives_ok d' = lives_ok d" "ids_canonical uin d' = ids_canonical uin d"
  using outbox_frame_maps [OF assms] frame_event_keys [OF assms]
  by (simp_all add: lives_ok_def ids_canonical_def)

lemma event_key_inj:
  assumes "schema_ok d" "(i, u) \<in> event_keys d" "(i, u') \<in> event_keys d"
  shows "u = u'"
  using assms by (auto simp: schema_ok_def event_keys_def distinct_map inj_on_def)

text \<open>
  A batch that is about to mark an event has published its message, so the job stays tracked;
  otherwise the event itself stays.
\<close>

lemma batch_tracks:
  assumes inv: "plat_inv uin drops s" and bk: "s_batch s k = Some (p, ta)" and pub: "da_pub a \<noteq> Pub_lost"
    and run: "dispatch_step a p \<lparr>ds_db = s_db s, ds_broker = s_broker s, ds_tally = ta\<rparr> = (p', x)"
    and tr: "tracked uin s u" and u: "uin (Some (JStr u)) = Inr (Some u)"
  shows "tracked uin (batch_store k p' x s) u"
proof -
  note i = plat_invD [OF inv]
  let ?s' = "batch_store k p' x s"
  have ok: "schema_ok (ds_db \<lparr>ds_db = s_db s, ds_broker = s_broker s, ds_tally = ta\<rparr>)" using i(1) by simp
  note db = dispatch_step_db [OF ok run]
  have br: "s_broker ?s' = ds_broker x" "s_db ?s' = ds_db x" "s_active ?s' = s_active s"
    by (simp_all add: batch_store_def)
  have grows: "set (queue (s_broker s) q) \<subseteq> set (queue (ds_broker x) q)" for q
    using dispatch_step_broker [OF run] by simp
  consider "has_event s u" | "has_message uin (s_broker s) u" | "has_delivery uin s u"
    using tr by (auto simp: tracked_def)
  then show ?thesis
  proof cases
    case 1
    then obtain e where e: "e \<in> set (outbox_events (s_db s))" "ev_job_id e = u" "pending e" "\<not> being_marked s (ev_id e)"
      by (auto simp: has_event_def)
    with bk have "\<forall>ev rest. p = D_markPublished ev rest \<longrightarrow> ev_id ev \<noteq> ev_id e" by (auto simp: being_marked_def)
    with db e obtain e' where e': "e' \<in> set (outbox_events (ds_db x))" "ev_id e' = ev_id e" "ev_job_id e' = u" "pending e'"
      by (auto simp: rows_follow_def)
    show ?thesis
    proof (cases "being_marked ?s' (ev_id e)")
      case False
      with e' show ?thesis by (auto simp: tracked_def has_event_def br)
    next
      case True
      with e(4) obtain ev rest where p': "p' = D_markPublished ev rest" "ev_id ev = ev_id e"
        by (auto simp: being_marked_def batch_store_def split: if_splits dispatch_pc.splits)
      have "batch_ok (ds_db x) p'"
        using dispatch_step_events [OF ok run] i(6) bk by (auto simp: batches_ok_def)
      then have "(ev_id e, ev_job_id ev) \<in> event_keys (ds_db x)" using p' by (auto simp: batch_ok_def)
      moreover have "(ev_id e, u) \<in> event_keys (ds_db x)" using e' by (auto simp: event_keys_def image_iff intro!: bexI [of _ e'])
      ultimately have "ev_job_id ev = u" using event_key_inj db by blast
      with dispatch_step_marks [OF run [unfolded p'] pub] i(3)
      have "job_created u \<in> set (queue (ds_broker x) QUEUE_NAME)" by simp
      with names_job_created [of uin u, OF u] show ?thesis by (auto simp: tracked_def has_message_def br)
    qed
  next
    case 2
    with has_message_mono [OF grows] show ?thesis by (simp add: tracked_def br)
  next
    case 3
    then show ?thesis by (simp add: tracked_def has_delivery_def br)
  qed
qed

lemma ids_canonical_find:
  "ids_canonical uin d \<Longrightarrow> find_job d u = Some j \<Longrightarrow> uin (Some (JStr u)) = Inr (Some u)"
  by (auto simp: ids_canonical_def dest: find_job_Some)

lemma batch_step_inv:
  assumes inv: "plat_inv uin drops s" and bk: "s_batch s k = Some (p, ta)" and pub: "da_pub a \<noteq> Pub_lost"
    and run: "dispatch_step a p \<lparr>ds_db = s_db s, ds_broker = s_broker s, ds_tally = ta\<rparr> = (p', x)"
  shows "plat_inv uin drops (batch_store k p' x s)"
proof -
  note i = plat_invD [OF inv]
  let ?s' = "batch_store k p' x s"
  have ok: "schema_ok (ds_db \<lparr>ds_db = s_db s, ds_broker = s_broker s, ds_tally = ta\<rparr>)" using i(1) by simp
  have br: "s_broker ?s' = ds_broker x" "s_db ?s' = ds_db x" "s_active ?s' = s_active s"
    by (simp_all add: batch_store_def)
  have sch: "schema_ok (ds_db x)" and fr: "outbox_frame (s_db s) (ds_db x)"
    using dispatch_step_db [OF ok run] by simp_all
  note t = frame_tables [OF fr]
  have b: "batch_ok (ds_db x) p'" using dispatch_step_events [OF ok run] i(6) bk by (auto simp: batches_ok_def)
  have "nothing_lost uin drops ?s'"
    unfolding nothing_lost_def br t
    using i(7) batch_tracks [OF inv bk pub run] ids_canonical_find [OF i(4)] by (auto simp: nothing_lost_def)
  moreover have "batches_ok ?s'"
    using b i(6) by (auto simp: batches_ok_def batch_store_def batch_ok_def t split: if_splits dispatch_pc.splits)
  moreover have "topology_ready (ds_broker x)" using dispatch_step_broker [OF run] i(3) by simp
  ultimately show ?thesis
    using i sch t by (auto intro!: plat_invI simp: br deliveries_ok_def)
qed

lemma batch_start_tracks:
  assumes "tracked uin s u"
  shows "tracked uin (s\<lparr>s_batch := (s_batch s)(k \<mapsto> (D_claim, empty_tally))\<rparr>) u" (is "tracked uin ?s' u")
proof -
  have "being_marked ?s' x \<Longrightarrow> being_marked s x" for x by (auto simp: being_marked_def split: if_splits)
  with assms show ?thesis by (fastforce simp: tracked_def has_event_def has_delivery_def)
qed

lemma batch_start_inv:
  assumes inv: "plat_inv uin drops s" and free: "s_batch s k = None"
  shows "plat_inv uin drops (s\<lparr>s_batch := (s_batch s)(k \<mapsto> (D_claim, empty_tally))\<rparr>)"
proof -
  let ?s' = "s\<lparr>s_batch := (s_batch s)(k \<mapsto> (D_claim, empty_tally))\<rparr>"
  note i = plat_invD [OF inv]
  have "nothing_lost uin drops ?s'" using i(7) batch_start_tracks by (simp add: nothing_lost_def)
  moreover have "batches_ok ?s'" using i(6) by (auto simp: batches_ok_def batch_ok_def)
  ultimately show ?thesis using i by (auto intro!: plat_invI simp: deliveries_ok_def)
qed

lemma api_crash_inv:
  assumes inv: "plat_inv uin drops s"
  shows "plat_inv uin drops (s\<lparr>s_batch := (s_batch s)(k := None)\<rparr>)"
proof -
  let ?s' = "s\<lparr>s_batch := (s_batch s)(k := None)\<rparr>"
  note i = plat_invD [OF inv]
  have "being_marked ?s' x \<Longrightarrow> being_marked s x" for x by (auto simp: being_marked_def split: if_splits)
  then have "tracked uin s u \<Longrightarrow> tracked uin ?s' u" for u
    by (fastforce simp: tracked_def has_event_def has_delivery_def)
  then have "nothing_lost uin drops ?s'" using i(7) by (auto simp: nothing_lost_def)
  moreover have "batches_ok ?s'" using i(6) by (auto simp: batches_ok_def)
  ultimately show ?thesis using i by (auto intro!: plat_invI simp: deliveries_ok_def)
qed

section \<open>Steps of a worker\<close>

lemma delivery_binding:
  assumes "delivery_ok dl" and "pc_job (dl_pc dl) = Some v"
  shows "names_job uin u (dl_message dl) \<longleftrightarrow> uin v = Inr (Some u)"
  using assms by (auto simp: delivery_ok_def names_job_def)

lemma worker_commit_simps [simp]:
  "s_db (worker_commit w x s) = ws_db x" "s_broker (worker_commit w x s) = ws_broker x"
  "s_active (worker_commit w x s) = s_active s" "s_batch (worker_commit w x s) = s_batch s"
  by (simp_all add: worker_commit_def)

lemma worker_view_simps [simp]: "ws_db (worker_view w s) = s_db s" "ws_broker (worker_view w s) = s_broker s"
  by (simp_all add: worker_view_def)

lemma one_life_step_frame:
  assumes "one_life_step E b d d'"
  shows "outbox_events d' = outbox_events d" "map jid (jobs d') = map jid (jobs d)"
  using assms by (auto simp: one_life_step_def)

lemma worker_commit_tracks:
  assumes "outbox_events (ws_db x) = outbox_events (s_db s)"
    and "\<And>q. set (queue (s_broker s) q) \<subseteq> set (queue (ws_broker x) q)"
    and "tracked uin s u"
  shows "tracked uin (worker_commit w x s) u"
proof -
  have "has_message uin (s_broker s) u \<Longrightarrow> has_message uin (ws_broker x) u"
    by (rule has_message_mono [OF assms(2)])
  with assms(1,3) show ?thesis
    by (auto simp: tracked_def has_event_def being_marked_def has_delivery_def)
qed

text \<open>A delivery that leads on, does so after the step too, unless its job no longer waits or its message is in the retry queue.\<close>

lemma worker_step_leads:
  assumes ok: "schema_ok (s_db s)" and top: "topology_ready (s_broker s)"
    and dl: "delivery_ok dl" "dl_attached dl" "names_job uin u (dl_message dl)" "leads_on (dl_pc dl)"
    and env: "env_ok (dl_attached dl) a"
    and run: "consumer_step uin a (dl_pc dl) (worker_view w s) = (p', x)"
    and j: "find_job (ws_db x) u = Some j" "waits j"
  shows "leads_on p' \<or> p' = Finished Requeued \<or> has_message uin (ws_broker x) u"
proof (cases "dl_pc dl")
  case (At_claim v)
  then have v: "uin v = Inr (Some u)" using delivery_binding [OF dl(1)] dl(3) by simp
  have "fault_genuine (aw_io a)" using env by (simp add: env_ok_def)
  with consumer_claim_leads [OF _ run [unfolded At_claim] v] ok j show ?thesis by auto
next
  case (At_publishRetry v n)
  then have v: "uin v = Inr (Some u)" using delivery_binding [OF dl(1)] dl(3) by simp
  have "aw_pub a \<noteq> Pub_lost" using env by (simp add: env_ok_def)
  with consumer_publish_leads [OF run [unfolded At_publishRetry]] top names_job_retry [where uin = uin and v = v, OF v]
  show ?thesis by (auto simp: has_message_def)
next
  case (At_backoff n)
  with run env dl(2) show ?thesis by (auto simp: env_ok_def nack_unguarded_def)
qed (use dl(4) in \<open>simp_all add: leads_on_def\<close>)

text \<open>
  A job that waits after the step is tracked, if it was before in case it is not the step that makes it wait, and if otherwise the
  handler's delivery is still attached.
\<close>

lemma worker_step_tracks:
  assumes inv: "plat_inv uin drops s" and act: "s_active s w = Some dl" and env: "env_ok (dl_attached dl) a"
    and run: "consumer_step uin a (dl_pc dl) (worker_view w s) = (p', x)"
    and j: "find_job (ws_db x) u = Some j" and wj: "waits j"
    and was: "find_job (s_db s) u = Some j \<Longrightarrow> tracked uin s u"
    and att: "find_job (s_db s) u \<noteq> Some j \<Longrightarrow> status j = RETRYING \<Longrightarrow> dl_attached dl"
  shows "tracked uin (settle w (dl_message dl) (dl_attached dl) p' (worker_commit w x s)) u" (is "tracked uin ?s' u")
proof -
  note i = plat_invD [OF inv]
  have ok: "schema_ok (ws_db (worker_view w s))" using i(1) by simp
  have dok: "delivery_ok dl" using i(5) act by (auto simp: deliveries_ok_def)
  consider (old) "find_job (s_db s) u = Some j"
    | (new) "find_job (s_db s) u \<noteq> Some j" "status j = RETRYING" "pc_binding uin (dl_pc dl) = Inr (Some u)" "leads_on p'"
    using consumer_step_waits [OF ok run j wj] by auto
  then show ?thesis
  proof cases
    case new
    then have "dl_attached dl" using att by blast
    moreover obtain v where "pc_job (dl_pc dl) = Some v" "uin v = Inr (Some u)"
      using new(3) by (auto simp: pc_binding_def split: option.splits)
    ultimately show ?thesis
      using settle_tracks [of uin u "dl_message dl" "dl_attached dl" p'] new(4) delivery_binding [OF dok] by simp
  next
    case old
    have "outbox_events (ws_db x) = outbox_events (s_db s)"
      using consumer_step_life [OF ok run] one_life_step_frame(1) by fastforce
    then have "tracked uin (worker_commit w x s) u"
      using worker_commit_tracks consumer_step_grows [OF run] was [OF old] by simp
    from settle_keeps [OF this, of w "dl_message dl" "dl_attached dl" p'] act consider "tracked uin ?s' u"
      | "dl_attached dl" "names_job uin u (dl_message dl)" "leads_on (dl_pc dl)" by auto
    then show ?thesis
    proof cases
      case 2
      from worker_step_leads [OF i(1) i(3) dok 2 env run j wj]
      consider "leads_on p' \<or> p' = Finished Requeued" | "has_message uin (ws_broker x) u" by blast
      then show ?thesis
      proof cases
        case 1
        with 2 settle_tracks [of uin u "dl_message dl" "dl_attached dl" p'] show ?thesis by blast
      next
        case m: 2
        then have "has_message uin (s_broker (worker_commit w x s)) u" by simp
        from has_message_mono [OF settle_grows this] show ?thesis by (simp add: tracked_def)
      qed
    qed
  qed
qed

lemma settle_deliveries:
  assumes "deliveries_ok drops s" and "drops \<or> att"
    and "\<And>v. pc_job p = Some v \<Longrightarrow> \<exists>c. JSON_parse (pub_body m) = Some c \<and> destructure_jobId c = Inr v"
  shows "deliveries_ok drops (settle w m att p s)"
  unfolding deliveries_ok_def
proof (intro allI impI)
  fix w' dl assume a: "s_active (settle w m att p s) w' = Some dl"
  show "delivery_ok dl \<and> (drops \<or> dl_attached dl)"
  proof (cases "w' = w")
    case True
    with a settle_active [of w m att p s dl] assms(2,3) show ?thesis by (auto simp: delivery_ok_def)
  next
    case False
    with a settle_other [OF False, of m att p s] assms(1) show ?thesis by (auto simp: deliveries_ok_def)
  qed
qed

lemma worker_step_inv:
  assumes inv: "plat_inv uin drops s" and act: "s_active s w = Some dl" and env: "env_ok (dl_attached dl) a"
    and run: "consumer_step uin a (dl_pc dl) (worker_view w s) = (p', x)"
  shows "plat_inv uin drops (settle w (dl_message dl) (dl_attached dl) p' (worker_commit w x s))" (is "plat_inv _ _ ?s'")
proof (rule plat_invI)
  note i = plat_invD [OF inv]
  have ok: "schema_ok (ws_db (worker_view w s))" using i(1) by simp
  have dok: "delivery_ok dl" "drops \<or> dl_attached dl" using i(5) act by (auto simp: deliveries_ok_def)
  note life = consumer_step_life [OF ok run, unfolded worker_view_simps]
  note frame = one_life_step_frame [OF conjunct1 [OF life]]
  show "schema_ok (s_db ?s')" using life by simp
  show "lives_ok (s_db ?s')" using one_life_step_lives life i(2) by auto
  show "topology_ready (s_broker ?s')" using consumer_step_ready [OF run] i(3) by simp
  show "ids_canonical uin (s_db ?s')" using i(4) frame(2) by (simp add: ids_canonical_def flip: set_map)
  show "batches_ok ?s'" using i(6) frame(1) by (simp add: batches_ok_def batch_ok_def event_keys_def)
  have "deliveries_ok drops (worker_commit w x s)" using i(5) by (simp add: deliveries_ok_def)
  then show "deliveries_ok drops ?s'"
    by (rule settle_deliveries) (use dok consumer_step_job [OF run] in \<open>auto simp: delivery_ok_def\<close>)
  show "nothing_lost uin drops ?s'"
    unfolding nothing_lost_def
  proof (intro allI impI)
    fix u j assume j: "find_job (s_db ?s') u = Some j" "status j \<in> waiting drops"
    have "waits j" using j(2) by (auto simp: waiting_def waits_def split: if_splits)
    with worker_step_tracks [OF inv act env run, of u j] j i(7) dok show "tracked uin ?s' u"
      by (auto simp: nothing_lost_def waiting_def split: if_splits)
  qed
qed

section \<open>Deliveries, crashes, lost channels and expired delays\<close>

text \<open>A state that differs in what tracks a job only by growing keeps the invariant.\<close>

lemma same_tables_inv:
  assumes inv: "plat_inv uin drops s" and same: "s_db s' = s_db s" "s_batch s' = s_batch s"
    and rest: "topology_ready (s_broker s')" "deliveries_ok drops s'"
    and tr: "\<And>u j. find_job (s_db s) u = Some j \<Longrightarrow> tracked uin s u \<Longrightarrow> tracked uin s' u"
  shows "plat_inv uin drops s'"
  using plat_invD [OF inv] rest tr
  by (auto intro!: plat_invI simp: same batches_ok_def nothing_lost_def)

lemma on_delivery_leads:
  assumes "names_job uin u m"
  shows "leads_on (on_delivery a (Some (pub_body m)))"
  using assms by (auto simp: names_job_def on_delivery_def leads_on_def)

lemma on_delivery_job:
  "pc_job (on_delivery a (Some (pub_body m))) = Some v \<Longrightarrow>
     \<exists>c. JSON_parse (pub_body m) = Some c \<and> destructure_jobId c = Inr v"
  by (auto simp: on_delivery_def ack_unguarded_def split: option.splits sum.splits)

lemma deliver_tracks:
  assumes free: "s_active s w = None" and m: "m \<in> set (queue (s_broker s) QUEUE_NAME)" and tr: "tracked uin s u"
  shows "tracked uin (settle w m True (on_delivery a (Some (pub_body m))) (s\<lparr>s_broker := take_message m (s_broker s)\<rparr>)) u"
    (is "tracked uin (settle w m True ?p ?s1) u")
proof (cases "names_job uin u m")
  case True
  from settle_tracks [OF this, of True ?p w ?s1] on_delivery_leads [OF True] show ?thesis by simp
next
  case False
  then have keep: "x \<in> set (queue (s_broker s) QUEUE_NAME) \<Longrightarrow> names_job uin u x \<Longrightarrow>
      x \<in> set (queue (take_message m (s_broker s)) QUEUE_NAME)" for x
    by (auto simp: take_message_def intro: in_set_remove1 [THEN iffD2])
  have "has_message uin (s_broker s) u \<Longrightarrow> has_message uin (take_message m (s_broker s)) u"
    using keep by (fastforce simp: has_message_def take_message_def)
  with tr have "tracked uin ?s1 u"
    by (auto simp: tracked_def has_event_def being_marked_def has_delivery_def)
  from settle_keeps [OF this, of w m True ?p] free show ?thesis by simp
qed

lemma deliver_inv:
  assumes inv: "plat_inv uin drops s" and free: "s_active s w = None"
    and m: "m \<in> set (queue (s_broker s) QUEUE_NAME)"
  shows "plat_inv uin drops
    (settle w m True (on_delivery a (Some (pub_body m))) (s\<lparr>s_broker := take_message m (s_broker s)\<rparr>))"
    (is "plat_inv _ _ (settle w m True ?p ?s1)")
proof (rule same_tables_inv [OF inv])
  note i = plat_invD [OF inv]
  show "topology_ready (s_broker (settle w m True ?p ?s1))" using i(3) by simp
  have "deliveries_ok drops ?s1" using i(5) by (simp add: deliveries_ok_def)
  then show "deliveries_ok drops (settle w m True ?p ?s1)"
    by (rule settle_deliveries) (auto dest: on_delivery_job)
qed (use deliver_tracks [OF free m] in simp_all)

lemma worker_crash_inv:
  assumes inv: "plat_inv uin drops s" and act: "s_active s w = Some dl"
  shows "plat_inv uin drops (settle w (dl_message dl) (dl_attached dl) (Finished (Crashed e)) s)" (is "plat_inv _ _ ?s'")
proof (rule same_tables_inv [OF inv])
  note i = plat_invD [OF inv]
  show "topology_ready (s_broker ?s')" using i(3) by simp
  show "deliveries_ok drops ?s'"
    by (rule settle_deliveries [OF i(5)]) (use i(5) act in \<open>auto simp: deliveries_ok_def\<close>)
  fix u assume "tracked uin s u"
  from settle_keeps [OF this, of w "dl_message dl" "dl_attached dl" "Finished (Crashed e)"] act
  show "tracked uin ?s' u" by (auto intro: settle_tracks)
qed simp_all

lemma channel_drop_inv:
  assumes inv: "plat_inv uin True s" and act: "s_active s w = Some dl" and att: "dl_attached dl"
  shows "plat_inv uin True (s\<lparr>s_active := (s_active s)(w \<mapsto> dl\<lparr>dl_attached := False\<rparr>),
       s_broker := requeue (dl_message dl) (s_broker s)\<rparr>)" (is "plat_inv _ _ ?s'")
proof (rule same_tables_inv [OF inv])
  note i = plat_invD [OF inv]
  show "topology_ready (s_broker ?s')" using i(3) by simp
  show "deliveries_ok True ?s'" using i(5) act by (auto simp: deliveries_ok_def delivery_ok_def)
  fix u assume tr: "tracked uin s u"
  show "tracked uin ?s' u"
  proof (cases "names_job uin u (dl_message dl)")
    case True
    then show ?thesis by (auto simp: tracked_def has_message_def requeue_def)
  next
    case False
    have "has_message uin (s_broker s) u \<Longrightarrow> has_message uin (s_broker ?s') u"
      using has_message_mono [OF requeue_grows] by simp
    moreover have "has_delivery uin s u \<Longrightarrow> has_delivery uin ?s' u"
      using False act unfolding has_delivery_def by simp (metis option.inject)
    ultimately show ?thesis using tr by (auto simp: tracked_def has_event_def being_marked_def)
  qed
qed simp_all

lemma names_job_expired:
  "names_job uin u (m\<lparr>pub_exchange := x, pub_key := k, pub_expiration := None\<rparr>) = names_job uin u m"
  by (simp add: names_job_def)

lemma retry_expired_tracks:
  assumes top: "topology_ready (s_broker s)" and m: "m \<in> set (queue (s_broker s) RETRY_QUEUE_NAME)" and tr: "tracked uin s u"
  shows "tracked uin (s\<lparr>s_broker := expire RETRY_QUEUE_NAME m (s_broker s)\<rparr>) u" (is "tracked uin ?s' u")
proof -
  note ex = expire_retry [OF top m]
  have "has_message uin (s_broker s) u \<Longrightarrow> has_message uin (s_broker ?s') u"
  proof -
    assume "has_message uin (s_broker s) u"
    then obtain x where x: "names_job uin u x"
      "x \<in> set (queue (s_broker s) QUEUE_NAME) \<or> x \<in> set (queue (s_broker s) RETRY_QUEUE_NAME)"
      by (auto simp: has_message_def)
    show ?thesis
    proof (cases "x = m")
      case True
      with x(1) names_job_expired show ?thesis by (auto simp: has_message_def ex(1))
    next
      case False
      with x show ?thesis by (auto simp: has_message_def ex(1,2) in_set_remove1)
    qed
  qed
  with tr show "tracked uin ?s' u"
    by (auto simp: tracked_def has_event_def being_marked_def has_delivery_def)
qed

lemma retry_expired_inv:
  assumes inv: "plat_inv uin drops s" and m: "m \<in> set (queue (s_broker s) RETRY_QUEUE_NAME)"
  shows "plat_inv uin drops (s\<lparr>s_broker := expire RETRY_QUEUE_NAME m (s_broker s)\<rparr>)" (is "plat_inv _ _ ?s'")
proof (rule same_tables_inv [OF inv])
  note i = plat_invD [OF inv]
  show "topology_ready (s_broker ?s')" using expire_retry(3) [OF i(3) m] by simp
  show "deliveries_ok drops ?s'" using i(5) by (simp add: deliveries_ok_def)
qed (use retry_expired_tracks [OF plat_invD(3) [OF inv] m] in simp_all)

section \<open>Every step\<close>

lemma sys_step_inv:
  assumes "sys_step uin drops s s'" and "plat_inv uin drops s"
  shows "plat_inv uin drops s'"
  using assms
proof (induction rule: sys_step.induct)
  case (create t new_id new_ev now ty pl s r d)
  from create.hyps(1) show ?case
    by (cases rule: createJob_cases) (use create create_inv in \<open>auto\<close>)
next
  case (replay t new_ev now v s r d)
  note ok = plat_invD(1) [OF replay.prems]
  from ok replay.hyps show ?case
    by (cases rule: claimReplay_cases) (use replay.prems replay_inv in \<open>auto\<close>)
next
  case (channel_drop s w dl)
  then show ?case using channel_drop_inv by simp
qed (auto intro: batch_start_inv batch_step_inv api_crash_inv deliver_inv worker_step_inv
       worker_crash_inv retry_expired_inv)

lemma sys_reach_inv: "sys_reach uin drops s \<Longrightarrow> plat_inv uin drops s"
  by (induction rule: sys_reach.induct) (auto intro: plat_inv_init sys_step_inv)

section \<open>Every step is a step of at most one life of each job\<close>

text \<open>No job disappears; each keeps its row or makes one step of its life; a job that appears is newborn.\<close>

definition lives_on :: "db \<Rightarrow> db \<Rightarrow> bool" where
  "lives_on d d' \<longleftrightarrow>
     (\<forall>u j. find_job d u = Some j \<longrightarrow> find_job d' u = Some j \<or>
        (\<exists>e j'. find_job d' u = Some j' \<and> life_step (life_of j) e (life_of j') \<and> same_identity j j'))
   \<and> (\<forall>u j'. find_job d u = None \<longrightarrow> find_job d' u = Some j' \<longrightarrow> life_of j' = newborn)"

lemma lives_on_same: "find_job d' = find_job d \<Longrightarrow> lives_on d d'"
  by (simp add: lives_on_def)

lemma lives_on_one_step: "one_life_step E b d d' \<Longrightarrow> lives_on d d'"
  unfolding one_life_step_def lives_on_def by (metis fun_upd_apply option.distinct(1) option.inject)

lemma lives_on_create: "create_effect new_id new_ev now ty pl d d' \<Longrightarrow> lives_on d d'"
  using create_effect_find [of new_id new_ev now ty pl d d']
  by (auto simp: lives_on_def create_effect_def new_job_life find_job_None [symmetric] simp del: set_map)

lemma lives_on_replay: "replay_effect new_ev now u j d d' \<Longrightarrow> lives_on d d'"
  using replay_life [of j now]
  by (auto simp: lives_on_def replay_effect_def is_dead_lettered_def same_identity_def replay_set_def
      intro!: exI [of _ Replay] split: if_splits)

lemma sys_step_lives:
  assumes "sys_step uin drops s s'" and "plat_inv uin drops s"
  shows "lives_on (s_db s) (s_db s')"
  using assms
proof (induction rule: sys_step.induct)
  case (create t new_id new_ev now ty pl s r d)
  from create.hyps(1) show ?case
    by (cases rule: createJob_cases) (auto intro: lives_on_same lives_on_create)
next
  case (replay t new_ev now v s r d)
  note ok = plat_invD(1) [OF replay.prems]
  from ok replay.hyps show ?case
    by (cases rule: claimReplay_cases) (auto intro: lives_on_same lives_on_replay)
next
  case (batch_step s k p ta a p' x)
  have "schema_ok (ds_db \<lparr>ds_db = s_db s, ds_broker = s_broker s, ds_tally = ta\<rparr>)"
    using plat_invD(1) [OF batch_step.prems] by simp
  from dispatch_step_db [OF this batch_step.hyps(3)] show ?case
    by (auto simp: batch_store_def intro!: lives_on_same dest: frame_tables(1))
next
  case (worker_step s w dl a p' x)
  have "schema_ok (ws_db (worker_view w s))" using plat_invD(1) [OF worker_step.prems] by simp
  from consumer_step_life [OF this worker_step.hyps(3)] show ?case by (auto intro: lives_on_one_step)
qed (auto intro: lives_on_same)

lemma life_reach_run: "life_reach l \<Longrightarrow> \<exists>es. life_run newborn es l"
  by (induction rule: life_reach.induct) (auto intro: life_run.intros)

lemma sys_steps_inv:
  "(sys_step uin drops)\<^sup>*\<^sup>* s s' \<Longrightarrow> plat_inv uin drops s \<Longrightarrow> plat_inv uin drops s'"
  by (induction rule: rtranclp_induct) (auto intro: sys_step_inv)

end
