(* ===== verification/Progress.thy ===== *)
theory Progress
  imports PlatformInv
begin

text \<open>
  Progress of the platform. A calm step is a step of the composition at which nothing fails and
  nobody asks for anything: the dispatcher's timer starts a batch, a batch or a handler makes its
  next step, the broker delivers a message, a retry delay expires. Whatever happened before, crashes
  and failed queries included, calm steps alone bring every waiting job that is tracked to its end. Handlers whose channel
  was lost take no part in calm steps; none is needed.
\<close>

section \<open>Calm steps\<close>

inductive calm_step :: "uuid_input \<Rightarrow> sys \<Rightarrow> sys \<Rightarrow> bool" for uin where
  batch_starts: "s_batch s k = None \<Longrightarrow>
     calm_step uin s (s\<lparr>s_batch := (s_batch s)(k \<mapsto> (D_claim, empty_tally))\<rparr>)"
| batch_steps: "s_batch s k = Some (p, ta) \<Longrightarrow> smooth a \<Longrightarrow> da_locked a = [] \<Longrightarrow>
     dispatch_step a p \<lparr>ds_db = s_db s, ds_broker = s_broker s, ds_tally = ta\<rparr> = (p', x) \<Longrightarrow>
     calm_step uin s (batch_store k p' x s)"
| delivers: "s_active s w = None \<Longrightarrow> m \<in> set (queue (s_broker s) QUEUE_NAME) \<Longrightarrow>
     calm_step uin s
       (settle w m True (on_delivery (calm t) (Some (pub_body m))) (s\<lparr>s_broker := take_message m (s_broker s)\<rparr>))"
| worker_steps: "s_active s w = Some dl \<Longrightarrow> dl_attached dl \<Longrightarrow>
     consumer_step uin (calm t) (dl_pc dl) (worker_view w s) = (p', x) \<Longrightarrow>
     calm_step uin s (settle w (dl_message dl) True p' (worker_commit w x s))"
| delay_expires: "m \<in> set (queue (s_broker s) RETRY_QUEUE_NAME) \<Longrightarrow>
     calm_step uin s (s\<lparr>s_broker := expire RETRY_QUEUE_NAME m (s_broker s)\<rparr>)"

lemma env_ok_calm [simp]: "env_ok True (calm t)"
  by (simp add: env_ok_def fault_genuine_def)

lemma calm_is_step: "calm_step uin s s' \<Longrightarrow> sys_step uin drops s s'"
proof (induction rule: calm_step.induct)
  case (batch_steps s k p ta a p' x)
  then show ?case by (intro sys_step.batch_step [where a = a]) (auto simp: smooth_def)
next
  case (worker_steps s w dl t p' x)
  then show ?case using sys_step.worker_step [of s w dl "calm t" uin p' x] by simp
qed (auto intro: sys_step.intros)

lemma calm_steps_are_steps: "(calm_step uin)\<^sup>*\<^sup>* s s' \<Longrightarrow> (sys_step uin drops)\<^sup>*\<^sup>* s s'"
  by (induction rule: rtranclp_induct) (auto intro: calm_is_step rtranclp.rtrancl_into_rtrancl)

section \<open>There is always an idle worker and a free batch\<close>

definition finitely_busy :: "sys \<Rightarrow> bool" where
  "finitely_busy s \<longleftrightarrow> finite (dom (s_active s)) \<and> finite (dom (s_batch s))"

lemma finite_dom_upd [simp]: "finite (dom (m(x := y))) \<longleftrightarrow> finite (dom m)"
  by (cases y) (simp_all add: dom_fun_upd)

lemma settle_busy [simp]: "finite (dom (s_active (settle w m att p s))) = finite (dom (s_active s))"
  by (simp add: settle_def split: pc.splits ending.splits)

lemma sys_step_busy: "sys_step uin drops s s' \<Longrightarrow> finitely_busy s \<Longrightarrow> finitely_busy s'"
proof (induction rule: sys_step.induct)
qed (simp_all add: finitely_busy_def worker_commit_def batch_store_def del: fun_upd_apply)

lemma finitely_busy_idle:
  assumes "finitely_busy s"
  obtains w k where "s_active s w = None" "s_batch s k = None"
proof -
  obtain w where "w \<notin> dom (s_active s)" using assms ex_new_if_finite [OF infinite_UNIV_nat] by (auto simp: finitely_busy_def)
  moreover obtain k where "k \<notin> dom (s_batch s)" using assms ex_new_if_finite [OF infinite_UNIV_nat] by (auto simp: finitely_busy_def)
  ultimately show ?thesis using that by blast
qed

text \<open>What every reachable state has, and calm steps keep.\<close>

definition sound :: "uuid_input \<Rightarrow> bool \<Rightarrow> sys \<Rightarrow> bool" where
  "sound uin drops s \<longleftrightarrow> plat_inv uin drops s \<and> finitely_busy s"

lemma sys_reach_sound: "sys_reach uin drops s \<Longrightarrow> sound uin drops s"
proof (induction rule: sys_reach.induct)
  case start
  then show ?case by (simp add: sound_def plat_inv_init) (simp add: finitely_busy_def sys_init_def)
next
  case (step s s')
  then show ?case using sys_step_inv sys_step_busy by (auto simp: sound_def)
qed

lemma calm_steps_sound: "(calm_step uin)\<^sup>*\<^sup>* s s' \<Longrightarrow> sound uin drops s \<Longrightarrow> sound uin drops s'"
proof (induction rule: rtranclp_induct)
  case (step y z)
  then show ?case using calm_is_step sys_step_inv sys_step_busy unfolding sound_def by blast
qed simp

text \<open>Calm steps never lose a job that waits: only handlers that can still acknowledge take part.\<close>

definition watched :: "uuid_input \<Rightarrow> sys \<Rightarrow> uuid \<Rightarrow> bool" where
  "watched uin s u \<longleftrightarrow> (\<forall>j. find_job (s_db s) u = Some j \<longrightarrow> waits j \<longrightarrow> tracked uin s u)"

lemma calm_step_watched:
  assumes "calm_step uin s s'" and "plat_inv uin drops s" and "watched uin s u"
  shows "watched uin s' u"
  using assms
proof (induction rule: calm_step.induct)
  case (batch_starts s k)
  then show ?case using batch_start_tracks by (simp add: watched_def)
next
  case (batch_steps s k p ta a p' x)
  note i = plat_invD [OF batch_steps.prems(1)]
  have "schema_ok (ds_db \<lparr>ds_db = s_db s, ds_broker = s_broker s, ds_tally = ta\<rparr>)" using i(1) by simp
  from dispatch_step_db [OF this batch_steps.hyps(4)] have "find_job (ds_db x) = find_job (s_db s)" by (auto dest: frame_tables(1))
  moreover have "da_pub a \<noteq> Pub_lost" using batch_steps.hyps(2) by (simp add: smooth_def)
  ultimately show ?case
    using batch_steps batch_tracks [OF batch_steps.prems(1) batch_steps.hyps(1) _ batch_steps.hyps(4)] ids_canonical_find [OF i(4)]
    by (auto simp: watched_def batch_store_def)
next
  case (delivers s w m t)
  then show ?case using deliver_tracks by (simp add: watched_def)
next
  case (worker_steps s w dl t p' x)
  show ?case
    unfolding watched_def
  proof (intro allI impI)
    fix j assume j: "find_job (s_db (settle w (dl_message dl) True p' (worker_commit w x s))) u = Some j" "waits j"
    from worker_step_tracks [OF worker_steps.prems(1) worker_steps.hyps(1) _ worker_steps.hyps(3), of u j] j worker_steps
    show "tracked uin (settle w (dl_message dl) True p' (worker_commit w x s)) u" by (simp add: watched_def)
  qed
next
  case (delay_expires m s)
  then show ?case using retry_expired_tracks plat_invD(3) by (simp add: watched_def)
qed

lemma calm_steps_watched:
  "(calm_step uin)\<^sup>*\<^sup>* s s' \<Longrightarrow> sound uin drops s \<Longrightarrow> watched uin s u \<Longrightarrow> watched uin s' u"
proof (induction rule: rtranclp_induct)
  case (step y z)
  then show ?case using calm_step_watched calm_steps_sound unfolding sound_def by blast
qed simp

section \<open>A handler and a batch, left alone, run to their end\<close>

lemma run_handler_finished [simp]: "run_handler uin as (Finished e) s = (Finished e, s)"
  by (induction as) simp_all

lemma calm_handler:
  assumes "s_active s w = Some \<lparr>dl_message = m, dl_pc = p, dl_attached = True\<rparr>" and "\<forall>e. p \<noteq> Finished e"
    and "run_handler uin (map calm ts) p (worker_view w s) = (Finished Acked, x)"
  shows "\<exists>s'. (calm_step uin)\<^sup>*\<^sup>* s s' \<and> s_db s' = ws_db x \<and> s_broker s' = ws_broker x"
  using assms
proof (induction ts arbitrary: s p)
  case Nil
  then show ?case by simp
next
  case (Cons t ts)
  obtain p' y where st: "consumer_step uin (calm t) p (worker_view w s) = (p', y)" by fastforce
  with Cons.prems(3) have run: "run_handler uin (map calm ts) p' y = (Finished Acked, x)" by simp
  let ?s' = "settle w m True p' (worker_commit w y s)"
  have calm: "calm_step uin s ?s'" using calm_step.worker_steps [OF Cons.prems(1)] st by simp
  show ?case
  proof (cases "\<exists>e. p' = Finished e")
    case True
    with run have "p' = Finished Acked" "y = x" by auto
    then have "s_db ?s' = ws_db x" "s_broker ?s' = ws_broker x" by (simp_all add: settle_def)
    with calm show ?thesis by blast
  next
    case False
    then have s': "?s' = (worker_commit w y s)\<lparr>s_active := (s_active s)(w \<mapsto> \<lparr>dl_message = m, dl_pc = p', dl_attached = True\<rparr>)\<rparr>"
      by (simp add: settle_def split: pc.splits)
    then have "worker_view w ?s' = y" by (simp add: worker_view_def worker_commit_def)
    with Cons.IH [of ?s' p'] run False s' calm show ?thesis
      by (auto intro: converse_rtranclp_into_rtranclp)
  qed
qed

lemma run_dispatch_finished [simp]:
  "run_dispatch as D_return s = (D_return, s)" "run_dispatch as (D_reject e) s = (D_reject e, s)"
  by (induction as) simp_all

lemma calm_batch_from:
  assumes "s_batch s k = Some (p, ta)" and "list_all (\<lambda>a. smooth a \<and> da_locked a = []) as"
    and "p \<noteq> D_return" "\<forall>e. p \<noteq> D_reject e"
    and "run_dispatch as p \<lparr>ds_db = s_db s, ds_broker = s_broker s, ds_tally = ta\<rparr> = (D_return, x)"
  shows "\<exists>s'. (calm_step uin)\<^sup>*\<^sup>* s s' \<and> s_db s' = ds_db x \<and> s_broker s' = ds_broker x"
  using assms
proof (induction as arbitrary: s p ta)
  case Nil
  then show ?case by simp
next
  case (Cons a as)
  obtain p' y where st: "dispatch_step a p \<lparr>ds_db = s_db s, ds_broker = s_broker s, ds_tally = ta\<rparr> = (p', y)" by fastforce
  with Cons.prems(5) have run: "run_dispatch as p' y = (D_return, x)" by simp
  let ?s' = "batch_store k p' y s"
  have calm: "calm_step uin s ?s'" using calm_step.batch_steps [OF Cons.prems(1) _ _ st] Cons.prems(2) by simp
  have eqs: "s_db ?s' = ds_db y" "s_broker ?s' = ds_broker y" by (simp_all add: batch_store_def)
  show ?case
  proof (cases "p' = D_return \<or> (\<exists>e. p' = D_reject e)")
    case True
    with run have "y = x" using run_dispatch_finished by auto
    with calm eqs show ?thesis by blast
  next
    case False
    then have "s_batch ?s' k = Some (p', ds_tally y)" by (simp add: batch_store_def split: dispatch_pc.splits)
    moreover have "\<lparr>ds_db = s_db ?s', ds_broker = s_broker ?s', ds_tally = ds_tally y\<rparr> = y" by (simp add: eqs)
    ultimately show ?thesis
      using Cons.IH [of ?s' p' "ds_tally y"] run False Cons.prems(2) calm
      by (auto intro: converse_rtranclp_into_rtranclp)
  qed
qed

lemma calm_batch:
  assumes "sound uin drops s" and "list_all (\<lambda>a. smooth a \<and> da_locked a = []) as"
    and "dispatchOutboxBatch as (s_db s) (s_broker s) = (D_return, x)"
  shows "\<exists>s'. (calm_step uin)\<^sup>*\<^sup>* s s' \<and> s_db s' = ds_db x \<and> s_broker s' = ds_broker x"
proof -
  obtain k where k: "s_batch s k = None" using assms(1) finitely_busy_idle by (metis sound_def)
  let ?s1 = "s\<lparr>s_batch := (s_batch s)(k \<mapsto> (D_claim, empty_tally))\<rparr>"
  have "calm_step uin s ?s1" by (rule calm_step.batch_starts [OF k])
  moreover have "\<exists>s'. (calm_step uin)\<^sup>*\<^sup>* ?s1 s' \<and> s_db s' = ds_db x \<and> s_broker s' = ds_broker x"
    by (rule calm_batch_from [where k = k and p = D_claim and ta = empty_tally])
       (use assms(2,3) in \<open>simp_all add: dispatchOutboxBatch_def\<close>)
  ultimately show ?thesis by (blast intro: converse_rtranclp_into_rtranclp)
qed

section \<open>A pending event is published, however long the queue before it\<close>

text \<open>All claims become stale with time.\<close>

lemma claim_eligible_mono: "claim_eligible t e \<Longrightarrow> t \<le> t' \<Longrightarrow> claim_eligible t' e"
  by (auto simp: claim_eligible_def split: option.splits)

lemma all_eligible: "\<exists>t. \<forall>e \<in> set es. pending e \<longrightarrow> claim_eligible t e"
proof (induction es)
  case (Cons e es)
  then obtain t where t: "\<forall>x \<in> set es. pending x \<longrightarrow> claim_eligible t x" by blast
  have "\<exists>t'. pending e \<longrightarrow> claim_eligible t' e"
  proof (cases "claimed_at e")
    case (Some c)
    then show ?thesis by (intro exI [of _ "c + STALE_CLAIM_THRESHOLD_SECONDS * 1000000 + 1"]) (simp add: claim_eligible_def)
  qed (simp add: claim_eligible_def)
  then obtain t' where "pending e \<longrightarrow> claim_eligible t' e" by blast
  with t show ?case by (intro exI [of _ "max t t'"]) (auto intro: claim_eligible_mono)
qed simp

definition published_rows :: "timestamp \<Rightarrow> uuid set \<Rightarrow> outbox_event list \<Rightarrow> outbox_event list" where
  "published_rows t I = map (\<lambda>e. if ev_id e \<in> I then e\<lparr>published_at := Some t\<rparr> else e)"

lemma published_rows_twice: "published_rows t J (published_rows t I rows) = published_rows t (I \<union> J) rows"
  by (auto simp: published_rows_def)

lemma calm_batch_rows:
  assumes "smooth a" and "run_dispatch (replicate (2 * length es) a) (next_event es) x = (p, x')"
  shows "outbox_events (ds_db x') = published_rows (da_now a) (ev_id ` set es) (outbox_events (ds_db x))
    \<and> jobs (ds_db x') = jobs (ds_db x)"
  using assms(2)
proof (induction es arbitrary: x)
  case Nil
  then show ?case by (simp add: published_rows_def)
next
  case (Cons e es)
  have io: "da_io a = Io_ok" "da_pub a = Pub_ok" using assms(1) by (simp_all add: smooth_def)
  let ?x1 = "x\<lparr>ds_broker := route (job_created (ev_job_id e)) (ds_broker x),
      ds_db := (ds_db x)\<lparr>outbox_events := published_rows (da_now a) {ev_id e} (outbox_events (ds_db x))\<rparr>,
      ds_tally := (ds_tally x)\<lparr>published := published (ds_tally x) + 1\<rparr>\<rparr>"
  have "run_dispatch (replicate (2 * length (e # es)) a) (next_event (e # es)) x
      = run_dispatch (replicate (2 * length es) a) (next_event es) ?x1"
    by (simp add: next_event_def [of "e # es"] io publishJobCreated_def publish_or_throw_ok [THEN iffD2]
        publish_or_throw_def channel_publish_def markOutboxPublished_def sql_update_def published_rows_def)
  with Cons.prems have "run_dispatch (replicate (2 * length es) a) (next_event es) ?x1 = (p, x')" by simp
  from Cons.IH [OF this] show ?case by (simp add: published_rows_twice)
qed

lemma claimed_were_pending:
  assumes ok: "schema_ok d" and c: "claimPendingOutboxEvents t locked n d = Inr (ret, d')"
  shows "\<forall>r \<in> set ret. \<exists>e \<in> set (outbox_events d). pending e \<and> r = e\<lparr>claimed_at := Some t\<rparr>"
proof
  fix r assume "r \<in> set ret"
  then obtain e' where e': "e' \<in> set (outbox_events d)" "ev_id e' \<in> set (select_claimable t locked n (outbox_events d))"
    "r = e'\<lparr>claimed_at := Some t\<rparr>"
    using claimPending_returned(1) [OF c] by auto
  from select_claimable_eligible [OF e'(2)] obtain e'' where
    e'': "e'' \<in> set (outbox_events d)" "ev_id e'' = ev_id e'" "pending e''" by (auto simp: claim_eligible_def)
  then have "e'' = e'" using e'(1) ok by (auto simp: schema_ok_def distinct_map inj_on_def)
  with e' e''(3) show "\<exists>e \<in> set (outbox_events d). pending e \<and> r = e\<lparr>claimed_at := Some t\<rparr>" by blast
qed

lemma sort_key_Nil: "sort_key f xs = [] \<longleftrightarrow> xs = []"
  by (metis length_0_conv length_sort)

text \<open>
  One calm batch, at a time at which every pending event is eligible: some pending events are
  published, at least one if there is any, and their messages are in the jobs queue.
\<close>

lemma calm_batch_effect:
  assumes sd: "sound uin drops s" and e: "e \<in> set (outbox_events (s_db s))" "pending e"
  obtains s' t ret where "(calm_step uin)\<^sup>*\<^sup>* s s'" "jobs (s_db s') = jobs (s_db s)"
    "ret \<noteq> []" "\<forall>r \<in> set ret. \<exists>e \<in> set (outbox_events (s_db s)). pending e \<and> r = e\<lparr>claimed_at := Some t\<rparr>"
    "outbox_events (s_db s') = published_rows t (ev_id ` set ret)
       (map (\<lambda>e. if ev_id e \<in> ev_id ` set ret then e\<lparr>claimed_at := Some t\<rparr> else e) (outbox_events (s_db s)))"
    "\<forall>r \<in> set ret. job_created (ev_job_id r) \<in> set (queue (s_broker s') QUEUE_NAME)"
proof -
  note i = plat_invD [OF conjunct1 [OF sd [unfolded sound_def]]]
  obtain t where t: "\<forall>e \<in> set (outbox_events (s_db s)). pending e \<longrightarrow> claim_eligible t e" using all_eligible by blast
  let ?a = "\<lparr>da_io = Io_ok, da_now = t, da_pub = Pub_ok, da_locked = []\<rparr>"
  let ?ids = "select_claimable t [] BATCH_SIZE (outbox_events (s_db s))"
  obtain ret d1 where c: "claimPendingOutboxEvents t [] BATCH_SIZE (s_db s) = Inr (ret, d1)"
    by (simp add: claimPendingOutboxEvents_def Let_def sql_update_def)
  let ?x1 = "\<lparr>ds_db = d1, ds_broker = s_broker s, ds_tally = empty_tally\<lparr>attempted := length ret\<rparr>\<rparr>"
  let ?as = "?a # replicate (2 * length ret) ?a"
  have ids: "set ?ids = ev_id ` set ret" using claimPending_ids(1) [OF i(1) c] by simp
  have run: "dispatchOutboxBatch ?as (s_db s) (s_broker s) = run_dispatch (replicate (2 * length ret) ?a) (next_event ret) ?x1"
    using c by (simp add: dispatchOutboxBatch_def)
  have sm: "smooth ?a" by (simp add: smooth_def)
  have "\<exists>x. run_dispatch (replicate (2 * length ret) ?a) (next_event ret) ?x1 = (D_return, x)
     \<and> queue (ds_broker x) QUEUE_NAME = queue (s_broker s) QUEUE_NAME @ map (job_created \<circ> ev_job_id) ret"
    using smooth_batch [of "replicate (2 * length ret) ?a" ret ?x1 "{}"] sm i(3) by (auto simp: list_all_iff all_published_def)
  then obtain x where x: "run_dispatch (replicate (2 * length ret) ?a) (next_event ret) ?x1 = (D_return, x)"
    "queue (ds_broker x) QUEUE_NAME = queue (s_broker s) QUEUE_NAME @ map (job_created \<circ> ev_job_id) ret" by blast
  obtain s' where s': "(calm_step uin)\<^sup>*\<^sup>* s s'" "s_db s' = ds_db x" "s_broker s' = ds_broker x"
    using calm_batch [OF sd, of ?as x] run x(1) sm by (auto simp: list_all_iff)
  note rows = calm_batch_rows [OF sm x(1)]
  have "claim_eligible t e" using t e by blast
  then have "filter (\<lambda>e. claim_eligible t e) (outbox_events (s_db s)) \<noteq> []" using e by (auto simp: filter_empty_conv)
  then have "?ids \<noteq> []" by (simp add: select_claimable_def BATCH_SIZE_def sort_key_Nil)
  then have ne: "ret \<noteq> []" using ids by auto
  note r = claimPending_returned [OF c]
  show ?thesis
  proof (rule that [OF s'(1) _ ne, of t])
    show "jobs (s_db s') = jobs (s_db s)"
      using rows s'(2) claimPending_frame [OF c] by (simp add: outbox_frame_def)
    show "\<forall>r \<in> set ret. \<exists>e \<in> set (outbox_events (s_db s)). pending e \<and> r = e\<lparr>claimed_at := Some t\<rparr>"
      by (rule claimed_were_pending [OF i(1) c])
    show "outbox_events (s_db s') = published_rows t (ev_id ` set ret)
       (map (\<lambda>e. if ev_id e \<in> ev_id ` set ret then e\<lparr>claimed_at := Some t\<rparr> else e) (outbox_events (s_db s)))"
      using rows r(2) ids s'(2) by (simp add: sql_update_def)
    show "\<forall>r \<in> set ret. job_created (ev_job_id r) \<in> set (queue (s_broker s') QUEUE_NAME)"
      using x(2) s'(3) by auto
  qed
qed

lemma length_filter_strict_mono:
  assumes "\<And>x. P x \<Longrightarrow> Q x" and "x \<in> set xs" "Q x" "\<not> P x"
  shows "length (filter P xs) < length (filter Q xs)"
proof -
  have "filter P xs = filter P (filter Q xs)" using assms(1) by (auto intro: filter_cong)
  also have "length \<dots> < length (filter Q xs)" by (rule length_filter_less [of x]) (use assms in auto)
  finally show ?thesis .
qed

lemma still_pending:
  "filter pending (published_rows t I (map (\<lambda>e. if ev_id e \<in> I then e\<lparr>claimed_at := Some t\<rparr> else e) es))
    = filter (\<lambda>e. pending e \<and> ev_id e \<notin> I) es"
  by (induction es) (auto simp: published_rows_def pending_def)

lemma pending_event_published:
  assumes "sound uin drops s" and "e \<in> set (outbox_events (s_db s))" "pending e"
  shows "\<exists>s'. (calm_step uin)\<^sup>*\<^sup>* s s' \<and> jobs (s_db s') = jobs (s_db s)
    \<and> job_created (ev_job_id e) \<in> set (queue (s_broker s') QUEUE_NAME)"
  using assms
proof (induction "length (filter pending (outbox_events (s_db s)))" arbitrary: s e rule: less_induct)
  case less
  obtain s1 t ret where s1: "(calm_step uin)\<^sup>*\<^sup>* s s1" "jobs (s_db s1) = jobs (s_db s)" and ne: "ret \<noteq> []"
    and was: "\<forall>r \<in> set ret. \<exists>e \<in> set (outbox_events (s_db s)). pending e \<and> r = e\<lparr>claimed_at := Some t\<rparr>"
    and rows: "outbox_events (s_db s1) = published_rows t (ev_id ` set ret)
       (map (\<lambda>e. if ev_id e \<in> ev_id ` set ret then e\<lparr>claimed_at := Some t\<rparr> else e) (outbox_events (s_db s)))"
    and msgs: "\<forall>r \<in> set ret. job_created (ev_job_id r) \<in> set (queue (s_broker s1) QUEUE_NAME)"
    by (rule calm_batch_effect [OF less.prems])
  have ok: "schema_ok (s_db s)" using plat_invD(1) less.prems(1) by (auto simp: sound_def)
  let ?I = "ev_id ` set ret"
  have still: "filter pending (outbox_events (s_db s1)) = filter (\<lambda>e. pending e \<and> ev_id e \<notin> ?I) (outbox_events (s_db s))"
    unfolding rows by (rule still_pending)
  show ?case
  proof (cases "ev_id e \<in> ?I")
    case True
    then obtain r e' where r: "r \<in> set ret" "ev_id r = ev_id e" "e' \<in> set (outbox_events (s_db s))" "r = e'\<lparr>claimed_at := Some t\<rparr>"
      using was by fastforce
    then have "e' = e" using ok less.prems(2) by (auto simp: schema_ok_def distinct_map inj_on_def)
    with r msgs have "job_created (ev_job_id e) \<in> set (queue (s_broker s1) QUEUE_NAME)" by auto
    with s1 show ?thesis by blast
  next
    case False
    from ne obtain r where r: "r \<in> set ret" by (cases ret) auto
    with was obtain e1 where e1: "e1 \<in> set (outbox_events (s_db s))" "pending e1" "r = e1\<lparr>claimed_at := Some t\<rparr>" by blast
    then have "ev_id e1 \<in> ?I" using imageI [OF r, of ev_id] by simp
    have "length (filter pending (outbox_events (s_db s1))) < length (filter pending (outbox_events (s_db s)))"
      unfolding still by (rule length_filter_strict_mono [OF _ e1(1)]) (use e1 \<open>ev_id e1 \<in> ?I\<close> in auto)
    moreover have "e \<in> set (filter pending (outbox_events (s_db s1)))" unfolding still using less.prems False by simp
    ultimately obtain s2 where "(calm_step uin)\<^sup>*\<^sup>* s1 s2" "jobs (s_db s2) = jobs (s_db s1)"
      "job_created (ev_job_id e) \<in> set (queue (s_broker s2) QUEUE_NAME)"
      using less.hyps [of s1 e] calm_steps_sound [OF s1(1) less.prems(1)] by auto
    with s1 show ?thesis by (metis rtranclp_trans)
  qed
qed

section \<open>Whatever tracks a job leads to a delivery that is about to claim it\<close>

definition about_to_claim :: "uuid_input \<Rightarrow> sys \<Rightarrow> uuid \<Rightarrow> bool" where
  "about_to_claim uin s u \<longleftrightarrow> (\<exists>w m v. s_active s w = Some \<lparr>dl_message = m, dl_pc = At_claim v, dl_attached = True\<rparr>
     \<and> uin v = Inr (Some u))"

text \<open>Calm steps that leave the jobs as they are.\<close>

definition quietly :: "uuid_input \<Rightarrow> sys \<Rightarrow> sys \<Rightarrow> bool" where
  "quietly uin s s' \<longleftrightarrow> (calm_step uin)\<^sup>*\<^sup>* s s' \<and> jobs (s_db s') = jobs (s_db s)"

lemma quietly_trans: "quietly uin s s' \<Longrightarrow> quietly uin s' s'' \<Longrightarrow> quietly uin s s''"
  by (auto simp: quietly_def)

lemma quietly_step: "calm_step uin s s' \<Longrightarrow> jobs (s_db s') = jobs (s_db s) \<Longrightarrow> quietly uin s s'"
  by (auto simp: quietly_def)

lemma quietly_sound: "quietly uin s s' \<Longrightarrow> sound uin drops s \<Longrightarrow> sound uin drops s'"
  using calm_steps_sound by (auto simp: quietly_def)

lemma message_delivered:
  assumes "sound uin drops s" and "m \<in> set (queue (s_broker s) QUEUE_NAME)" "names_job uin u m"
  shows "\<exists>s'. quietly uin s s' \<and> about_to_claim uin s' u"
proof -
  obtain w where w: "s_active s w = None" using assms(1) finitely_busy_idle by (metis sound_def)
  obtain v where v: "on_delivery (calm 0) (Some (pub_body m)) = At_claim v" "uin v = Inr (Some u)"
    using assms(3) by (auto simp: names_job_def on_delivery_def)
  let ?s1 = "settle w m True (At_claim v) (s\<lparr>s_broker := take_message m (s_broker s)\<rparr>)"
  have "quietly uin s ?s1" using calm_step.delivers [OF w assms(2), of uin 0] v(1) by (intro quietly_step) simp_all
  moreover have "about_to_claim uin ?s1 u" using v(2) by (auto simp: about_to_claim_def settle_def)
  ultimately show ?thesis by blast
qed

lemma retry_delivered:
  assumes "sound uin drops s" and "m \<in> set (queue (s_broker s) RETRY_QUEUE_NAME)" "names_job uin u m"
  shows "\<exists>s'. quietly uin s s' \<and> about_to_claim uin s' u"
proof -
  let ?s1 = "s\<lparr>s_broker := expire RETRY_QUEUE_NAME m (s_broker s)\<rparr>"
  have q: "quietly uin s ?s1" by (rule quietly_step [OF calm_step.delay_expires [OF assms(2)]]) simp
  have "topology_ready (s_broker s)" using assms(1) plat_invD(3) by (auto simp: sound_def)
  from expire_retry(1) [OF this assms(2)] obtain m' where
    "m' \<in> set (queue (s_broker ?s1) QUEUE_NAME)" "names_job uin u m'" using assms(3) names_job_expired by fastforce
  from message_delivered [OF quietly_sound [OF q assms(1)] this] q show ?thesis using quietly_trans by blast
qed

lemma delivery_leads_to_claim:
  assumes sd: "sound uin drops s" and act: "s_active s w = Some dl" "dl_attached dl" "names_job uin u (dl_message dl)" "leads_on (dl_pc dl)"
  shows "\<exists>s'. quietly uin s s' \<and> about_to_claim uin s' u"
proof -
  note i = plat_invD [OF conjunct1 [OF sd [unfolded sound_def]]]
  have dok: "delivery_ok dl" using i(5) act(1) by (auto simp: deliveries_ok_def)
  show ?thesis
  proof (cases "dl_pc dl")
    case (At_claim v)
    then have "uin v = Inr (Some u)" using delivery_binding [OF dok] act(3) by simp
    with act At_claim have "about_to_claim uin s u" unfolding about_to_claim_def by (metis delivery.surjective old.unit.exhaust)
    then show ?thesis by (auto simp: quietly_def)
  next
    case (At_publishRetry v n)
    then have v: "uin v = Inr (Some u)" using delivery_binding [OF dok] act(3) by simp
    let ?x = "(worker_view w s)\<lparr>ws_broker := route (job_retry_message v n) (s_broker s)\<rparr>"
    let ?s1 = "settle w (dl_message dl) True (Finished Acked) (worker_commit w ?x s)"
    have "consumer_step uin (calm 0) (dl_pc dl) (worker_view w s) = (Finished Acked, ?x)"
      by (simp add: At_publishRetry publishRetry_def publish_or_throw_def channel_publish_def ack_unguarded_def)
    then have q: "quietly uin s ?s1" by (intro quietly_step calm_step.worker_steps [OF act(1,2)]) simp_all
    have "job_retry_message v n \<in> set (queue (s_broker ?s1) RETRY_QUEUE_NAME)"
      using i(3) by (simp add: settle_def queue_route topology_ready_def job_retry_message_def)
    from retry_delivered [OF quietly_sound [OF q sd] this names_job_retry [where uin = uin and v = v, OF v]] q show ?thesis using quietly_trans by blast
  next
    case (At_backoff n)
    let ?s1 = "settle w (dl_message dl) True (Finished Requeued) (worker_commit w (worker_view w s) s)"
    have q: "quietly uin s ?s1"
      by (intro quietly_step calm_step.worker_steps [OF act(1,2)]) (simp_all add: At_backoff nack_unguarded_def)
    have "dl_message dl \<in> set (queue (s_broker ?s1) QUEUE_NAME)" by (simp add: settle_def requeue_def)
    from message_delivered [OF quietly_sound [OF q sd] this act(3)] q show ?thesis using quietly_trans by blast
  qed (use act(4) in \<open>simp_all add: leads_on_def\<close>)
qed

lemma waiting_job_claimed:
  assumes sd: "sound uin drops s" and j: "find_job (s_db s) u = Some j" and tr: "tracked uin s u"
  shows "\<exists>s'. quietly uin s s' \<and> about_to_claim uin s' u"
proof -
  note i = plat_invD [OF conjunct1 [OF sd [unfolded sound_def]]]
  from tr consider e where "e \<in> set (outbox_events (s_db s))" "ev_job_id e = u" "pending e"
    | m where "m \<in> set (queue (s_broker s) QUEUE_NAME)" "names_job uin u m"
    | m where "m \<in> set (queue (s_broker s) RETRY_QUEUE_NAME)" "names_job uin u m"
    | w dl where "s_active s w = Some dl" "dl_attached dl" "names_job uin u (dl_message dl)" "leads_on (dl_pc dl)"
    unfolding tracked_def has_event_def has_message_def has_delivery_def by blast
  then show ?thesis
  proof cases
    case 1
    with pending_event_published [OF sd] obtain s1 where q: "quietly uin s s1"
      and m: "job_created u \<in> set (queue (s_broker s1) QUEUE_NAME)" unfolding quietly_def by metis
    have "names_job uin u (job_created u)" by (rule names_job_created [where uin = uin, OF ids_canonical_find [OF i(4) j]])
    from message_delivered [OF quietly_sound [OF q sd] m this] q show ?thesis using quietly_trans by blast
  qed (use message_delivered retry_delivered delivery_leads_to_claim sd in blast)+
qed

section \<open>A calm attempt, and all the attempts of a job\<close>

text \<open>What becomes of a waiting job in one attempt without faults.\<close>

definition attempt_status :: "job \<Rightarrow> status" where
  "attempt_status j = (case processJob j of
      None \<Rightarrow> COMPLETED
    | Some err \<Rightarrow> if is_NonRetryableError err \<or> attempt_count j + 1 \<ge> max_attempts j then DEAD_LETTERED else RETRYING)"

definition attempted_job :: "job \<Rightarrow> job \<Rightarrow> bool" where
  "attempted_job j j' \<longleftrightarrow> status j' = attempt_status j \<and> payload j' = payload j \<and> jtype j' = jtype j
     \<and> max_attempts j' = max_attempts j \<and> attempt_count j' = attempt_count j + 1
     \<and> total_attempt_count j' = total_attempt_count j + 1"

lemma calm_attempt:
  assumes sd: "sound uin drops s" and ab: "about_to_claim uin s u" and j: "find_job (s_db s) u = Some j" "waits j" "\<not> claim_overflow j"
  shows "\<exists>s' j'. (calm_step uin)\<^sup>*\<^sup>* s s' \<and> find_job (s_db s') = (find_job (s_db s))(u \<mapsto> j') \<and> attempted_job j j'"
proof -
  note i = plat_invD [OF conjunct1 [OF sd [unfolded sound_def]]]
  obtain w m v where a: "s_active s w = Some \<lparr>dl_message = m, dl_pc = At_claim v, dl_attached = True\<rparr>" and v: "uin v = Inr (Some u)"
    using ab by (auto simp: about_to_claim_def)
  let ?x = "worker_view w s"
  have c: "schema_ok (ws_db ?x)" "find_job (ws_db ?x) u = Some j" "claim_where 0 j" "topology_ready (ws_broker ?x)"
    using i j by (auto simp: waits_def claim_where_def)
  have "\<exists>ts x' j'. run_handler uin (map calm ts) (At_claim v) ?x = (Finished Acked, x')
      \<and> find_job (ws_db x') = (find_job (s_db s))(u \<mapsto> j') \<and> attempted_job j j'"
  proof (cases "processJob j")
    case None
    from attempt_succeeds [where uin = uin and v = v, OF c(1) v c(2,3) j(3) None, of 0 0] obtain x' where
      "run_handler uin (map calm [0, 0, 0]) (At_claim v) ?x = (Finished Acked, x')"
      "find_job (ws_db x') = (find_job (s_db s))(u \<mapsto> completed_set 0 (claim_set 0 j))" unfolding list.map by auto
    moreover have "attempted_job j (completed_set 0 (claim_set 0 j))" by (simp add: attempted_job_def attempt_status_def None set_clauses)
    ultimately show ?thesis by blast
  next
    case (Some err)
    show ?thesis
    proof (cases "is_NonRetryableError err \<or> attempt_count j + 1 \<ge> max_attempts j")
      case True
      from attempt_dead_letters [where uin = uin and v = v, OF c(1) v c(2,3) j(3) Some True c(4), of 0 0 0] obtain x' where
        "run_handler uin (map calm [0, 0, 0, 0]) (At_claim v) ?x = (Finished Acked, x')"
        "find_job (ws_db x') = (find_job (s_db s))(u \<mapsto> dead_lettered_set 0 (error_text err) (claim_set 0 j))" unfolding list.map by auto
      moreover have "attempted_job j (dead_lettered_set 0 (error_text err) (claim_set 0 j))"
        using True by (simp add: attempted_job_def attempt_status_def Some set_clauses)
      ultimately show ?thesis by blast
    next
      case False
      then have n: "\<not> is_NonRetryableError err" "attempt_count j + 1 < max_attempts j" by auto
      from attempt_retries [where uin = uin and v = v, OF c(1) v c(2,3) j(3) Some n c(4), of 0 0 0] obtain x' where
        "run_handler uin (map calm [0, 0, 0, 0]) (At_claim v) ?x = (Finished Acked, x')"
        "find_job (ws_db x') = (find_job (s_db s))(u \<mapsto> retrying_set 0 (error_text err) (claim_set 0 j))" unfolding list.map by auto
      moreover have "attempted_job j (retrying_set 0 (error_text err) (claim_set 0 j))"
        using False by (simp add: attempted_job_def attempt_status_def Some set_clauses)
      ultimately show ?thesis by blast
    qed
  qed
  then obtain ts x' j' where r: "run_handler uin (map calm ts) (At_claim v) ?x = (Finished Acked, x')"
    and j': "find_job (ws_db x') = (find_job (s_db s))(u \<mapsto> j')" "attempted_job j j'" by blast
  from calm_handler [OF a _ r] obtain s' where "(calm_step uin)\<^sup>*\<^sup>* s s'" "s_db s' = ws_db x'" by auto
  with j' have "(calm_step uin)\<^sup>*\<^sup>* s s' \<and> find_job (s_db s') = (find_job (s_db s))(u \<mapsto> j') \<and> attempted_job j j'" by simp
  then show ?thesis by blast
qed

text \<open>The row counts its attempts and keeps them within the range of \<open>INT\<close>.\<close>

definition room_left :: "job \<Rightarrow> bool" where
  "room_left j \<longleftrightarrow> total_attempt_count j + max 1 (max_attempts j - attempt_count j) \<le> int4_max"

lemma waiting_job_finishes:
  assumes "sound uin drops s" and "find_job (s_db s) u = Some j" "waits j" "room_left j" "tracked uin s u"
  shows "\<exists>s' j'. (calm_step uin)\<^sup>*\<^sup>* s s' \<and> find_job (s_db s') = (find_job (s_db s))(u \<mapsto> j')
     \<and> status j' = (if processJob j = None then COMPLETED else DEAD_LETTERED)
     \<and> attempt_count j' \<le> max (max_attempts j) (attempt_count j + 1) \<and> payload j' = payload j \<and> jtype j' = jtype j"
  using assms
proof (induction "nat (max_attempts j - attempt_count j)" arbitrary: s j rule: less_induct)
  case less
  note i = plat_invD [OF conjunct1 [OF less.prems(1) [unfolded sound_def]]]
  obtain s1 where s1: "quietly uin s s1" "about_to_claim uin s1 u" using waiting_job_claimed [OF less.prems(1,2,5)] by blast
  have f: "find_job (s_db s1) = find_job (s_db s)" using s1(1) by (simp add: quietly_def find_job_def fun_eq_iff)
  then have f1: "find_job (s_db s1) u = Some j" using less.prems(2) by simp
  have "life_inv (life_of j)" using i(2) less.prems(2) life_reach_inv by (auto simp: lives_ok_def)
  then have le: "attempt_count j \<le> total_attempt_count j" by (simp add: life_inv_def)
  then have "\<not> claim_overflow j" using less.prems(4) by (auto simp: claim_overflow_def int4_overflow_def room_left_def)
  from calm_attempt [OF quietly_sound [OF s1(1) less.prems(1)] s1(2) f1 less.prems(3) this]
  obtain s2 j2 where s2: "(calm_step uin)\<^sup>*\<^sup>* s1 s2" "find_job (s_db s2) = (find_job (s_db s))(u \<mapsto> j2)" and j2: "attempted_job j j2" using f by auto
  have c: "(calm_step uin)\<^sup>*\<^sup>* s s2" using s1(1) s2(1) by (auto simp: quietly_def)
  have "watched uin s u" using less.prems(5) by (simp add: watched_def)
  then have wd: "watched uin s2 u" by (rule calm_steps_watched [OF c less.prems(1)])
  have same: "processJob j2 = processJob j" using j2 by (intro processJob_same) (auto simp: attempted_job_def)
  show ?case
  proof (cases "status j2 = RETRYING")
    case False
    then have "status j2 = (if processJob j = None then COMPLETED else DEAD_LETTERED)
        \<and> attempt_count j2 \<le> max (max_attempts j) (attempt_count j + 1) \<and> payload j2 = payload j \<and> jtype j2 = jtype j"
      using j2 by (auto simp: attempted_job_def attempt_status_def split: option.splits if_splits)
    with c s2(2) show ?thesis by blast
  next
    case True
    then have m: "attempt_count j + 1 < max_attempts j" using j2 by (auto simp: attempted_job_def attempt_status_def split: option.splits if_splits)
    have "room_left j2" "waits j2" "nat (max_attempts j2 - attempt_count j2) < nat (max_attempts j - attempt_count j)"
      using True m j2 less.prems(4) by (auto simp: room_left_def waits_def attempted_job_def)
    moreover from this(2) have "tracked uin s2 u" using wd s2(2) by (simp add: watched_def)
    ultimately have "room_left j2" "waits j2" "nat (max_attempts j2 - attempt_count j2) < nat (max_attempts j - attempt_count j)"
      "tracked uin s2 u" by blast+
    from less.hyps [OF this(3) calm_steps_sound [OF c less.prems(1)] _ this(2,1,4)] s2(2)
    obtain s3 j3 where "(calm_step uin)\<^sup>*\<^sup>* s2 s3" "find_job (s_db s3) = (find_job (s_db s))(u \<mapsto> j3)"
      "status j3 = (if processJob j = None then COMPLETED else DEAD_LETTERED)"
      "attempt_count j3 \<le> max (max_attempts j2) (attempt_count j2 + 1)" "payload j3 = payload j" "jtype j3 = jtype j"
      using same j2 by (auto simp: attempted_job_def)
    moreover have "max (max_attempts j2) (attempt_count j2 + 1) \<le> max (max_attempts j) (attempt_count j + 1)"
      using j2 m by (auto simp: attempted_job_def)
    ultimately show ?thesis using c by (meson order_trans rtranclp_trans)
  qed
qed

section \<open>Draining the platform\<close>

text \<open>What becomes of a waiting job when it is finished.\<close>

definition finished_as :: "job \<Rightarrow> job \<Rightarrow> bool" where
  "finished_as j j' \<longleftrightarrow> status j' = (if processJob j = None then COMPLETED else DEAD_LETTERED)
     \<and> attempt_count j' \<le> max (max_attempts j) (attempt_count j + 1)"

text \<open>Any finite set of waiting jobs that are tracked can be finished, one after the other, without touching another row.\<close>

lemma jobs_drained:
  assumes "finite U" and "sound uin drops s"
    and "\<forall>u \<in> U. tracked uin s u \<and> (\<exists>j. find_job (s_db s) u = Some j \<and> waits j \<and> room_left j)"
  shows "\<exists>s'. (calm_step uin)\<^sup>*\<^sup>* s s' \<and> (\<forall>u. if u \<in> U then rel_option finished_as (find_job (s_db s) u) (find_job (s_db s') u)
     else find_job (s_db s') u = find_job (s_db s) u)"
  using assms
proof (induction U arbitrary: s rule: finite_induct)
  case empty
  then show ?case by auto
next
  case (insert u U)
  obtain j where j: "find_job (s_db s) u = Some j" "waits j" "room_left j" and tr: "tracked uin s u" using insert.prems(2) by blast
  obtain s1 j1 where s1: "(calm_step uin)\<^sup>*\<^sup>* s s1" "find_job (s_db s1) = (find_job (s_db s))(u \<mapsto> j1)" and j1: "finished_as j j1"
    using waiting_job_finishes [OF insert.prems(1) j tr] by (auto simp: finished_as_def)
  have "tracked uin s1 v \<and> (\<exists>j. find_job (s_db s1) v = Some j \<and> waits j \<and> room_left j)" if v: "v \<in> U" for v
  proof -
    have "v \<noteq> u" using v insert.hyps(2) by blast
    then have f: "find_job (s_db s1) v = find_job (s_db s) v" using s1(2) by simp
    have "watched uin s v" using insert.prems(2) v by (simp add: watched_def)
    from calm_steps_watched [OF s1(1) insert.prems(1) this] insert.prems(2) v f show ?thesis unfolding watched_def by auto
  qed
  then obtain s2 where s2: "(calm_step uin)\<^sup>*\<^sup>* s1 s2" and r: "\<forall>v. if v \<in> U then rel_option finished_as (find_job (s_db s1) v) (find_job (s_db s2) v)
     else find_job (s_db s2) v = find_job (s_db s1) v"
    using insert.IH [OF calm_steps_sound [OF s1(1) insert.prems(1)]] by blast
  have "if v \<in> insert u U then rel_option finished_as (find_job (s_db s) v) (find_job (s_db s2) v)
     else find_job (s_db s2) v = find_job (s_db s) v" for v
    using r [rule_format, of v] s1(2) j(1) j1 insert.hyps(2) by (cases "v = u") auto
  with s1(1) s2 show ?case by (meson rtranclp_trans)
qed

lemma found_finite: "finite {u. find_job d u \<noteq> None \<and> P u}"
  by (rule finite_subset [of _ "set (map jid (jobs d))"]) (auto dest: find_job_Some)

end
