(* ===== verification/Outcomes.thy ===== *)
theory Outcomes
  imports PlatformInv
begin

text \<open>
  What a row says happened is what happened. A worker keeps the job it claimed and later records an
  outcome for whatever row then has that identifier; between the two the row can be claimed again,
  finished and replayed. The invariant of this theory ties every delivery past its claim to the row
  it will write to, and every recorded outcome to the processor's verdict on that row.
\<close>

section \<open>The invariant\<close>

text \<open>The control points between a won claim and the record of the outcome.\<close>

fun pc_claimed :: "pc \<Rightarrow> bool" where
  "pc_claimed (At_process v jj) = True"
| "pc_claimed (At_markCompleted v) = True"
| "pc_claimed (At_markDeadLettered v m) = True"
| "pc_claimed (At_markRetrying v n m) = True"
| "pc_claimed _ = False"

text \<open>What the handler believes there of the row it works for.\<close>

fun pc_truth :: "pc \<Rightarrow> job \<Rightarrow> bool" where
  "pc_truth (At_process v jj) j \<longleftrightarrow> jtype jj = jtype j \<and> payload jj = payload j"
| "pc_truth (At_markCompleted v) j \<longleftrightarrow> processJob j = None"
| "pc_truth (At_markDeadLettered v m) j \<longleftrightarrow> (\<exists>err. processJob j = Some err \<and> m = error_text err)"
| "pc_truth (At_markRetrying v n m) j \<longleftrightarrow> (\<exists>err. processJob j = Some err \<and> m = error_text err \<and> \<not> is_NonRetryableError err)"
| "pc_truth _ j \<longleftrightarrow> True"

definition outcome_ok :: "job \<Rightarrow> bool" where
  "outcome_ok j \<longleftrightarrow> (status j = COMPLETED \<longrightarrow> processJob j = None)
   \<and> (status j = DEAD_LETTERED \<longrightarrow> (\<exists>err. processJob j = Some err \<and> last_error j = Some (error_text err)))
   \<and> (status j = RETRYING \<longrightarrow> (\<exists>err. processJob j = Some err \<and> last_error j = Some (error_text err) \<and> \<not> is_NonRetryableError err))"

definition rows_truthful :: "db \<Rightarrow> bool" where
  "rows_truthful d \<longleftrightarrow> (\<forall>u j. find_job d u = Some j \<longrightarrow> outcome_ok j)"

definition pc_backed :: "uuid_input \<Rightarrow> db \<Rightarrow> pc \<Rightarrow> bool" where
  "pc_backed uin d p \<longleftrightarrow> (\<forall>u. pc_claimed p \<longrightarrow> pc_binding uin p = Inr (Some u) \<longrightarrow>
     (\<exists>j. find_job d u = Some j \<and> pc_truth p j))"

definition truthful :: "uuid_input \<Rightarrow> sys \<Rightarrow> bool" where
  "truthful uin s \<longleftrightarrow> rows_truthful (s_db s)
     \<and> (\<forall>w dl. s_active s w = Some dl \<longrightarrow> pc_backed uin (s_db s) (dl_pc dl))"

section \<open>What one step of a handler keeps\<close>

lemma pc_truth_same: "same_identity j j' \<Longrightarrow> pc_truth p j' = pc_truth p j"
  using processJob_same [of j' j] by (cases p) (auto simp: same_identity_def)

text \<open>Rows keep their identity, so what a delivery believes of its row stays true whatever others do to it.\<close>

lemma pc_backed_lives:
  assumes "lives_on d d'" and "pc_backed uin d p"
  shows "pc_backed uin d' p"
  unfolding pc_backed_def
proof (intro allI impI)
  fix u assume "pc_claimed p" "pc_binding uin p = Inr (Some u)"
  then obtain j where j: "find_job d u = Some j" "pc_truth p j" using assms(2) by (auto simp: pc_backed_def)
  then obtain j' where "find_job d' u = Some j'" "j' = j \<or> same_identity j j'" using assms(1) unfolding lives_on_def by blast
  with j(2) pc_truth_same show "\<exists>j. find_job d' u = Some j \<and> pc_truth p j" by blast
qed

lemma pc_backed_unclaimed: "\<not> pc_claimed p \<Longrightarrow> pc_backed uin d p"
  by (simp add: pc_backed_def)

lemma pc_claimed_unguarded [simp]:
  "\<not> pc_claimed (ack_unguarded a)" "\<not> pc_claimed (nack_unguarded a)" "\<not> pc_claimed (fst (backoffBeforeRequeue s))"
  "\<not> pc_claimed (fst (claim_catch a e s))" "\<not> pc_claimed (on_delivery a msg)"
  by (simp_all add: ack_unguarded_def nack_unguarded_def backoff_pc claim_catch_def on_delivery_def
      split: option.splits sum.splits)

lemma rows_truthful_effect:
  assumes "job_effect P f b d d'" and "rows_truthful d"
    and "\<And>u j. b = Inr (Some u) \<Longrightarrow> find_job d u = Some j \<Longrightarrow> outcome_ok (f j)"
  shows "rows_truthful d'"
  using assms by (auto simp: rows_truthful_def job_effect_def split: if_splits)

lemma consumer_step_rows:
  assumes ok: "schema_ok (ws_db s)" and run: "consumer_step uin a p s = (p', s')"
    and rows: "rows_truthful (ws_db s)" and bk: "pc_backed uin (ws_db s) p"
  shows "rows_truthful (ws_db s')"
proof (cases p)
  case (At_claim v)
  obtain r d where c: "claimJob uin (aw_io a) (aw_now a) v (ws_db s) = (r, d)" by fastforce
  have "ws_db s' = d" using run c At_claim
    by (cases r) (auto split: option.splits dest: arg_cong [where f = "\<lambda>y. ws_db (snd y)"])
  with claimJob_effect [OF ok c] rows show ?thesis
    by (auto intro: rows_truthful_effect simp: outcome_ok_def claim_set_def)
next
  case (At_markCompleted v)
  obtain r d where c: "markCompleted uin (aw_io a) (aw_now a) v (ws_db s) = (r, d)" by fastforce
  have "ws_db s' = d" using run c At_markCompleted
    by (cases r) (auto split: option.splits dest: arg_cong [where f = "\<lambda>y. ws_db (snd y)"])
  moreover have "outcome_ok (completed_set (aw_now a) j)" if "uin v = Inr (Some u)" "find_job (ws_db s) u = Some j" for u j
    using that bk processJob_same [of "completed_set (aw_now a) j" j]
    by (auto simp: pc_backed_def pc_binding_def At_markCompleted outcome_ok_def completed_set_def)
  ultimately show ?thesis using markCompleted_effect [OF ok c] rows rows_truthful_effect by blast
next
  case (At_markDeadLettered v m)
  obtain r d where c: "markDeadLettered uin (aw_io a) (aw_now a) v m (ws_db s) = (r, d)" by fastforce
  have "ws_db s' = d" using run c At_markDeadLettered
    by (cases r) (auto dest: arg_cong [where f = "\<lambda>y. ws_db (snd y)"])
  moreover have "outcome_ok (dead_lettered_set (aw_now a) m j)" if "uin v = Inr (Some u)" "find_job (ws_db s) u = Some j" for u j
    using that bk processJob_same [of "dead_lettered_set (aw_now a) m j" j]
    by (auto simp: pc_backed_def pc_binding_def At_markDeadLettered outcome_ok_def dead_lettered_set_def)
  ultimately show ?thesis using markDeadLettered_effect [OF ok c] rows rows_truthful_effect by blast
next
  case (At_markRetrying v n m)
  obtain r d where c: "markRetrying uin (aw_io a) (aw_now a) v m (ws_db s) = (r, d)" by fastforce
  have "ws_db s' = d" using run c At_markRetrying
    by (cases r) (auto dest: arg_cong [where f = "\<lambda>y. ws_db (snd y)"])
  moreover have "outcome_ok (retrying_set (aw_now a) m j)" if "uin v = Inr (Some u)" "find_job (ws_db s) u = Some j" for u j
    using that bk processJob_same [of "retrying_set (aw_now a) m j" j]
    by (auto simp: pc_backed_def pc_binding_def At_markRetrying outcome_ok_def retrying_set_def)
  ultimately show ?thesis using markRetrying_effect [OF ok c] rows rows_truthful_effect by blast
qed (use run rows in \<open>auto split: option.splits prod.splits sum.splits
        dest: arg_cong [where f = "\<lambda>y. ws_db (snd y)"]\<close>)

lemma consumer_step_claimed:
  "pc_claimed (fst (consumer_step uin a p s)) \<Longrightarrow> (\<exists>v. p = At_claim v) \<or> (\<exists>v jj. p = At_process v jj)"
  by (cases p) (auto split: option.splits prod.splits sum.splits)

lemma consumer_step_backed:
  assumes ok: "schema_ok (ws_db s)" and run: "consumer_step uin a p s = (p', s')" and bk: "pc_backed uin (ws_db s) p"
  shows "pc_backed uin (ws_db s') p'"
proof (cases p)
  case (At_claim v)
  obtain r d where c: "claimJob uin (aw_io a) (aw_now a) v (ws_db s) = (r, d)" by fastforce
  show ?thesis
  proof (cases "\<exists>j'. r = Inr (Some j')")
    case True
    then obtain j' where j': "r = Inr (Some j')" by blast
    from claimJob_won [OF ok c [unfolded j']] obtain u where "uin v = Inr (Some u)" "find_job d = (find_job (ws_db s))(u \<mapsto> j')"
      by metis
    with run c j' At_claim show ?thesis by (auto simp: pc_backed_def pc_binding_def)
  next
    case False
    then have "\<not> pc_claimed (fst (consumer_step uin a p s))" using c At_claim
      by (auto split: option.splits sum.splits)
    then have "\<not> pc_claimed p'" using run by simp
    then show ?thesis by (rule pc_backed_unclaimed)
  qed
next
  case (At_process v jj)
  have "pc_truth (fst (consumer_step uin a p s)) j" if "pc_truth p j" for j
    using that processJob_same [of jj j] by (auto simp: At_process classify_failure_def Let_def split: option.splits)
  with run bk At_process show ?thesis by (fastforce simp: pc_backed_def pc_binding_def split: option.splits)
qed (use run consumer_step_claimed [of uin a p s] in \<open>auto intro!: pc_backed_unclaimed simp del: consumer_step.simps\<close>)

section \<open>Every step of the platform\<close>

lemma settle_truthful:
  assumes "rows_truthful (s_db s)" and "\<And>w' dl. w' \<noteq> w \<Longrightarrow> s_active s w' = Some dl \<Longrightarrow> pc_backed uin (s_db s) (dl_pc dl)"
    and "pc_backed uin (s_db s) p"
  shows "truthful uin (settle w m att p s)"
  unfolding truthful_def
proof (intro conjI allI impI)
  fix w' dl assume a: "s_active (settle w m att p s) w' = Some dl"
  show "pc_backed uin (s_db (settle w m att p s)) (dl_pc dl)"
  proof (cases "w' = w")
    case True
    with settle_active [of w m att p s dl] a assms(3) show ?thesis by simp
  next
    case False
    with settle_other [OF False, of m att p s] a assms(2) show ?thesis by simp
  qed
qed (use assms(1) in simp)

text \<open>A step that leaves the deliveries alone and adds only rows that record nothing yet.\<close>

lemma truthful_frame:
  assumes "truthful uin s" and "lives_on (s_db s) (s_db s')" and "s_active s' = s_active s"
    and "\<And>u j. find_job (s_db s') u = Some j \<Longrightarrow> find_job (s_db s) u = Some j \<or> status j = QUEUED"
  shows "truthful uin s'"
proof -
  have "rows_truthful (s_db s')"
    using assms(1,4) by (fastforce simp: truthful_def rows_truthful_def outcome_ok_def)
  with assms(1-3) show ?thesis by (auto simp: truthful_def intro: pc_backed_lives)
qed

lemma create_truthful:
  assumes "truthful uin s" and eff: "create_effect new_id new_ev now ty pl (s_db s) d"
  shows "truthful uin (s\<lparr>s_db := d\<rparr>)"
  by (rule truthful_frame [OF assms(1)])
     (use lives_on_create [OF eff] in \<open>auto simp: create_effect_find [OF eff] new_job_def split: if_splits\<close>)

lemma replay_truthful:
  assumes "truthful uin s" and eff: "replay_effect new_ev now u j (s_db s) d"
  shows "truthful uin (s\<lparr>s_db := d\<rparr>)"
  by (rule truthful_frame [OF assms(1)])
     (use lives_on_replay [OF eff] eff in \<open>auto simp: replay_effect_def replay_set_def split: if_splits\<close>)

lemma sys_step_truthful:
  assumes "sys_step uin drops s s'" and "plat_inv uin drops s" and "truthful uin s"
  shows "truthful uin s'"
  using assms
proof (induction rule: sys_step.induct)
  case (create t new_id new_ev now ty pl s r d)
  from create.hyps(1) show ?case
    by (cases rule: createJob_cases) (use create.prems create_truthful in simp_all)
next
  case (replay t new_ev now v s r d)
  note ok = plat_invD(1) [OF replay.prems(1)]
  from ok replay.hyps show ?case
    by (cases rule: claimReplay_cases) (use replay.prems replay_truthful in simp_all)
next
  case (batch_step s k p ta a p' x)
  have "schema_ok (ds_db \<lparr>ds_db = s_db s, ds_broker = s_broker s, ds_tally = ta\<rparr>)"
    using plat_invD(1) [OF batch_step.prems(1)] by simp
  from dispatch_step_db [OF this batch_step.hyps(3)] have "find_job (ds_db x) = find_job (s_db s)" by (auto dest: frame_tables(1))
  then show ?case by (intro truthful_frame [OF batch_step.prems(2)]) (auto simp: batch_store_def intro: lives_on_same)
next
  case (worker_step s w dl a p' x)
  have ok: "schema_ok (ws_db (worker_view w s))" using plat_invD(1) [OF worker_step.prems(1)] by simp
  have bk: "pc_backed uin (ws_db (worker_view w s)) (dl_pc dl)" and rows: "rows_truthful (ws_db (worker_view w s))"
    using worker_step.prems(2) worker_step.hyps(1) by (auto simp: truthful_def)
  have l: "lives_on (s_db s) (ws_db x)"
    using consumer_step_life [OF ok worker_step.hyps(3)] by (auto intro: lives_on_one_step)
  show ?case
    by (rule settle_truthful)
       (use consumer_step_rows [OF ok worker_step.hyps(3) rows bk] consumer_step_backed [OF ok worker_step.hyps(3) bk]
         worker_step.prems(2) pc_backed_lives [OF l] in \<open>auto simp: truthful_def\<close>)
next
  case (deliver s w m a)
  then show ?case by (intro settle_truthful) (auto simp: truthful_def intro: pc_backed_unclaimed)
next
  case (worker_crash s w dl err)
  then show ?case by (intro settle_truthful) (auto simp: truthful_def intro: pc_backed_unclaimed)
qed (auto simp: truthful_def split: if_splits)

lemma sys_reach_truthful: "sys_reach uin drops s \<Longrightarrow> truthful uin s"
proof (induction rule: sys_reach.induct)
  case start
  then show ?case by (simp add: truthful_def rows_truthful_def sys_init_def find_job_def)
next
  case (step s s')
  then show ?case using sys_step_truthful sys_reach_inv by blast
qed

end
