(* ===== verification/Fairness.thy ===== *)
theory Fairness
  imports Progress Outcomes
begin

text \<open>
  Liveness of the platform over infinite runs. A run is fine when no query, publish or process of
  it fails, except that handlers whose channel was lost before cannot acknowledge; requests of clients may come at any time and may fail. It is fair when no handler and no batch
  rests at one \<open>await\<close> for ever, no message waits for ever in the jobs queue and none in the retry queue, and the
  timer of the dispatcher never stops; its clock is the \<open>now()\<close> of the database, which never goes back and passes every
  bound. Nothing is assumed about the order of deliveries, of expiries or of the steps of concurrent handlers and
  batches. Every job that waits in such a run, and that no loss of a channel has left without anything leading to it, comes to its end.
\<close>

section \<open>Weak fairness of one action\<close>

definition weakly_fair :: "('s \<Rightarrow> bool) \<Rightarrow> ('t \<Rightarrow> 's \<Rightarrow> 's \<Rightarrow> bool) \<Rightarrow> (nat \<Rightarrow> 't) \<Rightarrow> (nat \<Rightarrow> 's) \<Rightarrow> bool" where
  "weakly_fair ready act \<tau> \<sigma> \<longleftrightarrow> (\<forall>n. (\<forall>m\<ge>n. ready (\<sigma> m)) \<longrightarrow> (\<exists>m\<ge>n. act (\<tau> m) (\<sigma> m) (\<sigma> (Suc m))))"

text \<open>An action that stays ready until it is taken, whatever else is done. Weak fairness is then enough for it to be taken.\<close>

locale just_action =
  fixes step :: "'t \<Rightarrow> 's \<Rightarrow> 's \<Rightarrow> bool" and ready :: "'s \<Rightarrow> bool" and act :: "'t \<Rightarrow> 's \<Rightarrow> 's \<Rightarrow> bool"
  assumes persists: "step t s s' \<Longrightarrow> ready s \<Longrightarrow> ready s' \<or> act t s s'"
begin

lemma taken:
  assumes run: "\<And>n. step (\<tau> n) (\<sigma> n) (\<sigma> (Suc n))" and fair: "weakly_fair ready act \<tau> \<sigma>" and r: "ready (\<sigma> n)"
  obtains m where "n \<le> m" "ready (\<sigma> m)" "act (\<tau> m) (\<sigma> m) (\<sigma> (Suc m))"
proof -
  have "\<exists>m\<ge>n. ready (\<sigma> m) \<and> act (\<tau> m) (\<sigma> m) (\<sigma> (Suc m))"
  proof (rule ccontr)
    assume no: "\<not> ?thesis"
    have "ready (\<sigma> m)" if "n \<le> m" for m
      using that
    proof (induction rule: dec_induct)
      case (step m)
      then show ?case using no persists [OF run] by blast
    qed (rule r)
    with no fair show False unfolding weakly_fair_def by blast
  qed
  with that show ?thesis by blast
qed

end

text \<open>A value that, whenever it changes, raises a bounded measure, changes only finitely often.\<close>

lemma eventually_still:
  fixes x :: "nat \<Rightarrow> 'a" and h :: "'a \<Rightarrow> int"
  assumes "\<And>n. N \<le> n \<Longrightarrow> x (Suc n) = x n \<or> h (x n) < h (x (Suc n))" and "\<And>n. N \<le> n \<Longrightarrow> h (x n) \<le> B"
  obtains M where "N \<le> M" "\<And>n. M \<le> n \<Longrightarrow> x n = x M"
proof -
  obtain M where M: "N \<le> M" and least: "\<And>n. N \<le> n \<Longrightarrow> nat (B - h (x M)) \<le> nat (B - h (x n))"
    using ex_has_least_nat [of "\<lambda>n. N \<le> n" N "\<lambda>n. nat (B - h (x n))"] by auto
  have "x n = x M" if "M \<le> n" for n
    using that
  proof (induction rule: dec_induct)
    case (step n)
    then have "h (x n) < h (x (Suc n)) \<Longrightarrow> False" using least [of "Suc n"] assms(2) [of "Suc n"] M by auto
    with assms(1) [of n] step M show ?case by auto
  qed simp
  with M that show ?thesis by blast
qed

lemma shrinking_still:
  fixes P :: "nat \<Rightarrow> 'a set"
  assumes "\<And>n. N \<le> n \<Longrightarrow> P (Suc n) \<subseteq> P n" and "\<And>n. finite (P n)"
  obtains M where "N \<le> M" "\<And>n. M \<le> n \<Longrightarrow> P n = P M"
proof -
  have "P (Suc n) = P n \<or> - int (card (P n)) < - int (card (P (Suc n)))" if "N \<le> n" for n
    using assms(1) [OF that] psubset_card_mono [OF assms(2), of "P (Suc n)" n] by auto
  from eventually_still [where h = "\<lambda>A. - int (card A)" and x = P and B = 0, OF this] that show ?thesis by auto
qed

section \<open>Fine steps\<close>

definition fine_await :: "timestamp \<Rightarrow> dispatch_await" where
  "fine_await t = \<lparr>da_io = Io_ok, da_now = t, da_pub = Pub_ok, da_locked = []\<rparr>"

text \<open>The \<open>await\<close> of a handler at which nothing fails, except that a channel lost before cannot acknowledge.\<close>

definition channel_closed :: js_error where
  "channel_closed = JsError ''IllegalOperationError'' ''Channel closed'' None"

definition calm_on :: "bool \<Rightarrow> timestamp \<Rightarrow> await" where
  "calm_on att t = (if att then calm t else (calm t)\<lparr>aw_ack := Some channel_closed, aw_nack := Some channel_closed\<rparr>)"

lemma calm_on_simps [simp]:
  "calm_on True t = calm t" "aw_io (calm_on att t) = Io_ok" "aw_now (calm_on att t) = t" "aw_pub (calm_on att t) = Pub_ok"
  "env_ok att (calm_on att t)"
  by (simp_all add: calm_on_def env_ok_def fault_genuine_def)

definition handler_acts :: "uuid_input \<Rightarrow> nat \<Rightarrow> timestamp \<Rightarrow> sys \<Rightarrow> sys \<Rightarrow> bool" where
  "handler_acts uin w t s s' \<longleftrightarrow> (\<exists>dl p' x. s_active s w = Some dl
     \<and> consumer_step uin (calm_on (dl_attached dl) t) (dl_pc dl) (worker_view w s) = (p', x)
     \<and> s' = settle w (dl_message dl) (dl_attached dl) p' (worker_commit w x s))"

lemma handler_actsE:
  assumes "handler_acts uin w t s s'"
  obtains dl p' x where "s_active s w = Some dl" "consumer_step uin (calm_on (dl_attached dl) t) (dl_pc dl) (worker_view w s) = (p', x)"
    "s' = settle w (dl_message dl) (dl_attached dl) p' (worker_commit w x s)"
  using assms unfolding handler_acts_def by blast

definition batch_acts :: "nat \<Rightarrow> timestamp \<Rightarrow> sys \<Rightarrow> sys \<Rightarrow> bool" where
  "batch_acts k t s s' \<longleftrightarrow> (\<exists>p ta p' x. s_batch s k = Some (p, ta)
     \<and> dispatch_step (fine_await t) p \<lparr>ds_db = s_db s, ds_broker = s_broker s, ds_tally = ta\<rparr> = (p', x)
     \<and> s' = batch_store k p' x s)"

definition batch_begins :: "timestamp \<Rightarrow> sys \<Rightarrow> sys \<Rightarrow> bool" where
  "batch_begins t s s' \<longleftrightarrow> (\<exists>k. s_batch s k = None \<and> s' = s\<lparr>s_batch := (s_batch s)(k \<mapsto> (D_claim, empty_tally))\<rparr>)"

definition message_taken :: "publication \<Rightarrow> timestamp \<Rightarrow> sys \<Rightarrow> sys \<Rightarrow> bool" where
  "message_taken m t s s' \<longleftrightarrow> (\<exists>w. s_active s w = None \<and> m \<in> set (queue (s_broker s) QUEUE_NAME)
     \<and> s' = settle w m True (on_delivery (calm t) (Some (pub_body m))) (s\<lparr>s_broker := take_message m (s_broker s)\<rparr>))"

definition delay_over :: "publication \<Rightarrow> timestamp \<Rightarrow> sys \<Rightarrow> sys \<Rightarrow> bool" where
  "delay_over m t s s' \<longleftrightarrow> m \<in> set (queue (s_broker s) RETRY_QUEUE_NAME)
     \<and> s' = s\<lparr>s_broker := expire RETRY_QUEUE_NAME m (s_broker s)\<rparr>"

inductive fine_step :: "uuid_input \<Rightarrow> timestamp \<Rightarrow> sys \<Rightarrow> sys \<Rightarrow> bool" for uin t where
  client_creates: "createJob tx new_id new_ev t ty pl (s_db s) = (r, d) \<Longrightarrow>
     uin (Some (JStr new_id)) = Inr (Some new_id) \<Longrightarrow> fine_step uin t s (s\<lparr>s_db := d\<rparr>)"
| client_replays: "claimReplay uin tx new_ev t v (s_db s) = (r, d) \<Longrightarrow> fine_step uin t s (s\<lparr>s_db := d\<rparr>)"
| timer: "batch_begins t s s' \<Longrightarrow> fine_step uin t s s'"
| batch: "batch_acts k t s s' \<Longrightarrow> fine_step uin t s s'"
| delivery: "message_taken m t s s' \<Longrightarrow> fine_step uin t s s'"
| handler: "handler_acts uin w t s s' \<Longrightarrow> fine_step uin t s s'"
| expiry: "delay_over m t s s' \<Longrightarrow> fine_step uin t s s'"
| nothing: "fine_step uin t s s"

lemma fine_is_step: "fine_step uin t s s' \<Longrightarrow> s' = s \<or> sys_step uin drops s s'"
proof (induction rule: fine_step.induct)
  case (batch k s s')
  then show ?case unfolding batch_acts_def
    by (auto intro!: sys_step.batch_step [where a = "fine_await t"] simp: fine_await_def)
next
  case (handler w s s')
  then show ?case unfolding handler_acts_def using sys_step.worker_step calm_on_simps(5) by fastforce
next
  case (delivery m s s')
  then show ?case unfolding message_taken_def using sys_step.deliver env_ok_calm by blast
qed (auto simp: batch_begins_def delay_over_def intro: sys_step.intros)


section \<open>Every action stays ready until it is taken\<close>

lemma expire_keeps:
  "x \<in> set (queue b q) \<Longrightarrow> q \<noteq> r \<or> x \<noteq> m \<Longrightarrow> x \<in> set (queue (expire r m b) q)"
  by (auto simp: expire_def Let_def queue_route in_set_remove1 split: option.splits)

lemma request_frame:
  assumes "fine_step uin t s s'"
  obtains (request) "s_active s' = s_active s" "s_batch s' = s_batch s" "s_broker s' = s_broker s"
  | (timer) "batch_begins t s s'" | (batch) k where "batch_acts k t s s'" | (delivery) m where "message_taken m t s s'"
  | (handler) w where "handler_acts uin w t s s'" | (expiry) m where "delay_over m t s s'"
  using assms by (cases rule: fine_step.cases) auto

interpretation handler: just_action "fine_step uin" "\<lambda>s. s_active s w = Some dl" "handler_acts uin w" for uin w dl
proof
  fix t s s' assume "fine_step uin t s s'" and r: "s_active s w = Some dl"
  then show "s_active s' w = Some dl \<or> handler_acts uin w t s s'"
  proof (cases rule: request_frame)
    case (handler w')
    with r show ?thesis unfolding handler_acts_def by (metis settle_other worker_commit_simps(3))
  next
    case (delivery m)
    then obtain w' where w': "s_active s w' = None"
      "s' = settle w' m True (on_delivery (calm t) (Some (pub_body m))) (s\<lparr>s_broker := take_message m (s_broker s)\<rparr>)"
      unfolding message_taken_def by blast
    then have "w \<noteq> w'" using r by auto
    with r w'(2) show ?thesis by (simp add: settle_other)
  qed (use r in \<open>auto simp: batch_begins_def batch_acts_def batch_store_def delay_over_def\<close>)
qed

interpretation batch: just_action "fine_step uin" "\<lambda>s. s_batch s k = Some b" "batch_acts k" for uin k b
proof
  fix t s s' assume "fine_step uin t s s'" and r: "s_batch s k = Some b"
  then show "s_batch s' k = Some b \<or> batch_acts k t s s'"
  proof (cases rule: request_frame)
    case (batch k')
    with r show ?thesis by (cases "k' = k") (auto simp: batch_acts_def batch_store_def)
  qed (use r in \<open>auto simp: batch_begins_def message_taken_def handler_acts_def delay_over_def\<close>)
qed

lemma batch_acts_grows: "batch_acts k t s s' \<Longrightarrow> m \<in> set (queue (s_broker s) q) \<Longrightarrow> m \<in> set (queue (s_broker s') q)"
  unfolding batch_acts_def using dispatch_step_broker by (fastforce simp: batch_store_def)

lemma handler_acts_grows: "handler_acts uin w t s s' \<Longrightarrow> m \<in> set (queue (s_broker s) q) \<Longrightarrow> m \<in> set (queue (s_broker s') q)"
  unfolding handler_acts_def using consumer_step_grows settle_grows by fastforce

interpretation message: just_action "fine_step uin" "\<lambda>s. m \<in> set (queue (s_broker s) QUEUE_NAME)" "message_taken m" for uin m
proof
  fix t s s' assume "fine_step uin t s s'" and r: "m \<in> set (queue (s_broker s) QUEUE_NAME)"
  then show "m \<in> set (queue (s_broker s') QUEUE_NAME) \<or> message_taken m t s s'"
  proof (cases rule: request_frame)
    case (delivery m')
    show ?thesis
    proof (cases "m' = m")
      case False
      with r have "m \<in> set (queue (take_message m' (s_broker s)) QUEUE_NAME)" by (simp add: take_message_def in_set_remove1)
      with delivery settle_grows show ?thesis unfolding message_taken_def by fastforce
    qed (use delivery in simp)
  next
    case (expiry m')
    with r expire_keeps [of m "s_broker s" QUEUE_NAME RETRY_QUEUE_NAME m'] show ?thesis by (simp add: delay_over_def)
  qed (use r in \<open>auto simp: batch_begins_def intro: batch_acts_grows handler_acts_grows\<close>)
qed

interpretation delay: just_action "fine_step uin" "\<lambda>s. m \<in> set (queue (s_broker s) RETRY_QUEUE_NAME)" "delay_over m" for uin m
proof
  fix t s s' assume "fine_step uin t s s'" and r: "m \<in> set (queue (s_broker s) RETRY_QUEUE_NAME)"
  then show "m \<in> set (queue (s_broker s') RETRY_QUEUE_NAME) \<or> delay_over m t s s'"
  proof (cases rule: request_frame)
    case (delivery m')
    have "m \<in> set (queue (take_message m' (s_broker s)) RETRY_QUEUE_NAME)" using r by (simp add: take_message_def)
    with delivery settle_grows show ?thesis unfolding message_taken_def by fastforce
  next
    case (expiry m')
    show ?thesis
    proof (cases "m' = m")
      case False
      with expiry r expire_keeps [of m "s_broker s" RETRY_QUEUE_NAME RETRY_QUEUE_NAME m'] show ?thesis by (simp add: delay_over_def)
    qed (use expiry in simp)
  qed (use r in \<open>auto simp: batch_begins_def intro: batch_acts_grows handler_acts_grows\<close>)
qed

section \<open>Fair runs\<close>

definition fair_run :: "uuid_input \<Rightarrow> (nat \<Rightarrow> timestamp) \<Rightarrow> (nat \<Rightarrow> sys) \<Rightarrow> bool" where
  "fair_run uin \<tau> \<sigma> \<longleftrightarrow> (\<forall>n. fine_step uin (\<tau> n) (\<sigma> n) (\<sigma> (Suc n)))
   \<and> mono \<tau> \<and> (\<forall>T. \<exists>n. T \<le> \<tau> n)
   \<and> (\<forall>w dl. weakly_fair (\<lambda>s. s_active s w = Some dl) (handler_acts uin w) \<tau> \<sigma>)
   \<and> (\<forall>k b. weakly_fair (\<lambda>s. s_batch s k = Some b) (batch_acts k) \<tau> \<sigma>)
   \<and> (\<forall>m. weakly_fair (\<lambda>s. m \<in> set (queue (s_broker s) QUEUE_NAME)) (message_taken m) \<tau> \<sigma>)
   \<and> (\<forall>m. weakly_fair (\<lambda>s. m \<in> set (queue (s_broker s) RETRY_QUEUE_NAME)) (delay_over m) \<tau> \<sigma>)
   \<and> (\<forall>n. \<exists>m\<ge>n. batch_begins (\<tau> m) (\<sigma> m) (\<sigma> (Suc m)))"


text \<open>A fair run with one more step in front of it is fair.\<close>

lemma weakly_fair_Cons:
  assumes "weakly_fair ready act \<tau> \<sigma>"
  shows "weakly_fair ready act (case_nat t \<tau>) (case_nat s \<sigma>)"
  unfolding weakly_fair_def
proof (intro allI impI)
  fix n assume r: "\<forall>m\<ge>n. ready (case_nat s \<sigma> m)"
  have "ready (\<sigma> m)" if "n \<le> m" for m using r [rule_format, of "Suc m"] that by simp
  then obtain m where "n \<le> m" "act (\<tau> m) (\<sigma> m) (\<sigma> (Suc m))" using assms unfolding weakly_fair_def by blast
  then show "\<exists>m\<ge>n. act (case_nat t \<tau> m) (case_nat s \<sigma> m) (case_nat s \<sigma> (Suc m))" by (intro exI [of _ "Suc m"]) simp
qed

lemma fair_run_Cons:
  assumes fair: "fair_run uin \<tau> \<sigma>" and st: "fine_step uin t s (\<sigma> 0)" and t: "t \<le> \<tau> 0"
  shows "fair_run uin (case_nat t \<tau>) (case_nat s \<sigma>)"
proof -
  have "fine_step uin (case_nat t \<tau> n) (case_nat s \<sigma> n) (case_nat s \<sigma> (Suc n))" for n
    using fair st by (cases n) (simp_all add: fair_run_def)
  moreover have "mono (case_nat t \<tau>)"
  proof (rule monoI)
    fix x y :: nat assume "x \<le> y"
    moreover have "mono \<tau>" using fair by (simp add: fair_run_def)
    ultimately show "case_nat t \<tau> x \<le> case_nat t \<tau> y"
      using t order_trans [OF t monoD [of \<tau> 0]] by (cases x; cases y) (auto dest: monoD)
  qed
  moreover have "\<exists>n. T \<le> case_nat t \<tau> n" for T
  proof -
    obtain n where "T \<le> \<tau> n" using fair unfolding fair_run_def by blast
    then show ?thesis by (intro exI [of _ "Suc n"]) simp
  qed
  moreover have "\<exists>m\<ge>n. batch_begins (case_nat t \<tau> m) (case_nat s \<sigma> m) (case_nat s \<sigma> (Suc m))" for n
  proof -
    obtain m where "n \<le> m" "batch_begins (\<tau> m) (\<sigma> m) (\<sigma> (Suc m))" using fair unfolding fair_run_def by blast
    then show ?thesis by (intro exI [of _ "Suc m"]) simp
  qed
  ultimately show ?thesis
    using fair unfolding fair_run_def by (simp add: weakly_fair_Cons del: nat.case)
qed

section \<open>What a fine step does to the outbox\<close>

text \<open>The event is in the hands of a batch that has seen no failure.\<close>

definition publishing :: "sys \<Rightarrow> uuid \<Rightarrow> bool" where
  "publishing s i \<longleftrightarrow> (\<exists>k ev rest ta. (s_batch s k = Some (D_publish ev rest, ta) \<or> s_batch s k = Some (D_markPublished ev rest, ta))
     \<and> i \<in> ev_id ` set (ev # rest))"

definition event_pending :: "sys \<Rightarrow> uuid \<Rightarrow> bool" where
  "event_pending s i \<longleftrightarrow> (\<exists>e \<in> set (outbox_events (s_db s)). ev_id e = i \<and> pending e)"

definition older_pending :: "timestamp \<Rightarrow> sys \<Rightarrow> uuid set" where
  "older_pending c s = ev_id ` {e \<in> set (outbox_events (s_db s)). pending e \<and> ev_created_at e \<le> c}"

definition own_pending :: "uuid \<Rightarrow> sys \<Rightarrow> uuid set" where
  "own_pending u s = ev_id ` {e \<in> set (outbox_events (s_db s)). pending e \<and> ev_job_id e = u}"

lemma pending_finite [simp]: "finite (older_pending c s)" "finite (own_pending u s)"
  by (simp_all add: older_pending_def own_pending_def)

lemma fine_await_simps [simp]:
  "da_io (fine_await t) = Io_ok" "da_now (fine_await t) = t" "da_pub (fine_await t) = Pub_ok" "da_locked (fine_await t) = []"
  by (simp_all add: fine_await_def)

lemma batch_acts_claim:
  assumes "batch_acts k t s s'" and "s_batch s k = Some (D_claim, ta)"
  obtains ret d where "claimPendingOutboxEvents t [] BATCH_SIZE (s_db s) = Inr (ret, d)" "s_db s' = d"
    "s_batch s' k = (case ret of [] \<Rightarrow> None | e # rest \<Rightarrow> Some (D_publish e rest, empty_tally\<lparr>attempted := length ret\<rparr>))"
proof -
  obtain ret d where c: "claimPendingOutboxEvents t [] BATCH_SIZE (s_db s) = Inr (ret, d)"
    by (simp add: claimPendingOutboxEvents_def Let_def sql_update_def)
  show ?thesis
    by (rule that [OF c]) (use assms c in \<open>auto simp: batch_acts_def batch_store_def next_event_def split: list.splits\<close>)
qed

lemma batch_acts_publish:
  assumes "batch_acts k t s s'" and "s_batch s k = Some (D_publish ev rest, ta)"
  shows "s_db s' = s_db s" "s_batch s' k = Some (D_markPublished ev rest, ta)"
  using assms by (auto simp: batch_acts_def batch_store_def publishJobCreated_def publish_or_throw_def channel_publish_def)

lemma batch_acts_mark:
  assumes "batch_acts k t s s'" and "s_batch s k = Some (D_markPublished ev rest, ta)"
  obtains ta' where "outbox_events (s_db s') = published_rows t {ev_id ev} (outbox_events (s_db s))"
    "s_batch s' k = (case rest of [] \<Rightarrow> None | e # rest \<Rightarrow> Some (D_publish e rest, ta'))"
  by (rule that [of "ta\<lparr>published := published ta + 1\<rparr>"])
     (use assms in \<open>auto simp: batch_acts_def batch_store_def markOutboxPublished_def sql_update_def published_rows_def next_event_def
        split: list.splits\<close>)

lemma batch_acts_event:
  assumes act: "batch_acts k t s s'" and e': "e' \<in> set (outbox_events (s_db s'))" "pending e'"
  shows "\<exists>e \<in> set (outbox_events (s_db s)). pending e \<and> ev_id e' = ev_id e \<and> ev_job_id e' = ev_job_id e
    \<and> ev_created_at e' = ev_created_at e \<and> (claimed_at e' = claimed_at e \<or> claimed_at e' = None \<or> publishing s' (ev_id e'))"
proof -
  obtain p ta where p: "s_batch s k = Some (p, ta)" using act by (auto simp: batch_acts_def)
  show ?thesis
  proof (cases p)
    case D_claim
    obtain ret d where c: "claimPendingOutboxEvents t [] BATCH_SIZE (s_db s) = Inr (ret, d)" "s_db s' = d"
      "s_batch s' k = (case ret of [] \<Rightarrow> None | e # rest \<Rightarrow> Some (D_publish e rest, empty_tally\<lparr>attempted := length ret\<rparr>))"
      by (rule batch_acts_claim [OF act p [unfolded D_claim]])
    let ?in = "\<lambda>e. ev_id e \<in> set (select_claimable t [] BATCH_SIZE (outbox_events (s_db s)))"
    note r = claimPending_returned [OF c(1)]
    obtain e where e: "e \<in> set (outbox_events (s_db s))" "e' = (if ?in e then e\<lparr>claimed_at := Some t\<rparr> else e)"
      using e' r(2) c(2) by (auto simp: sql_update_def)
    have "publishing s' (ev_id e)" if "?in e"
    proof -
      have "e\<lparr>claimed_at := Some t\<rparr> \<in> set ret" unfolding r(1) using that e(1) by simp
      from imageI [OF this, of ev_id] have "ev_id e \<in> ev_id ` set ret" by simp
      with c(3) show ?thesis unfolding publishing_def by (cases ret) fastforce+
    qed
    moreover have "ev_id e' = ev_id e \<and> ev_job_id e' = ev_job_id e \<and> ev_created_at e' = ev_created_at e
        \<and> published_at e' = published_at e \<and> (?in e \<or> claimed_at e' = claimed_at e)" by (simp add: e(2))
    ultimately show ?thesis using e(1) e'(2) by (intro bexI [of _ e]) (auto simp: pending_def)
  next
    case (D_publish ev rest)
    with batch_acts_publish [OF act] p e' show ?thesis by auto
  next
    case (D_markPublished ev rest)
    obtain ta' where "outbox_events (s_db s') = published_rows t {ev_id ev} (outbox_events (s_db s))"
      using batch_acts_mark [OF act p [unfolded D_markPublished]] by metis
    with e' show ?thesis by (force simp: published_rows_def pending_def split: if_splits)
  next
    case (D_markFailed ev m rest)
    obtain p' x where "dispatch_step (fine_await t) p \<lparr>ds_db = s_db s, ds_broker = s_broker s, ds_tally = ta\<rparr> = (p', x)"
      "s_db s' = ds_db x" using act p by (auto simp: batch_acts_def batch_store_def)
    then have "outbox_events (s_db s') = outbox_events (s_db s) \<or> outbox_events (s_db s') = map (\<lambda>e. if ev_id e = ev_id ev
        then e\<lparr>claimed_at := None, attempts := attempts e + 1, ev_last_error := Some m\<rparr> else e) (outbox_events (s_db s))"
      using D_markFailed by (auto simp: markOutboxFailed_def sql_update_def split: if_splits)
    with e' show ?thesis by (force simp: pending_def split: if_splits)
  qed (use act p e' in \<open>auto simp: batch_acts_def batch_store_def\<close>)
qed

text \<open>A pending event was pending before, or is new: then it bears the time of the step, and its job is new or dead-lettered.\<close>

lemma fine_step_event:
  assumes st: "fine_step uin t s s'" and inv: "plat_inv uin drops s" and e': "e' \<in> set (outbox_events (s_db s'))" "pending e'"
  obtains (old) e where "e \<in> set (outbox_events (s_db s))" "pending e" "ev_id e' = ev_id e" "ev_job_id e' = ev_job_id e"
      "ev_created_at e' = ev_created_at e" "claimed_at e' = claimed_at e \<or> claimed_at e' = None \<or> publishing s' (ev_id e')"
  | (new) "ev_created_at e' = t" "ev_id e' \<notin> set (map ev_id (outbox_events (s_db s)))"
      "\<And>j. find_job (s_db s) (ev_job_id e') = Some j \<Longrightarrow> status j = DEAD_LETTERED"
  using st
proof (cases rule: fine_step.cases)
  case (client_creates tx new_id new_ev ty pl r d)
  from client_creates(2) show ?thesis
  proof (cases rule: createJob_cases)
    case (aborted e)
    then show ?thesis using old e' client_creates(1) by simp
  qed (use old new e' client_creates(1) in \<open>auto simp: create_effect_def new_event_def find_job_None [symmetric] simp del: set_map\<close>)
next
  case (client_replays tx new_ev v r d)
  from plat_invD(1) [OF inv] client_replays(2) show ?thesis
    by (cases rule: claimReplay_cases) (use old new e' client_replays(1) in \<open>auto simp: replay_effect_def new_event_def\<close>)
next
  case (batch k)
  then show ?thesis using old batch_acts_event [OF _ e'] by blast
next
  case (handler w)
  then obtain dl p' x where "s_active s w = Some dl"
    and h: "consumer_step uin (calm_on (dl_attached dl) t) (dl_pc dl) (worker_view w s) = (p', x)"
      "s' = settle w (dl_message dl) (dl_attached dl) p' (worker_commit w x s)" by (rule handler_actsE)
  have "schema_ok (ws_db (worker_view w s))" using plat_invD(1) [OF inv] by simp
  from consumer_step_life [OF this h(1)] have "outbox_events (ws_db x) = outbox_events (s_db s)"
    using one_life_step_frame(1) by fastforce
  with h(2) e' old show ?thesis by simp
qed (use old e' in \<open>auto simp: batch_begins_def message_taken_def delay_over_def\<close>)


section \<open>The row of a job, step by step\<close>

text \<open>Every change of an unfinished row to an unfinished row raises this measure, and the \<open>INT\<close> column bounds it.\<close>

definition row_measure :: "job option \<Rightarrow> int" where
  "row_measure r = (case r of None \<Rightarrow> 0 | Some j \<Rightarrow> 2 * total_attempt_count j - (if status j = PROCESSING then 1 else 0))"

definition unfinished :: "job \<Rightarrow> bool" where
  "unfinished j \<longleftrightarrow> status j \<in> {QUEUED, PROCESSING, RETRYING}"

lemma unfinished_step:
  assumes "life_step (life_of j) e (life_of j')" and "unfinished j" "unfinished j'"
  shows "row_measure (Some j) < row_measure (Some j')"
    and "status j' = PROCESSING \<Longrightarrow> e = Claim"
  using assms by (auto simp: life_step_simps row_measure_def unfinished_def life_of_def elim!: life_step.cases)

definition held :: "uuid_input \<Rightarrow> sys \<Rightarrow> uuid \<Rightarrow> bool" where
  "held uin s u \<longleftrightarrow> (\<exists>w dl. s_active s w = Some dl \<and> pc_claimed (dl_pc dl) \<and> pc_binding uin (dl_pc dl) = Inr (Some u))"

text \<open>Only handlers change the row of a job that is not dead-lettered, and they change the row they work for.\<close>

lemma fine_step_row:
  assumes st: "fine_step uin t s s'" and inv: "plat_inv uin drops s"
    and j: "find_job (s_db s) u = Some j" "status j \<noteq> DEAD_LETTERED" and ch: "find_job (s_db s') u \<noteq> Some j"
  obtains w dl p' x e j' where "s_active s w = Some dl" "consumer_step uin (calm_on (dl_attached dl) t) (dl_pc dl) (worker_view w s) = (p', x)"
    "s' = settle w (dl_message dl) (dl_attached dl) p' (worker_commit w x s)" "pc_binding uin (dl_pc dl) = Inr (Some u)"
    "pc_event (dl_pc dl) e" "find_job (s_db s') u = Some j'" "life_step (life_of j) e (life_of j')"
  using st
proof (cases rule: fine_step.cases)
  case (client_creates tx new_id new_ev ty pl r d)
  from client_creates(2) have "find_job d u = Some j"
    by (cases rule: createJob_cases) (use j find_job_None [of "s_db s" u] in \<open>auto simp: create_effect_find create_effect_def\<close>)
  with client_creates(1) ch show ?thesis by simp
next
  case (client_replays tx new_ev v r d)
  from plat_invD(1) [OF inv] client_replays(2) have "find_job d u = Some j"
    by (cases rule: claimReplay_cases) (use j in \<open>auto simp: replay_effect_def\<close>)
  with client_replays(1) ch show ?thesis by simp
next
  case (batch k)
  then obtain p ta p' x where b: "dispatch_step (fine_await t) p \<lparr>ds_db = s_db s, ds_broker = s_broker s, ds_tally = ta\<rparr> = (p', x)"
    "s' = batch_store k p' x s" unfolding batch_acts_def by blast
  have "schema_ok (ds_db \<lparr>ds_db = s_db s, ds_broker = s_broker s, ds_tally = ta\<rparr>)" using plat_invD(1) [OF inv] by simp
  from dispatch_step_db [OF this b(1)] have "find_job (ds_db x) = find_job (s_db s)" by (auto dest: frame_tables(1))
  with b(2) ch j show ?thesis by (simp add: batch_store_def)
next
  case (handler w)
  then obtain dl p' x where h: "s_active s w = Some dl" "consumer_step uin (calm_on (dl_attached dl) t) (dl_pc dl) (worker_view w s) = (p', x)"
    "s' = settle w (dl_message dl) (dl_attached dl) p' (worker_commit w x s)" by (rule handler_actsE)
  have "schema_ok (ws_db (worker_view w s))" using plat_invD(1) [OF inv] by simp
  from consumer_step_life [OF this h(2)] have "one_life_step (pc_event (dl_pc dl)) (pc_binding uin (dl_pc dl)) (s_db s) (ws_db x)" by simp
  then obtain e j' where "pc_binding uin (dl_pc dl) = Inr (Some u)" "pc_event (dl_pc dl) e" "find_job (ws_db x) u = Some j'"
    "life_step (life_of j) e (life_of j')"
    using ch j h(3) unfolding one_life_step_def by (auto split: if_splits)
  with that [OF h] h(3) show ?thesis by simp
qed (use j ch in \<open>auto simp: batch_begins_def message_taken_def delay_over_def\<close>)

text \<open>A handler that holds a job in \<open>PROCESSING\<close> goes on to record its outcome.\<close>

lemma holder_acts:
  assumes inv: "plat_inv uin drops s" and act: "handler_acts uin w t s s'" and dl: "s_active s w = Some dl" "pc_claimed (dl_pc dl)"
    and v: "pc_binding uin (dl_pc dl) = Inr (Some u)" and j: "find_job (s_db s) u = Some j" "status j = PROCESSING"
  shows "(\<exists>v jj dl'. dl_pc dl = At_process v jj \<and> s_active s' w = Some dl' \<and> pc_claimed (dl_pc dl') \<and> pc_rank (dl_pc dl') < pc_rank (dl_pc dl)
        \<and> pc_binding uin (dl_pc dl') = Inr (Some u))
    \<or> (\<exists>j'. find_job (s_db s') u = Some j' \<and> status j' \<noteq> PROCESSING)"
proof -
  obtain p' x where h: "consumer_step uin (calm_on (dl_attached dl) t) (dl_pc dl) (worker_view w s) = (p', x)"
    "s' = settle w (dl_message dl) (dl_attached dl) p' (worker_commit w x s)" using handler_actsE [OF act] dl(1) by (metis option.inject)
  have ok: "schema_ok (ws_db (worker_view w s))" using plat_invD(1) [OF inv] by simp
  have jw: "find_job (ws_db (worker_view w s)) u = Some j" "in_processing j" using j by (simp_all add: in_processing_def)
  show ?thesis
  proof (cases "dl_pc dl")
    case (At_process v0 jj)
    with h(1) have p': "p' = (case processJob jj of None \<Rightarrow> At_markCompleted v0 | Some err \<Rightarrow> classify_failure v0 jj err)"
      by (auto split: option.splits)
    then have c: "pc_claimed p'" "pc_job p' = Some v0" "pc_rank p' = 3"
      by (auto simp: classify_failure_def Let_def split: option.splits)
    from c(1) have "s_active s' w = Some \<lparr>dl_message = dl_message dl, dl_pc = p', dl_attached = dl_attached dl\<rparr>"
      unfolding h(2) by (cases p') (simp_all add: settle_def)
    with c v At_process show ?thesis by (auto simp: pc_binding_def)
  next
    case (At_markCompleted v0)
    then have "uin v0 = Inr (Some u)" using v by (simp add: pc_binding_def)
    from markCompleted_hit [where uin = uin and v = v0 and now = t, OF ok this jw] h At_markCompleted
    show ?thesis by (auto simp: completed_set_def backoffBeforeRequeue_def Let_def split: option.splits)
  next
    case (At_markDeadLettered v0 m)
    then have "uin v0 = Inr (Some u)" using v by (simp add: pc_binding_def)
    from markDeadLettered_hit [where uin = uin and v = v0 and now = t and m = m, OF ok this jw] h At_markDeadLettered
    show ?thesis by (auto simp: dead_lettered_set_def)
  next
    case (At_markRetrying v0 n m)
    then have "uin v0 = Inr (Some u)" using v by (simp add: pc_binding_def)
    from markRetrying_hit [where uin = uin and v = v0 and now = t and m = m, OF ok this jw] h At_markRetrying
    show ?thesis by (auto simp: retrying_set_def)
  qed (use dl(2) in simp_all)
qed

text \<open>A claim that changes the row leaves its handler in charge of it.\<close>

lemma claim_held:
  assumes inv: "plat_inv uin drops s" and act: "consumer_step uin (calm_on att t) (At_claim v) (worker_view w s) = (p', x)"
    and v: "uin v = Inr (Some u)" and ch: "find_job (ws_db x) u \<noteq> find_job (s_db s) u"
  shows "held uin (settle w m att p' (worker_commit w x s)) u"
proof -
  obtain r d where c: "claimJob uin Io_ok t v (s_db s) = (r, d)" by fastforce
  have d: "ws_db x = d" using act c
    by (cases r) (auto split: option.splits dest: arg_cong [where f = "\<lambda>y. ws_db (snd y)"])
  have "r \<noteq> Inr None" using claimJob_lost_race [of uin Io_ok t v "s_db s" d] c d ch by auto
  moreover have "r \<noteq> Inl e" for e using c d ch by (auto simp: claimJob_def query_def split: sum.splits prod.splits)
  ultimately obtain jj where "r = Inr (Some jj)" by (cases r) auto
  with act c have "p' = At_process v jj" by simp
  then show ?thesis using v by (auto simp: held_def settle_def pc_binding_def)
qed

section \<open>A waiting job is followed\<close>

text \<open>
  A handler whose channel was lost cannot put its message back, but it still publishes: a job that it has marked for a retry
  is in its hands until it has published the message. A job is followed if it is tracked or in such hands.
\<close>

definition in_hands :: "uuid_input \<Rightarrow> sys \<Rightarrow> uuid \<Rightarrow> bool" where
  "in_hands uin s u \<longleftrightarrow> (\<exists>w dl v n. s_active s w = Some dl \<and> dl_pc dl = At_publishRetry v n \<and> uin v = Inr (Some u))"

definition followed :: "uuid_input \<Rightarrow> sys \<Rightarrow> uuid \<Rightarrow> bool" where
  "followed uin s u \<longleftrightarrow> tracked uin s u \<or> in_hands uin s u"

lemma publish_tracks:
  assumes top: "topology_ready (s_broker s)" and v: "uin v = Inr (Some u)"
    and run: "consumer_step uin (calm_on att t) (At_publishRetry v n) (worker_view w s) = (p', x)"
  shows "job_retry_message v n \<in> set (queue (s_broker (settle w m att p' (worker_commit w x s))) RETRY_QUEUE_NAME)"
    and "tracked uin (settle w m att p' (worker_commit w x s)) u"
proof -
  have "job_retry_message v n \<in> set (queue (ws_broker x) RETRY_QUEUE_NAME)"
    using run top by (auto simp: publishRetry_def publish_or_throw_def channel_publish_def queue_route topology_ready_def job_retry_message_def)
  then show q: "job_retry_message v n \<in> set (queue (s_broker (settle w m att p' (worker_commit w x s))) RETRY_QUEUE_NAME)"
    using settle_grows [of "worker_commit w x s" RETRY_QUEUE_NAME w m att p'] by auto
  then show "tracked uin (settle w m att p' (worker_commit w x s)) u"
    using names_job_retry [where uin = uin and v = v, OF v] by (auto simp: tracked_def has_message_def)
qed

lemma fine_retry_in_hands:
  assumes ok: "schema_ok (ws_db s)" and run: "consumer_step uin (calm_on att t) p s = (p', s')"
    and j: "find_job (ws_db s') u = Some j" "waits j" "find_job (ws_db s) u \<noteq> Some j"
  shows "\<exists>v n. p' = At_publishRetry v n \<and> uin v = Inr (Some u)"
proof -
  from consumer_step_life [OF ok run] j obtain u0 j0 j' e where l: "pc_binding uin p = Inr (Some u0)" "find_job (ws_db s) u0 = Some j0"
    "find_job (ws_db s') = (find_job (ws_db s))(u0 \<mapsto> j')" "pc_event p e" "life_step (life_of j0) e (life_of j')"
    unfolding one_life_step_def by auto
  then have u: "u0 = u" "j' = j" using j by (auto split: if_splits)
  from life_step_waits [OF l(5)] j(2) u(2) have "e = Replay \<or> (\<exists>m. e = Retry m)" by (auto simp: waits_def)
  with l(4) obtain v n m where p: "p = At_markRetrying v n m" "e = Retry m" by (cases p) auto
  then have v: "uin v = Inr (Some u)" using l(1) u(1) by (simp add: pc_binding_def)
  have "in_processing j0" using l(5) p(2) by (auto simp: in_processing_def elim: life_step.cases)
  from markRetrying_hit [where uin = uin and v = v and now = t and m = m, OF ok v l(2) [unfolded u(1)] this] run p v
  show ?thesis by auto
qed

lemma in_hands_same: "s_active s' = s_active s \<Longrightarrow> in_hands uin s' u = in_hands uin s u"
  by (simp add: in_hands_def)

lemma request_followed:
  assumes "batches_ok s" and "new_ev \<notin> set (map ev_id (outbox_events (s_db s)))"
    and "outbox_events d = outbox_events (s_db s) @ [new_event new_ev t u0]"
    and "u \<noteq> u0 \<Longrightarrow> followed uin s u"
  shows "followed uin (s\<lparr>s_db := d\<rparr>) u"
  using added_event_tracks [OF assms(1-3), of uin] assms(4) by (cases "u = u0") (auto simp: followed_def in_hands_def)

lemma fine_step_followed:
  assumes st: "fine_step uin t s s'" and inv: "plat_inv uin drops s" and j: "find_job (s_db s') u = Some j" "waits j"
    and was: "\<And>i. find_job (s_db s) u = Some i \<Longrightarrow> waits i \<Longrightarrow> followed uin s u"
  shows "followed uin s' u"
  using st
proof (cases rule: fine_step.cases)
  case (client_creates tx new_id new_ev ty pl r d)
  have "followed uin (s\<lparr>s_db := d\<rparr>) u" if "create_effect new_id new_ev t ty pl (s_db s) d"
    using request_followed [OF plat_invD(6) [OF inv], of new_ev d t new_id u uin] that j was client_creates(1) create_effect_find [OF that]
    by (cases "u = new_id") (auto simp: create_effect_def)
  with client_creates(1) was j show ?thesis by (cases rule: createJob_cases [OF client_creates(2)]) simp_all
next
  case (client_replays tx new_ev v r d)
  have "followed uin (s\<lparr>s_db := d\<rparr>) u" if "replay_effect new_ev t u0 i (s_db s) d" for u0 i
    using request_followed [OF plat_invD(6) [OF inv], of new_ev d t u0 u uin] that j was client_replays(1)
    by (cases "u = u0") (auto simp: replay_effect_def)
  with client_replays(1) was j show ?thesis by (cases rule: claimReplay_cases [OF plat_invD(1) [OF inv] client_replays(2)]) simp_all
next
  case timer
  then obtain k where s': "s' = s\<lparr>s_batch := (s_batch s)(k \<mapsto> (D_claim, empty_tally))\<rparr>" by (auto simp: batch_begins_def)
  with was j have "followed uin s u" by simp
  with batch_start_tracks [of uin s u k] in_hands_same [of s' s uin u] s' show ?thesis by (auto simp: followed_def)
next
  case (batch k)
  then obtain p ta p' x where b: "s_batch s k = Some (p, ta)"
    "dispatch_step (fine_await t) p \<lparr>ds_db = s_db s, ds_broker = s_broker s, ds_tally = ta\<rparr> = (p', x)"
    "s' = batch_store k p' x s" unfolding batch_acts_def by blast
  have "schema_ok (ds_db \<lparr>ds_db = s_db s, ds_broker = s_broker s, ds_tally = ta\<rparr>)" using plat_invD(1) [OF inv] by simp
  from dispatch_step_db [OF this b(2)] have f: "find_job (ds_db x) = find_job (s_db s)" by (auto dest: frame_tables(1))
  with j b(3) have jj: "find_job (s_db s) u = Some j" by (simp add: batch_store_def)
  have "da_pub (fine_await t) \<noteq> Pub_lost" by (simp add: fine_await_def)
  from batch_tracks [OF inv b(1) this b(2)] ids_canonical_find [OF plat_invD(4) [OF inv] jj] was [OF jj j(2)] b(3)
  show ?thesis by (auto simp: followed_def in_hands_def batch_store_def)
next
  case (delivery m)
  then obtain w where w: "s_active s w = None" "m \<in> set (queue (s_broker s) QUEUE_NAME)"
    "s' = settle w m True (on_delivery (calm t) (Some (pub_body m))) (s\<lparr>s_broker := take_message m (s_broker s)\<rparr>)"
    unfolding message_taken_def by blast
  have "find_job (s_db s) u = Some j" using j(1) w(3) by simp
  then consider "tracked uin s u" | "in_hands uin s u" using was j(2) by (auto simp: followed_def)
  then show ?thesis
  proof cases
    case 1
    from deliver_tracks [OF w(1,2) this] w(3) show ?thesis by (simp add: followed_def)
  next
    case 2
    then obtain w' dl v n where h: "s_active s w' = Some dl" "dl_pc dl = At_publishRetry v n" "uin v = Inr (Some u)"
      by (auto simp: in_hands_def)
    then have "w' \<noteq> w" using w(1) by auto
    from settle_other [OF this] h w(3) have "s_active s' w' = Some dl" by simp
    with h show ?thesis unfolding followed_def in_hands_def by blast
  qed
next
  case (handler w)
  then obtain dl p' x where h: "s_active s w = Some dl"
    "consumer_step uin (calm_on (dl_attached dl) t) (dl_pc dl) (worker_view w s) = (p', x)"
    "s' = settle w (dl_message dl) (dl_attached dl) p' (worker_commit w x s)" by (rule handler_actsE)
  have jx: "find_job (ws_db x) u = Some j" using j(1) h(3) by simp
  show ?thesis
  proof (cases "find_job (s_db s) u = Some j")
    case True
    then consider "tracked uin s u" | "in_hands uin s u" using was j(2) by (auto simp: followed_def)
    then show ?thesis
    proof cases
      case 1
      from worker_step_tracks [OF inv h(1) calm_on_simps(5) h(2) jx j(2)] 1 True h(3) show ?thesis by (simp add: followed_def)
    next
      case 2
      then obtain w' dl' v n where g: "s_active s w' = Some dl'" "dl_pc dl' = At_publishRetry v n" "uin v = Inr (Some u)"
        by (auto simp: in_hands_def)
      show ?thesis
      proof (cases "w' = w")
        case True
        with g h have "tracked uin s' u" using publish_tracks(2) [where uin = uin and v = v, OF plat_invD(3) [OF inv] g(3)] by simp
        then show ?thesis by (simp add: followed_def)
      next
        case False
        from settle_other [OF this] g h(3) have "s_active s' w' = Some dl'" by simp
        with g show ?thesis unfolding followed_def in_hands_def by blast
      qed
    qed
  next
    case False
    have "schema_ok (ws_db (worker_view w s))" using plat_invD(1) [OF inv] by simp
    from fine_retry_in_hands [OF this h(2) jx j(2)] False obtain v n where "p' = At_publishRetry v n" "uin v = Inr (Some u)" by auto
    then have "in_hands uin s' u" unfolding h(3) by (auto simp: in_hands_def settle_def)
    then show ?thesis by (simp add: followed_def)
  qed
next
  case (expiry m)
  then have e: "m \<in> set (queue (s_broker s) RETRY_QUEUE_NAME)" "s' = s\<lparr>s_broker := expire RETRY_QUEUE_NAME m (s_broker s)\<rparr>"
    by (auto simp: delay_over_def)
  with was j have "followed uin s u" by simp
  with retry_expired_tracks [OF plat_invD(3) [OF inv] e(1)] in_hands_same [of s' s uin u] e(2) show ?thesis by (auto simp: followed_def)
next
  case nothing
  with was j show ?thesis by simp
qed

end
