(* ===== verification/Stranded.thy ===== *)
theory Stranded
  imports Progress
begin

text \<open>
  Jobs that nothing leads back to. A job in \<open>PROCESSING\<close> or \<open>RETRYING\<close> for which no event is pending, no message
  is queued and no delivery is under way stays there whatever the platform does: the stale threshold
  of the claim only matters to a claim, and a claim needs a message. The last sections run the
  platform into such a state, with one crash of a worker, and with the loss of a channel under a living worker.
\<close>

section \<open>Stranded states\<close>

definition unnamed :: "uuid_input \<Rightarrow> broker \<Rightarrow> uuid \<Rightarrow> bool" where
  "unnamed uin b u \<longleftrightarrow> \<not> has_message uin b u"

definition stranded :: "uuid_input \<Rightarrow> sys \<Rightarrow> uuid \<Rightarrow> job \<Rightarrow> bool" where
  "stranded uin s u j \<longleftrightarrow> find_job (s_db s) u = Some j \<and> status j \<in> {PROCESSING, RETRYING}
     \<and> unnamed uin (s_broker s) u
     \<and> (\<forall>w dl. s_active s w = Some dl \<longrightarrow> \<not> names_job uin u (dl_message dl))
     \<and> (\<forall>e \<in> set (outbox_events (s_db s)). ev_job_id e = u \<longrightarrow> \<not> pending e)
     \<and> (\<forall>k p ta. s_batch s k = Some (p, ta) \<longrightarrow> (\<forall>ev \<in> set (batch_events p). ev_job_id ev \<noteq> u))"

lemma strandedI:
  assumes "find_job (s_db s) u = Some j" "status j \<in> {PROCESSING, RETRYING}" "unnamed uin (s_broker s) u"
    "\<And>w dl. s_active s w = Some dl \<Longrightarrow> \<not> names_job uin u (dl_message dl)"
    "\<And>e. e \<in> set (outbox_events (s_db s)) \<Longrightarrow> ev_job_id e = u \<Longrightarrow> \<not> pending e"
    "\<And>k p ta ev. s_batch s k = Some (p, ta) \<Longrightarrow> ev \<in> set (batch_events p) \<Longrightarrow> ev_job_id ev \<noteq> u"
  shows "stranded uin s u j"
  using assms by (auto simp: stranded_def)

lemma strandedD:
  assumes "stranded uin s u j"
  shows "find_job (s_db s) u = Some j" "status j \<in> {PROCESSING, RETRYING}" "unnamed uin (s_broker s) u"
    "s_active s w = Some dl \<Longrightarrow> \<not> names_job uin u (dl_message dl)"
    "e \<in> set (outbox_events (s_db s)) \<Longrightarrow> ev_job_id e = u \<Longrightarrow> \<not> pending e"
    "s_batch s k = Some (p, ta) \<Longrightarrow> ev \<in> set (batch_events p) \<Longrightarrow> ev_job_id ev \<noteq> u"
  using assms unfolding stranded_def by blast+

lemma unnamed_route:
  assumes "unnamed uin b u" and "\<not> names_job uin u m"
  shows "unnamed uin (route m b) u"
  using assms by (auto simp: unnamed_def has_message_def queue_route split: if_splits)

lemma unnamed_publish:
  "unnamed uin b u \<Longrightarrow> \<not> names_job uin u m \<Longrightarrow> unnamed uin (snd (publish_or_throw pio m msg b)) u"
  by (auto simp: publish_or_throw_snd channel_publish_def unnamed_route split: pub_io.splits)

lemma unnamed_requeue: "unnamed uin b u \<Longrightarrow> \<not> names_job uin u m \<Longrightarrow> unnamed uin (requeue m b) u"
  by (auto simp: unnamed_def has_message_def requeue_def)

lemma unnamed_take: "unnamed uin b u \<Longrightarrow> unnamed uin (take_message m b) u"
  using set_remove1_subset [of m "queue b QUEUE_NAME"]
  by (fastforce simp: unnamed_def has_message_def take_message_def)

lemma unnamed_settle:
  "unnamed uin (s_broker s) u \<Longrightarrow> \<not> names_job uin u m \<Longrightarrow> unnamed uin (s_broker (settle w m att p s)) u"
  by (simp add: settle_def unnamed_requeue split: pc.splits ending.splits)

text \<open>Settling a delivery of another job.\<close>

lemma settle_stranded:
  assumes st: "stranded uin s u j" and m: "\<not> names_job uin u m"
  shows "stranded uin (settle w m att p s) u j"
proof (rule strandedI)
  fix w' dl assume a: "s_active (settle w m att p s) w' = Some dl"
  show "\<not> names_job uin u (dl_message dl)"
  proof (cases "w' = w")
    case True
    with settle_active [of w m att p s dl] a m show ?thesis by simp
  next
    case False
    with settle_other [OF False, of m att p s] a strandedD(4) [OF st] show ?thesis by simp
  qed
qed (use strandedD [OF st] m in \<open>auto intro: unnamed_settle\<close>)

section \<open>Every step keeps a stranded job stranded\<close>

lemma create_stranded:
  assumes "stranded uin s u j" and "create_effect new_id new_ev now ty pl (s_db s) d"
  shows "stranded uin (s\<lparr>s_db := d\<rparr>) u j"
proof -
  have "new_id \<noteq> u" using assms strandedD(1) [OF assms(1)] find_job_None [of "s_db s" u] by (auto simp: create_effect_def)
  with assms create_effect_find [OF assms(2)] show ?thesis
    by (auto simp: stranded_def create_effect_def)
qed

lemma replay_stranded:
  assumes "stranded uin s u j" and "replay_effect new_ev now u' j' (s_db s) d"
  shows "stranded uin (s\<lparr>s_db := d\<rparr>) u j"
proof -
  have "u' \<noteq> u" using assms by (force simp: stranded_def replay_effect_def)
  with assms show ?thesis by (auto simp: stranded_def replay_effect_def)
qed

text \<open>No statement of the outbox makes a published event pending again.\<close>

definition settled :: "uuid \<Rightarrow> db \<Rightarrow> bool" where
  "settled u d \<longleftrightarrow> (\<forall>e \<in> set (outbox_events d). ev_job_id e = u \<longrightarrow> \<not> pending e)"

lemma settled_update:
  assumes "settled u d" and "\<And>e. ev_job_id (f e) = ev_job_id e" and "\<And>e. \<not> pending e \<Longrightarrow> \<not> pending (f e)"
  shows "settled u (d\<lparr>outbox_events := fst (sql_update P f (outbox_events d))\<rparr>)"
  using assms by (auto simp: settled_def sql_update_def)

lemma settled_statements:
  assumes "settled u d"
  shows "claimPendingOutboxEvents now locked n d = Inr (ret, d') \<Longrightarrow> settled u d'"
    and "markOutboxPublished now i d = Inr (r, d') \<Longrightarrow> settled u d'"
    and "markOutboxFailed i m d = Inr (r, d') \<Longrightarrow> settled u d'"
proof -
  assume "claimPendingOutboxEvents now locked n d = Inr (ret, d')"
  then have "d' = d\<lparr>outbox_events := fst (sql_update (\<lambda>e. ev_id e \<in> set (select_claimable now locked n (outbox_events d)))
      (\<lambda>e. e\<lparr>claimed_at := Some now\<rparr>) (outbox_events d))\<rparr>"
    by (simp add: claimPendingOutboxEvents_def Let_def split: prod.splits)
  then show "settled u d'" using settled_update [OF assms, of "\<lambda>e. e\<lparr>claimed_at := Some now\<rparr>"] by (simp add: pending_def)
next
  assume "markOutboxPublished now i d = Inr (r, d')"
  then show "settled u d'"
    using settled_update [OF assms, of "\<lambda>e. e\<lparr>published_at := Some now\<rparr>"] by (auto simp: markOutboxPublished_def pending_def)
next
  assume "markOutboxFailed i m d = Inr (r, d')"
  then show "settled u d'"
    using settled_update [OF assms, of "\<lambda>e. e\<lparr>claimed_at := None, attempts := attempts e + 1, ev_last_error := Some m\<rparr>"]
    by (auto simp: markOutboxFailed_def pending_def split: if_splits)
qed

lemma settled_queries:
  assumes "settled u d"
  shows "query i (claimPendingOutboxEvents now locked n) d = (c, d') \<Longrightarrow> settled u d'"
    and "query i (markOutboxPublished now ev) d = (r, d') \<Longrightarrow> settled u d'"
    and "query i (markOutboxFailed ev m) d = (r, d') \<Longrightarrow> settled u d'"
  by (erule query_rel [where R = "settled u"], erule settled_statements [OF assms], rule assms)+

lemma dispatch_keeps_settled:
  assumes run: "dispatch_step a p x = (p', x')" and st: "settled u (ds_db x)"
  shows "settled u (ds_db x')"
  by (cases p) (use run st in \<open>auto split: prod.splits sum.splits dest: settled_queries [OF st]\<close>)

text \<open>A batch claims no event of the job, so it publishes no message for it.\<close>

lemma dispatch_step_stranded:
  assumes inv: "plat_inv uin drops s" and st: "stranded uin s u j" and bk: "s_batch s k = Some (p, ta)"
    and run: "dispatch_step a p \<lparr>ds_db = s_db s, ds_broker = s_broker s, ds_tally = ta\<rparr> = (p', x)"
  shows "unnamed uin (ds_broker x) u" and "\<forall>ev \<in> set (batch_events p'). ev_job_id ev \<noteq> u"
    and "e \<in> set (outbox_events (ds_db x)) \<Longrightarrow> ev_job_id e = u \<Longrightarrow> \<not> pending e"
proof -
  note i = plat_invD [OF inv]
  note d = strandedD [OF st]
  show "unnamed uin (ds_broker x) u"
  proof (cases p)
    case (D_publish ev rest)
    have "batch_ok (s_db s) p" using i(6) bk by (auto simp: batches_ok_def)
    then have ev: "ev_job_id ev \<noteq> u" "(ev_id ev, ev_job_id ev) \<in> event_keys (s_db s)"
      using d(6) [OF bk] D_publish by (auto simp: batch_ok_def)
    have "ev_job_id ev \<in> set (map jid (jobs (s_db s)))"
      using ev(2) i(1) by (auto simp: event_keys_def schema_ok_def list_all_iff)
    then have "uin (Some (JStr (ev_job_id ev))) = Inr (Some (ev_job_id ev))"
      using i(4) by (auto simp: ids_canonical_def)
    with ev(1) have "\<not> names_job uin u (job_created (ev_job_id ev))"
      by (auto simp: names_job_def job_created_def JSON_roundtrip jobId_message_def js_get_def)
    moreover have "ds_broker x = snd (publishJobCreated (da_pub a) (ev_job_id ev) (s_broker s))"
      using run D_publish by (auto split: prod.splits sum.splits)
    ultimately show ?thesis using unnamed_publish [OF d(3)] by (simp add: publishJobCreated_def)
  qed (use run d(3) in \<open>auto split: prod.splits sum.splits\<close>)
  have own: "\<forall>ev \<in> set (batch_events p). ev_job_id ev \<noteq> u" using d(6) [OF bk] by blast
  show "\<forall>ev \<in> set (batch_events p'). ev_job_id ev \<noteq> u"
  proof (cases p)
    case D_claim
    have claimed: "ev_job_id e' \<noteq> u" if c: "claimPendingOutboxEvents (da_now a) (da_locked a) BATCH_SIZE (s_db s) = Inr (ret, d')" and e': "e' \<in> set ret" for ret d' e'
    proof -
      from e' obtain e where e: "e \<in> set (outbox_events (s_db s))" "e' = e\<lparr>claimed_at := Some (da_now a)\<rparr>"
        "ev_id e \<in> set (select_claimable (da_now a) (da_locked a) BATCH_SIZE (outbox_events (s_db s)))"
        by (auto simp: claimPending_returned(1) [OF c])
      from select_claimable_eligible [OF e(3)] obtain e0 where e0: "e0 \<in> set (outbox_events (s_db s))" "ev_id e0 = ev_id e"
        "claim_eligible (da_now a) e0" by blast
      then have "e0 = e" using i(1) e(1) by (auto simp: schema_ok_def distinct_map inj_on_def)
      with e0 e d(5) show ?thesis by (auto simp: claim_eligible_def)
    qed
    show ?thesis using run D_claim by (auto simp: query_Inr_iff split: prod.splits sum.splits dest: claimed)
  qed (use run own in \<open>auto split: prod.splits sum.splits\<close>)
  show "\<not> pending e" if "e \<in> set (outbox_events (ds_db x))" "ev_job_id e = u"
    using dispatch_keeps_settled [of a p "\<lparr>ds_db = s_db s, ds_broker = s_broker s, ds_tally = ta\<rparr>" p' x u] run d(5) that
    by (auto simp: settled_def)
qed

lemma batch_step_stranded:
  assumes inv: "plat_inv uin drops s" and st: "stranded uin s u j" and bk: "s_batch s k = Some (p, ta)"
    and run: "dispatch_step a p \<lparr>ds_db = s_db s, ds_broker = s_broker s, ds_tally = ta\<rparr> = (p', x)"
  shows "stranded uin (batch_store k p' x s) u j"
proof (rule strandedI)
  note d = strandedD [OF st]
  note n = dispatch_step_stranded [OF inv st bk run]
  have "schema_ok (ds_db \<lparr>ds_db = s_db s, ds_broker = s_broker s, ds_tally = ta\<rparr>)" using plat_invD(1) [OF inv] by simp
  from dispatch_step_db [OF this run] have "find_job (ds_db x) = find_job (s_db s)" by (auto dest: frame_tables(1))
  with d(1) show "find_job (s_db (batch_store k p' x s)) u = Some j" by (simp add: batch_store_def)
  show "status j \<in> {PROCESSING, RETRYING}" by (rule d(2))
  show "unnamed uin (s_broker (batch_store k p' x s)) u" using n(1) by (simp add: batch_store_def)
  show "\<not> names_job uin u (dl_message dl)" if "s_active (batch_store k p' x s) w = Some dl" for w dl
    using that d(4) by (simp add: batch_store_def)
  show "\<not> pending e" if "e \<in> set (outbox_events (s_db (batch_store k p' x s)))" "ev_job_id e = u" for e
    using that n(3) by (simp add: batch_store_def)
  show "ev_job_id ev \<noteq> u" if "s_batch (batch_store k p' x s) k' = Some (p0, t0)" "ev \<in> set (batch_events p0)" for k' p0 t0 ev
    using that n(2) d(6) by (auto simp: batch_store_def split: if_splits dispatch_pc.splits)
qed

text \<open>A worker on another message touches neither the row nor the messages of the job.\<close>

lemma consumer_step_message:
  assumes "consumer_step uin a p s = (p', s')"
  shows "ws_broker s' = ws_broker s
    \<or> (\<exists>v n msg. pc_job p = Some v \<and> ws_broker s' = snd (publish_or_throw (aw_pub a) (job_retry_message v n) msg (ws_broker s)))
    \<or> (\<exists>v msg. pc_job p = Some v \<and> ws_broker s' = snd (publish_or_throw (aw_pub a) (dead_letter_message v) msg (ws_broker s)))"
proof (cases p)
  case (At_publishRetry v n)
  obtain r b where c: "publishRetry (aw_pub a) v n (ws_broker s) = (r, b)" by fastforce
  then have "ws_broker s' = b" using assms At_publishRetry
    by (cases r) (auto dest: arg_cong [where f = "\<lambda>y. ws_broker (snd y)"])
  with c At_publishRetry show ?thesis unfolding publishRetry_def by (metis pc_job.simps(8) snd_conv)
next
  case (At_publishDeadLetter v)
  obtain r b where c: "publishDeadLetter (aw_pub a) v (ws_broker s) = (r, b)" by fastforce
  then have "ws_broker s' = b" using assms At_publishDeadLetter
    by (cases r) (auto dest: arg_cong [where f = "\<lambda>y. ws_broker (snd y)"])
  with c At_publishDeadLetter show ?thesis unfolding publishDeadLetter_def by (metis pc_job.simps(6) snd_conv)
qed (use assms in \<open>auto split: option.splits prod.splits sum.splits
        dest: arg_cong [where f = "\<lambda>y. ws_broker (snd y)"]\<close>)

lemma names_job_sent:
  "names_job uin u (job_retry_message v n) \<longleftrightarrow> uin v = Inr (Some u)"
  "names_job uin u (dead_letter_message v) \<longleftrightarrow> uin v = Inr (Some u)"
  by (cases v; simp add: names_job_def job_retry_message_def dead_letter_message_def JSON_roundtrip jobId_message_def js_get_def)+

lemma worker_step_stranded:
  assumes inv: "plat_inv uin drops s" and st: "stranded uin s u j" and act: "s_active s w = Some dl"
    and run: "consumer_step uin a (dl_pc dl) (worker_view w s) = (p', x)"
  shows "stranded uin (settle w (dl_message dl) (dl_attached dl) p' (worker_commit w x s)) u j"
proof (rule settle_stranded)
  note d = strandedD [OF st]
  show m: "\<not> names_job uin u (dl_message dl)" by (rule d(4) [OF act])
  have dok: "delivery_ok dl" using plat_invD(5) [OF inv] act by (auto simp: deliveries_ok_def)
  have v: "uin v \<noteq> Inr (Some u)" if "pc_job (dl_pc dl) = Some v" for v
    using delivery_binding [OF dok that] m by blast
  have "schema_ok (ws_db (worker_view w s))" using plat_invD(1) [OF inv] by simp
  from consumer_step_life [OF this run] have life: "one_life_step (pc_event (dl_pc dl)) (pc_binding uin (dl_pc dl)) (s_db s) (ws_db x)"
    by simp
  have "pc_binding uin (dl_pc dl) \<noteq> Inr (Some u)" using v by (auto simp: pc_binding_def split: option.splits)
  with life have f: "find_job (ws_db x) u = find_job (s_db s) u" by (auto simp: one_life_step_def)
  have "unnamed uin (ws_broker x) u"
    using consumer_step_message [OF run] d(3) v by (auto intro!: unnamed_publish simp: names_job_sent)
  with d f one_life_step_frame(1) [OF life] show "stranded uin (worker_commit w x s) u j"
    by (intro strandedI) auto
qed

lemma deliver_stranded:
  assumes st: "stranded uin s u j" and m: "m \<in> set (queue (s_broker s) QUEUE_NAME)"
  shows "stranded uin (settle w m True p (s\<lparr>s_broker := take_message m (s_broker s)\<rparr>)) u j"
proof (rule settle_stranded)
  show "stranded uin (s\<lparr>s_broker := take_message m (s_broker s)\<rparr>) u j"
    using st unnamed_take by (simp add: stranded_def)
  show "\<not> names_job uin u m" using strandedD(3) [OF st] m by (auto simp: unnamed_def has_message_def)
qed

lemma expire_stranded:
  assumes inv: "plat_inv uin drops s" and st: "stranded uin s u j" and m: "m \<in> set (queue (s_broker s) RETRY_QUEUE_NAME)"
  shows "stranded uin (s\<lparr>s_broker := expire RETRY_QUEUE_NAME m (s_broker s)\<rparr>) u j"
proof -
  note ex = expire_retry [OF plat_invD(3) [OF inv] m]
  have "\<not> names_job uin u m" using strandedD(3) [OF st] m by (auto simp: unnamed_def has_message_def)
  then have "\<not> names_job uin u (m\<lparr>pub_exchange := EXCHANGE_NAME, pub_key := ROUTING_KEY, pub_expiration := None\<rparr>)"
    by (simp add: names_job_expired)
  moreover have "set (remove1 m (queue (s_broker s) RETRY_QUEUE_NAME)) \<subseteq> set (queue (s_broker s) RETRY_QUEUE_NAME)"
    by (rule set_remove1_subset)
  ultimately have "unnamed uin (expire RETRY_QUEUE_NAME m (s_broker s)) u"
    using strandedD(3) [OF st] by (fastforce simp: unnamed_def has_message_def ex)
  with st show ?thesis by (simp add: stranded_def)
qed

lemma sys_step_stranded:
  assumes "sys_step uin drops s s'" and "plat_inv uin drops s" and "stranded uin s u j"
  shows "stranded uin s' u j"
  using assms
proof (induction rule: sys_step.induct)
  case (create t new_id new_ev now ty pl s r d)
  from create.hyps(1) show ?case
    by (cases rule: createJob_cases) (use create.prems create_stranded in auto)
next
  case (replay t new_ev now v s r d)
  note ok = plat_invD(1) [OF replay.prems(1)]
  from ok replay.hyps show ?case
    by (cases rule: claimReplay_cases) (use replay.prems replay_stranded in auto)
next
  case (batch_start s k)
  then show ?case by (auto simp: stranded_def)
next
  case (api_crash s k)
  then show ?case by (auto simp: stranded_def)
next
  case (worker_crash s w dl err)
  then show ?case using settle_stranded strandedD(4) by blast
next
  case (channel_drop s w dl)
  then show ?case using unnamed_requeue by (auto simp: stranded_def)
qed (auto intro: batch_step_stranded deliver_stranded worker_step_stranded expire_stranded)

lemma stranded_forever:
  assumes "(sys_step uin drops)\<^sup>*\<^sup>* s s'" and "plat_inv uin drops s" and "stranded uin s u j"
  shows "stranded uin s' u j"
  using assms
proof (induction rule: rtranclp_induct)
  case base
  then show ?case by simp
next
  case (step y z)
  then show ?case using sys_step_stranded [OF step.hyps(2)] sys_steps_inv [OF step.hyps(1)] by blast
qed

section \<open>A run into a stranded state\<close>

text \<open>
  One job, one worker that dies right after its claim, and a redelivery within the minute: the second
  delivery finds the job claimed, and is acknowledged. The states of the run, in order.
\<close>

abbreviation "job_with pl \<equiv> new_job ''j1'' 0 ''email'' pl"
abbreviation "tape_job \<equiv> job_with []"
abbreviation "tape_event \<equiv> new_event ''e1'' 0 ''j1''"
abbreviation "tape_claimed \<equiv> tape_event\<lparr>claimed_at := Some 0\<rparr>"
abbreviation "tape_published \<equiv> tape_claimed\<lparr>published_at := Some 0\<rparr>"
abbreviation "tape_await \<equiv> \<lparr>da_io = Io_ok, da_now = 0, da_pub = Pub_ok, da_locked = []\<rparr>"

definition tape_state :: "db \<Rightarrow> broker \<Rightarrow> delivery option \<Rightarrow> (dispatch_pc \<times> tally) option \<Rightarrow> sys" where
  "tape_state d b a k = \<lparr>s_db = d, s_broker = b, s_errors = (\<lambda>_. 0), s_active = (\<lambda>_. None)(0 := a), s_batch = (\<lambda>_. None)(0 := k)\<rparr>"

definition tape_broker :: "publication list \<Rightarrow> broker" where
  "tape_broker ms = (worker_topology empty_broker)\<lparr>queue := (\<lambda>_. [])(QUEUE_NAME := ms)\<rparr>"

lemma tape_broker_empty: "tape_broker [] = worker_topology empty_broker"
proof -
  have "queue (worker_topology empty_broker) = (\<lambda>_. [])" by (rule ext) simp
  then show ?thesis unfolding tape_broker_def by (cases "worker_topology empty_broker") (simp add: fun_upd_idem)
qed

lemma tape_broker_route: "route (job_created u) (tape_broker ms) = tape_broker (ms @ [job_created u])"
proof -
  have "set (bindings (worker_topology empty_broker)) = {(QUEUE_NAME, EXCHANGE_NAME, ROUTING_KEY),
       (RETRY_QUEUE_NAME, FAILURES_EXCHANGE_NAME, RETRY_ROUTING_KEY), (DLQ_QUEUE_NAME, FAILURES_EXCHANGE_NAME, DLQ_ROUTING_KEY)}"
    using topology_ready_worker by (simp add: topology_ready_def)
  then show ?thesis by (auto simp: route_def tape_broker_def job_created_def fun_eq_iff)
qed

lemma tape_broker_take: "take_message m (tape_broker [m]) = tape_broker []"
  and tape_broker_requeue: "requeue m (tape_broker []) = tape_broker [m]"
  and tape_broker_queue: "queue (tape_broker ms) QUEUE_NAME = ms"
  by (simp_all add: take_message_def requeue_def tape_broker_def)

lemma tape_create:
  assumes "storable ''email'' pl"
  shows "sys_step plain_uin drops sys_init (tape_state \<lparr>jobs = [job_with pl], outbox_events = [tape_event]\<rparr> (tape_broker []) None None)"
proof -
  have init: "sys_init = tape_state \<lparr>jobs = [], outbox_events = []\<rparr> (tape_broker []) None None"
    by (simp add: sys_init_def tape_state_def tape_broker_empty)
  have "\<not> has_nul ''email''" "\<not> json_has_nul (JObj pl)" using assms by (simp_all add: storable_def)
  then show ?thesis
    using sys_step.create [of tx_fine "''j1''" "''e1''" 0 "''email''" pl
        "tape_state \<lparr>jobs = [], outbox_events = []\<rparr> (tape_broker []) None None" _ _ plain_uin drops]
    by (simp add: init tape_state_def createJob_def withTransaction_fine create_body_def insert_job_def insertOutboxEvent_def
        new_event_def Let_def del: json_has_nul.simps)
qed

text \<open>The first tick of the timer, one step of the batch, a delivery, and one step of the worker, on these states.\<close>

lemma tape_tick: "calm_step plain_uin (tape_state d b a None) (tape_state d b a (Some (D_claim, empty_tally)))"
  using calm_step.batch_starts [of "tape_state d b a None" 0 plain_uin] by (simp add: tape_state_def)

lemma tape_batch_step:
  assumes "dispatch_step tape_await p \<lparr>ds_db = d, ds_broker = b, ds_tally = ta\<rparr> = (p', \<lparr>ds_db = d', ds_broker = b', ds_tally = ta'\<rparr>)"
  shows "calm_step plain_uin (tape_state d b a (Some (p, ta))) (tape_state d' b' a
    (case p' of D_return \<Rightarrow> None | D_reject e \<Rightarrow> None | _ \<Rightarrow> Some (p', ta')))"
proof -
  have "calm_step plain_uin (tape_state d b a (Some (p, ta)))
      (batch_store 0 p' \<lparr>ds_db = d', ds_broker = b', ds_tally = ta'\<rparr> (tape_state d b a (Some (p, ta))))"
    by (rule calm_step.batch_steps [where a = tape_await and p = p and ta = ta]) (use assms in \<open>simp_all add: tape_state_def smooth_def\<close>)
  then show ?thesis by (cases p') (simp_all add: batch_store_def tape_state_def)
qed

lemma tape_delivery_step:
  "calm_step plain_uin (tape_state d (tape_broker [job_created ''j1'']) None k)
     (tape_state d (tape_broker []) (Some \<lparr>dl_message = job_created ''j1'', dl_pc = At_claim j1, dl_attached = True\<rparr>) k)"
proof -
  have od: "on_delivery (calm 0) (Some (pub_body (job_created ''j1''))) = At_claim j1"
    by (simp add: on_delivery_def job_created_def JSON_roundtrip jobId_message_def js_get_def)
  have "calm_step plain_uin (tape_state d (tape_broker [job_created ''j1'']) None k)
     (settle 0 (job_created ''j1'') True (on_delivery (calm 0) (Some (pub_body (job_created ''j1''))))
        ((tape_state d (tape_broker [job_created ''j1'']) None k)\<lparr>s_broker :=
           take_message (job_created ''j1'') (s_broker (tape_state d (tape_broker [job_created ''j1'']) None k))\<rparr>))"
    by (rule calm_step.delivers) (simp_all add: tape_state_def tape_broker_queue)
  then show ?thesis by (simp add: od settle_def tape_state_def tape_broker_take)
qed

lemma tape_worker_step:
  assumes "consumer_step plain_uin (calm t) p \<lparr>ws_db = d, ws_broker = b, dbErrorCount = 0\<rparr>
      = (p', \<lparr>ws_db = d', ws_broker = b', dbErrorCount = 0\<rparr>)"
  shows "calm_step plain_uin (tape_state d b (Some \<lparr>dl_message = m, dl_pc = p, dl_attached = True\<rparr>) k)
    (settle 0 m True p' (tape_state d' b' (Some \<lparr>dl_message = m, dl_pc = p, dl_attached = True\<rparr>) k))"
proof -
  let ?dl = "\<lparr>dl_message = m, dl_pc = p, dl_attached = True\<rparr>"
  let ?s = "tape_state d b (Some ?dl) k"
  have "calm_step plain_uin ?s (settle 0 (dl_message ?dl) True p' (worker_commit 0 \<lparr>ws_db = d', ws_broker = b', dbErrorCount = 0\<rparr> ?s))"
    by (rule calm_step.worker_steps [where t = t]) (use assms in \<open>simp_all add: tape_state_def worker_view_def\<close>)
  moreover have "worker_commit 0 \<lparr>ws_db = d', ws_broker = b', dbErrorCount = 0\<rparr> ?s = tape_state d' b' (Some ?dl) k"
    by (simp add: worker_commit_def tape_state_def fun_upd_idem)
  ultimately show ?thesis by simp
qed

lemma tape_worker:
  assumes "sys_reach plain_uin False (tape_state d b (Some \<lparr>dl_message = m, dl_pc = p, dl_attached = True\<rparr>) k)"
    and "consumer_step plain_uin (calm t) p \<lparr>ws_db = d, ws_broker = b, dbErrorCount = 0\<rparr>
      = (p', \<lparr>ws_db = d', ws_broker = b', dbErrorCount = 0\<rparr>)"
  shows "sys_reach plain_uin False (settle 0 m True p' (tape_state d' b' (Some \<lparr>dl_message = m, dl_pc = p, dl_attached = True\<rparr>) k))"
  using sys_reach.step [OF assms(1) calm_is_step [OF tape_worker_step [OF assms(2)]]] .

text \<open>From the creation to the queued message, and on to the claimed job.\<close>

abbreviation "tape_fresh pl \<equiv> tape_state \<lparr>jobs = [job_with pl], outbox_events = [tape_event]\<rparr> (tape_broker []) None None"

lemma tape_dispatches:
  "(calm_step plain_uin)\<^sup>*\<^sup>* (tape_fresh pl)
     (tape_state \<lparr>jobs = [job_with pl], outbox_events = [tape_published]\<rparr> (tape_broker [job_created ''j1'']) None None)"
proof -
  let ?ta = "empty_tally\<lparr>attempted := 1\<rparr>"
  let ?d = "\<lparr>jobs = [job_with pl], outbox_events = [tape_claimed]\<rparr>"
  have "calm_step plain_uin (tape_state \<lparr>jobs = [job_with pl], outbox_events = [tape_event]\<rparr> (tape_broker []) None (Some (D_claim, empty_tally)))
      (tape_state ?d (tape_broker []) None (Some (D_publish tape_claimed [], ?ta)))"
    using tape_batch_step [of D_claim "\<lparr>jobs = [job_with pl], outbox_events = [tape_event]\<rparr>" "tape_broker []" empty_tally
        "D_publish tape_claimed []" ?d "tape_broker []" ?ta None]
    by (simp add: claimPendingOutboxEvents_def select_claimable_def new_event_def claim_eligible_def pending_def sql_update_def
        BATCH_SIZE_def next_event_def)
  moreover have "calm_step plain_uin (tape_state ?d (tape_broker []) None (Some (D_publish tape_claimed [], ?ta)))
      (tape_state ?d (tape_broker [job_created ''j1'']) None (Some (D_markPublished tape_claimed [], ?ta)))"
    using tape_batch_step [of "D_publish tape_claimed []" ?d "tape_broker []" ?ta
        "D_markPublished tape_claimed []" ?d "tape_broker [job_created ''j1'']" ?ta None]
    by (simp add: publishJobCreated_def publish_or_throw_def channel_publish_def tape_broker_route)
  moreover have "calm_step plain_uin (tape_state ?d (tape_broker [job_created ''j1'']) None (Some (D_markPublished tape_claimed [], ?ta)))
      (tape_state \<lparr>jobs = [job_with pl], outbox_events = [tape_published]\<rparr> (tape_broker [job_created ''j1'']) None None)"
    using tape_batch_step [of "D_markPublished tape_claimed []" ?d "tape_broker [job_created ''j1'']" ?ta
        D_return "\<lparr>jobs = [job_with pl], outbox_events = [tape_published]\<rparr>" "tape_broker [job_created ''j1'']" "?ta\<lparr>published := published ?ta + 1\<rparr>" None]
    by (simp add: markOutboxPublished_def sql_update_def next_event_def)
  ultimately show ?thesis
    using tape_tick by (meson converse_rtranclp_into_rtranclp rtranclp.rtrancl_refl)
qed

lemma tape_reach:
  assumes "storable ''email'' pl" and "(calm_step plain_uin)\<^sup>*\<^sup>* (tape_fresh pl) s"
  shows "sys_reach plain_uin drops s"
  using assms(2)
proof (induction rule: rtranclp_induct)
  case base
  show ?case using sys_reach.step [OF sys_reach.start tape_create [OF assms(1)]] .
qed (auto intro: sys_reach.step calm_is_step)

lemma tape_dispatched:
  "storable ''email'' pl \<Longrightarrow> sys_reach plain_uin drops
     (tape_state \<lparr>jobs = [job_with pl], outbox_events = [tape_published]\<rparr> (tape_broker [job_created ''j1'']) None None)"
  by (rule tape_reach [OF _ tape_dispatches])

lemma tape_claimed_job:
  "claimJob plain_uin Io_ok 1 j1 \<lparr>jobs = [job_with pl], outbox_events = [tape_published]\<rparr>
     = (Inr (Some (claim_set 1 (job_with pl))), \<lparr>jobs = [claim_set 1 (job_with pl)], outbox_events = [tape_published]\<rparr>)"
  by (simp add: claimJob_def sql_simps claim_where_def claim_overflow_def int4_simps
      new_job_def)

abbreviation "tape_taken_db pl \<equiv> \<lparr>jobs = [claim_set 1 (job_with pl)], outbox_events = [tape_published]\<rparr>"
abbreviation "tape_busy p att \<equiv> Some \<lparr>dl_message = job_created ''j1'', dl_pc = p, dl_attached = att\<rparr>"

lemma tape_processes_job:
  "(calm_step plain_uin)\<^sup>*\<^sup>* (tape_fresh pl)
     (tape_state (tape_taken_db pl) (tape_broker []) (tape_busy (At_process j1 (claim_set 1 (job_with pl))) True) None)"
proof -
  have "calm_step plain_uin (tape_state \<lparr>jobs = [job_with pl], outbox_events = [tape_published]\<rparr> (tape_broker []) (tape_busy (At_claim j1) True) None)
    (tape_state (tape_taken_db pl) (tape_broker []) (tape_busy (At_process j1 (claim_set 1 (job_with pl))) True) None)"
    using tape_claimed_job [of pl] tape_worker_step [of 1 "At_claim j1" "\<lparr>jobs = [job_with pl], outbox_events = [tape_published]\<rparr>" "tape_broker []"
        "At_process j1 (claim_set 1 (job_with pl))" "tape_taken_db pl" "tape_broker []" "job_created ''j1''" None]
    by (simp add: settle_def tape_state_def)
  then show ?thesis using tape_dispatches [of pl] tape_delivery_step by (meson rtranclp.rtrancl_into_rtrancl)
qed

lemma tape_processing:
  "storable ''email'' pl \<Longrightarrow> sys_reach plain_uin drops
     (tape_state (tape_taken_db pl) (tape_broker []) (tape_busy (At_process j1 (claim_set 1 (job_with pl))) True) None)"
  by (rule tape_reach [OF _ tape_processes_job])

text \<open>The crash, and the redelivery that finds the job claimed.\<close>

lemma tape_crash:
  "settle 0 (job_created ''j1'') True (Finished (Crashed err)) (tape_state d (tape_broker []) (tape_busy p True) None)
     = tape_state d (tape_broker [job_created ''j1'']) None None"
  by (simp add: settle_def tape_state_def tape_broker_requeue fun_upd_idem)

lemma tape_redelivered:
  "(calm_step plain_uin)\<^sup>*\<^sup>* (tape_state (tape_taken_db pl) (tape_broker [job_created ''j1'']) None None)
     (tape_state (tape_taken_db pl) (tape_broker []) None None)"
proof -
  let ?d = "tape_taken_db pl"
  have "claimJob plain_uin Io_ok 2 j1 ?d = (Inr None, ?d)"
    by (simp add: claimJob_def sql_simps claim_where_def claim_set_def STALE_PROCESSING_THRESHOLD_SECONDS_def)
  with tape_worker_step [of 2 "At_claim j1" ?d "tape_broker []" "At_lookup j1" ?d "tape_broker []" "job_created ''j1''" None]
  have "calm_step plain_uin (tape_state ?d (tape_broker []) (tape_busy (At_claim j1) True) None)
      (tape_state ?d (tape_broker []) (tape_busy (At_lookup j1) True) None)"
    by (simp add: settle_def tape_state_def)
  moreover have "calm_step plain_uin (tape_state ?d (tape_broker []) (tape_busy (At_lookup j1) True) None) (tape_state ?d (tape_broker []) None None)"
    using tape_worker_step [of 3 "At_lookup j1" ?d "tape_broker []" "Finished Acked" ?d "tape_broker []" "job_created ''j1''" None]
    by (simp add: settle_def tape_state_def fun_upd_idem)
  ultimately show ?thesis using tape_delivery_step by (meson converse_rtranclp_into_rtranclp rtranclp.rtrancl_refl)
qed

lemma tape_crashed:
  assumes "storable ''email'' pl"
  shows "sys_reach plain_uin drops (tape_state (tape_taken_db pl) (tape_broker [job_created ''j1'']) None None)"
proof -
  let ?s = "tape_state (tape_taken_db pl) (tape_broker []) (tape_busy (At_process j1 (claim_set 1 (job_with pl))) True) None"
  have "s_active ?s 0 = tape_busy (At_process j1 (claim_set 1 (job_with pl))) True" by (simp add: tape_state_def)
  from sys_reach.step [OF tape_processing [OF assms] sys_step.worker_crash [OF this, of plain_uin drops "ThrownValue ''SIGKILL''"]]
  show ?thesis by (simp add: tape_crash)
qed

lemma tape_stranded: "storable ''email'' pl \<Longrightarrow> sys_reach plain_uin drops (tape_state (tape_taken_db pl) (tape_broker []) None None)"
  using tape_redelivered [of pl] tape_crashed [of pl drops]
  by (induction rule: rtranclp_induct) (auto intro: sys_reach.step calm_is_step)

lemma tape_is_stranded: "stranded plain_uin (tape_state (tape_taken_db pl) (tape_broker []) None None) ''j1'' (claim_set 1 (job_with pl))"
  by (simp add: stranded_def tape_state_def find_job_def claim_set_def unnamed_def has_message_def tape_broker_def
      pending_def new_event_def new_job_def)

text \<open>A run without lost channels is a run of the platform that may lose them.\<close>

lemma sys_step_drops: "sys_step uin False s s' \<Longrightarrow> sys_step uin True s s'"
  by (induction rule: sys_step.induct) (auto intro: sys_step.intros)

lemma sys_reach_drops: "sys_reach uin False s \<Longrightarrow> sys_reach uin True s"
  by (induction rule: sys_reach.induct) (auto intro: sys_reach.intros sys_step_drops)

lemma tape_find: "find_job (s_db (tape_state \<lparr>jobs = [j], outbox_events = es\<rparr> b a k)) (jid j) = Some j"
  by (simp add: tape_state_def find_job_def)

text \<open>The same run without the crash completes the job.\<close>

lemma tape_completed:
  "sys_reach plain_uin False (tape_state \<lparr>jobs = [completed_set 3 (claim_set 1 tape_job)], outbox_events = [tape_published]\<rparr>
     (tape_broker []) None None)"
proof -
  let ?d = "\<lparr>jobs = [claim_set 1 tape_job], outbox_events = [tape_published]\<rparr>"
  let ?d' = "\<lparr>jobs = [completed_set 3 (claim_set 1 tape_job)], outbox_events = [tape_published]\<rparr>"
  have "processJob tape_job = None" by (simp add: processJob_def js_get_def new_job_def)
  with tape_worker [OF tape_processing [OF no_nul(3)], of 2 "At_markCompleted j1" ?d "tape_broker []"]
  have r: "sys_reach plain_uin False (tape_state ?d (tape_broker [])
     (Some \<lparr>dl_message = job_created ''j1'', dl_pc = At_markCompleted j1, dl_attached = True\<rparr>) None)"
    by (simp add: settle_def tape_state_def)
  have "jid (claim_set 1 tape_job) = ''j1''" by (simp add: claim_set_def)
  then have "markCompleted plain_uin Io_ok 3 j1 ?d = (Inr (completed_set 3 (claim_set 1 tape_job)), ?d')"
    by (simp add: markCompleted_def update_or_throw_def sql_simps)
  with tape_worker [OF r, of 3 "Finished Acked" ?d' "tape_broker []"] show ?thesis
    by (simp add: settle_def tape_state_def fun_upd_idem)
qed

section \<open>A retry that is lost with a channel\<close>

text \<open>
  The processor fails, and while the handler is about to mark the job for its retry the channel goes: the broker delivers the message
  to another worker, who finds the job still claimed and acknowledges. The first handler marks the job and is killed before it has
  published the retry; on its way out it could not have put the message back anyway.
\<close>

abbreviation "shaky_payload \<equiv> [(''shouldFail'', JBool True)]"
abbreviation "shaky_job \<equiv> claim_set 1 (job_with shaky_payload)"
abbreviation "shaky_text \<equiv> ''Simulated failure for job type \"email\"''"
abbreviation "shaky_mark \<equiv> At_markRetrying j1 (calculateBackoffMs 1) shaky_text"
abbreviation "shaky_marked \<equiv> \<lparr>jobs = [retrying_set 5 shaky_text shaky_job], outbox_events = [tape_published]\<rparr>"

lemma shaky_storable: "storable ''email'' shaky_payload"
  by (simp add: storable_def has_nul_def)

lemma shaky_dropped:
  "sys_reach plain_uin True (tape_state (tape_taken_db shaky_payload) (tape_broker [job_created ''j1'']) (tape_busy shaky_mark False) None)"
proof -
  let ?d = "tape_taken_db shaky_payload"
  have p: "processJob shaky_job = Some (JsError ''Error'' shaky_text None)"
    by (simp add: processJob_def js_get_def new_job_def claim_set_def)
  then have "consumer_step plain_uin (calm 2) (At_process j1 shaky_job) \<lparr>ws_db = ?d, ws_broker = tape_broker [], dbErrorCount = 0\<rparr>
      = (shaky_mark, \<lparr>ws_db = ?d, ws_broker = tape_broker [], dbErrorCount = 0\<rparr>)"
    by (simp add: classify_failure_def Let_def claim_set_def new_job_def)
  from calm_is_step [OF tape_worker_step [OF this, of "job_created ''j1''" None], of True]
  have "sys_step plain_uin True (tape_state ?d (tape_broker []) (tape_busy (At_process j1 shaky_job) True) None)
      (tape_state ?d (tape_broker []) (tape_busy shaky_mark True) None)"
    by (simp add: settle_def tape_state_def)
  from sys_reach.step [OF tape_processing [OF shaky_storable] this]
  have r: "sys_reach plain_uin True (tape_state ?d (tape_broker []) (tape_busy shaky_mark True) None)" .
  have "s_active (tape_state ?d (tape_broker []) (tape_busy shaky_mark True) None) 0 = tape_busy shaky_mark True" by (simp add: tape_state_def)
  from sys_reach.step [OF r sys_step.channel_drop [OF TrueI this]] show ?thesis
    by (simp add: tape_state_def tape_broker_requeue)
qed

lemma shaky_redelivered:
  "sys_reach plain_uin True (tape_state (tape_taken_db shaky_payload) (tape_broker []) (tape_busy shaky_mark False) None)"
proof -
  let ?d = "tape_taken_db shaky_payload"
  let ?s = "\<lambda>b y. (tape_state ?d b (tape_busy shaky_mark False) None)\<lparr>s_active := (\<lambda>_. None)(0 := tape_busy shaky_mark False, 1 := y)\<rparr>"
  have same: "?s b None = tape_state ?d b (tape_busy shaky_mark False) None" for b by (simp add: tape_state_def fun_upd_idem)
  have od: "on_delivery (calm 0) (Some (pub_body (job_created ''j1''))) = At_claim j1"
    by (simp add: on_delivery_def job_created_def JSON_roundtrip jobId_message_def js_get_def)
  have "calm_step plain_uin (?s (tape_broker [job_created ''j1'']) None)
     (settle 1 (job_created ''j1'') True (on_delivery (calm 0) (Some (pub_body (job_created ''j1''))))
        ((?s (tape_broker [job_created ''j1'']) None)\<lparr>s_broker :=
           take_message (job_created ''j1'') (s_broker (?s (tape_broker [job_created ''j1'']) None))\<rparr>))"
    by (rule calm_step.delivers) (simp_all add: tape_state_def tape_broker_queue)
  then have "calm_step plain_uin (?s (tape_broker [job_created ''j1'']) None) (?s (tape_broker []) (tape_busy (At_claim j1) True))"
    by (simp add: od settle_def tape_state_def tape_broker_take)
  then have r1: "sys_reach plain_uin True (?s (tape_broker []) (tape_busy (At_claim j1) True))"
    using sys_reach.step [OF shaky_dropped] calm_is_step same by metis
  have work: "sys_step plain_uin True (?s (tape_broker []) (tape_busy p True)) (settle 1 (job_created ''j1'') True p' (?s (tape_broker []) (tape_busy p True)))"
    if "consumer_step plain_uin (calm t) p \<lparr>ws_db = ?d, ws_broker = tape_broker [], dbErrorCount = 0\<rparr>
      = (p', \<lparr>ws_db = ?d, ws_broker = tape_broker [], dbErrorCount = 0\<rparr>)" for p p' t
  proof -
    have "calm_step plain_uin (?s (tape_broker []) (tape_busy p True))
      (settle 1 (dl_message \<lparr>dl_message = job_created ''j1'', dl_pc = p, dl_attached = True\<rparr>) True p'
        (worker_commit 1 \<lparr>ws_db = ?d, ws_broker = tape_broker [], dbErrorCount = 0\<rparr> (?s (tape_broker []) (tape_busy p True))))"
      by (rule calm_step.worker_steps [where t = t]) (use that in \<open>simp_all add: tape_state_def worker_view_def\<close>)
    moreover have "worker_commit 1 \<lparr>ws_db = ?d, ws_broker = tape_broker [], dbErrorCount = 0\<rparr> (?s (tape_broker []) (tape_busy p True))
      = ?s (tape_broker []) (tape_busy p True)"
      by (simp add: worker_commit_def tape_state_def fun_upd_idem)
    ultimately show ?thesis using calm_is_step by fastforce
  qed
  have "claimJob plain_uin Io_ok 2 j1 ?d = (Inr None, ?d)"
    by (simp add: claimJob_def sql_simps claim_where_def claim_set_def STALE_PROCESSING_THRESHOLD_SECONDS_def)
  with work [of 2 "At_claim j1" "At_lookup j1"]
  have "sys_step plain_uin True (?s (tape_broker []) (tape_busy (At_claim j1) True)) (?s (tape_broker []) (tape_busy (At_lookup j1) True))"
    by (simp add: settle_def tape_state_def)
  with r1 have r2: "sys_reach plain_uin True (?s (tape_broker []) (tape_busy (At_lookup j1) True))" by (rule sys_reach.step)
  have "sys_step plain_uin True (?s (tape_broker []) (tape_busy (At_lookup j1) True)) (?s (tape_broker []) None)"
    using work [of 3 "At_lookup j1" "Finished Acked"] by (simp add: settle_def tape_state_def fun_upd_idem)
  from sys_reach.step [OF r2 this] show ?thesis unfolding same .
qed

text \<open>
  So what holds of \<open>QUEUED\<close> jobs in every run holds of \<open>RETRYING\<close> jobs only in runs in which no channel is lost under a living
  worker: here is a run after which such a job is named by no event, message or delivery, and stays as it is for good.
\<close>

lemma retrying_job_can_be_lost:
  "\<exists>s j. sys_reach plain_uin True s \<and> find_job (s_db s) ''j1'' = Some j \<and> status j = RETRYING \<and> \<not> tracked plain_uin s ''j1''
     \<and> (\<forall>s'. (sys_step plain_uin True)\<^sup>*\<^sup>* s s' \<longrightarrow> find_job (s_db s') ''j1'' = Some j)"
proof -
  let ?d = "tape_taken_db shaky_payload"
  let ?s = "tape_state ?d (tape_broker []) (tape_busy shaky_mark False) None"
  let ?a = "(calm 5)\<lparr>aw_ack := Some (ThrownValue []), aw_nack := Some (ThrownValue [])\<rparr>"
  let ?j = "retrying_set 5 shaky_text shaky_job"
  let ?next = "At_publishRetry j1 (calculateBackoffMs 1)"
  have "jid shaky_job = ''j1''" by (simp add: claim_set_def)
  then have "markRetrying plain_uin Io_ok 5 j1 shaky_text ?d = (Inr ?j, shaky_marked)"
    by (simp add: markRetrying_def update_or_throw_def sql_simps)
  then have st: "consumer_step plain_uin ?a shaky_mark (worker_view 0 ?s)
      = (?next, \<lparr>ws_db = shaky_marked, ws_broker = tape_broker [], dbErrorCount = 0\<rparr>)"
    by (simp add: worker_view_def tape_state_def calm_def)
  have act: "s_active ?s 0 = tape_busy shaky_mark False" by (simp add: tape_state_def)
  have "sys_step plain_uin True ?s (settle 0 (job_created ''j1'') False ?next
      (worker_commit 0 \<lparr>ws_db = shaky_marked, ws_broker = tape_broker [], dbErrorCount = 0\<rparr> ?s))"
    using sys_step.worker_step [OF act, of ?a plain_uin ?next] st by (simp add: env_ok_def fault_genuine_def)
  moreover have "settle 0 (job_created ''j1'') False ?next (worker_commit 0 \<lparr>ws_db = shaky_marked, ws_broker = tape_broker [], dbErrorCount = 0\<rparr> ?s)
      = tape_state shaky_marked (tape_broker []) (tape_busy ?next False) None"
    by (simp add: settle_def worker_commit_def tape_state_def fun_upd_idem)
  ultimately have r: "sys_reach plain_uin True (tape_state shaky_marked (tape_broker []) (tape_busy ?next False) None)"
    using sys_reach.step [OF shaky_redelivered] by simp
  have "s_active (tape_state shaky_marked (tape_broker []) (tape_busy ?next False) None) 0 = tape_busy ?next False" by (simp add: tape_state_def)
  from sys_reach.step [OF r sys_step.worker_crash [OF this, of plain_uin True "ThrownValue ''SIGKILL''"]]
  have reach: "sys_reach plain_uin True (tape_state shaky_marked (tape_broker []) None None)"
    by (simp add: settle_def tape_state_def fun_upd_idem)
  have "stranded plain_uin (tape_state shaky_marked (tape_broker []) None None) ''j1'' ?j"
    by (simp add: stranded_def tape_state_def find_job_def retrying_set_def claim_set_def unnamed_def has_message_def tape_broker_def
        pending_def new_event_def new_job_def)
  note keep = stranded_forever [OF _ sys_reach_inv [OF reach] this]
  have "\<not> tracked plain_uin (tape_state shaky_marked (tape_broker []) None None) ''j1''"
    by (simp add: tracked_def has_event_def has_message_def has_delivery_def tape_state_def tape_broker_def pending_def new_event_def)
  moreover have "status ?j = RETRYING" by (simp add: retrying_set_def)
  ultimately show ?thesis using reach keep strandedD(1) by (meson rtranclp.rtrancl_refl)
qed

end
