(* ===== verification/FairRuns.thy ===== *)
theory FairRuns
  imports Fairness Stranded
begin

text \<open>
  What happens in every fair run. The locale \<open>platform_run\<close> is a run from a reachable state; in it a pending event is
  published, because the batches take the oldest events first and the clock passes every stale claim; a message, a
  retry and a delivery under way lead to a claim; a claimed job is held by a handler that records an outcome. A job that
  never ended would come to rest in one row, since every change of an unfinished row raises a measure that the \<open>INT\<close> column
  bounds, and no unfinished row can rest. The last section gives a run to which all this applies.
\<close>

section \<open>Runs of the platform\<close>

locale platform_run =
  fixes uin :: uuid_input and drops :: bool and \<tau> :: "nat \<Rightarrow> timestamp" and \<sigma> :: "nat \<Rightarrow> sys"
  assumes start: "sys_reach uin drops (\<sigma> 0)" and fair: "fair_run uin \<tau> \<sigma>"
begin

lemma fine: "fine_step uin (\<tau> n) (\<sigma> n) (\<sigma> (Suc n))"
  using fair by (simp add: fair_run_def)

lemma reached: "sys_reach uin drops (\<sigma> n)"
proof (induction n)
  case (Suc n)
  then show ?case using fine_is_step [OF fine] by (metis sys_reach.step)
qed (rule start)

lemma inv: "plat_inv uin drops (\<sigma> n)"
  by (rule sys_reach_inv [OF reached])

lemma lives: "lives_on (s_db (\<sigma> n)) (s_db (\<sigma> (Suc n)))"
  using fine_is_step [OF fine] sys_step_lives [OF _ inv] lives_on_same by metis

lemma later: "T \<le> \<tau> n \<Longrightarrow> n \<le> m \<Longrightarrow> T \<le> \<tau> m"
  using fair by (auto simp: fair_run_def dest: monoD intro: order_trans)

lemma clock_passes: obtains n where "T \<le> \<tau> n"
  using fair unfolding fair_run_def by blast

lemma timer_fires: obtains m k where "n \<le> m" "s_batch (\<sigma> (Suc m)) k = Some (D_claim, empty_tally)"
proof -
  obtain m where m: "n \<le> m" "batch_begins (\<tau> m) (\<sigma> m) (\<sigma> (Suc m))" using fair unfolding fair_run_def by blast
  then obtain k where "\<sigma> (Suc m) = (\<sigma> m)\<lparr>s_batch := (s_batch (\<sigma> m))(k \<mapsto> (D_claim, empty_tally))\<rparr>" by (auto simp: batch_begins_def)
  with m(1) that [of m k] show ?thesis by simp
qed

lemma handler_taken:
  assumes "s_active (\<sigma> n) w = Some dl"
  obtains m where "n \<le> m" "s_active (\<sigma> m) w = Some dl" "handler_acts uin w (\<tau> m) (\<sigma> m) (\<sigma> (Suc m))"
  using handler.taken [of uin \<tau> \<sigma> w dl n, OF fine _ assms] fair that unfolding fair_run_def by blast

lemma batch_taken:
  assumes "s_batch (\<sigma> n) k = Some b"
  obtains m where "n \<le> m" "s_batch (\<sigma> m) k = Some b" "batch_acts k (\<tau> m) (\<sigma> m) (\<sigma> (Suc m))"
  using batch.taken [of uin \<tau> \<sigma> k b n, OF fine _ assms] fair that unfolding fair_run_def by blast

lemma delivered:
  assumes "x \<in> set (queue (s_broker (\<sigma> n)) QUEUE_NAME)"
  obtains m where "n \<le> m" "message_taken x (\<tau> m) (\<sigma> m) (\<sigma> (Suc m))"
  using message.taken [of uin \<tau> \<sigma> x n, OF fine _ assms] fair that unfolding fair_run_def by blast

lemma expires:
  assumes "x \<in> set (queue (s_broker (\<sigma> n)) RETRY_QUEUE_NAME)"
  obtains m where "n \<le> m" "delay_over x (\<tau> m) (\<sigma> m) (\<sigma> (Suc m))"
  using delay.taken [of uin \<tau> \<sigma> x n, OF fine _ assms] fair that unfolding fair_run_def by blast

text \<open>A batch that has claimed an event marks it.\<close>

lemma publishing_marks:
  assumes "publishing (\<sigma> n) i"
  shows "\<exists>m\<ge>n. \<not> event_pending (\<sigma> m) i"
proof -
  have goal: "\<exists>m\<ge>n. \<not> event_pending (\<sigma> m) i"
    if "s_batch (\<sigma> n) k = Some (p, ta)" "p = D_publish ev rest \<or> p = D_markPublished ev rest" "i \<in> ev_id ` set (ev # rest)" for n k p ev rest ta
    using that
  proof (induction "2 * length rest + (case p of D_publish _ _ \<Rightarrow> 1 | _ \<Rightarrow> 0)" arbitrary: n p ev rest ta rule: less_induct)
    case less
    obtain m where m: "n \<le> m" "s_batch (\<sigma> m) k = Some (p, ta)" "batch_acts k (\<tau> m) (\<sigma> m) (\<sigma> (Suc m))"
      by (rule batch_taken [OF less.prems(1)])
    have from_next: "\<exists>m'\<ge>n. \<not> event_pending (\<sigma> m') i" if "\<exists>m'\<ge>Suc m. \<not> event_pending (\<sigma> m') i"
      using that m(1) by (meson Suc_leD order_trans)
    show ?case
    proof (cases "p = D_publish ev rest")
      case True
      from batch_acts_publish(2) [OF m(3) m(2) [unfolded True]] less.hyps [of rest "D_markPublished ev rest" "Suc m" ta ev] less.prems(3)
      show ?thesis by (intro from_next) (simp add: True)
    next
      case False
      then have p: "p = D_markPublished ev rest" using less.prems(2) by simp
      obtain ta' where rows: "outbox_events (s_db (\<sigma> (Suc m))) = published_rows (\<tau> m) {ev_id ev} (outbox_events (s_db (\<sigma> m)))"
        and bt: "s_batch (\<sigma> (Suc m)) k = (case rest of [] \<Rightarrow> None | e # rest \<Rightarrow> Some (D_publish e rest, ta'))"
        by (rule batch_acts_mark [OF m(3) m(2) [unfolded p]])
      show ?thesis
      proof (cases "i = ev_id ev")
        case True
        then have "\<not> event_pending (\<sigma> (Suc m)) i" by (auto simp: event_pending_def rows published_rows_def pending_def)
        then show ?thesis by (intro from_next) blast
      next
        case False
        then obtain e r where r: "rest = e # r" "i \<in> ev_id ` set (e # r)" using less.prems(3) by (cases rest) auto
        with bt less.hyps [of r "D_publish e r" "Suc m" ta' e] show ?thesis by (intro from_next) (simp add: p)
      qed
    qed
  qed
  from assms goal show ?thesis unfolding publishing_def by blast
qed


text \<open>As long as older events are not claimed, a batch that begins late enough claims one.\<close>

lemma older_shrink: "c < \<tau> n \<Longrightarrow> older_pending c (\<sigma> (Suc n)) \<subseteq> older_pending c (\<sigma> n)"
  unfolding older_pending_def by (fastforce elim: fine_step_event [OF fine inv])

lemma own_shrink:
  assumes "find_job (s_db (\<sigma> n)) u = Some j" "status j \<noteq> DEAD_LETTERED"
  shows "own_pending u (\<sigma> (Suc n)) \<subseteq> own_pending u (\<sigma> n)"
  unfolding own_pending_def using assms by (fastforce elim: fine_step_event [OF fine inv])

lemma event_unique:
  "e \<in> set (outbox_events (s_db (\<sigma> n))) \<Longrightarrow> e' \<in> set (outbox_events (s_db (\<sigma> n))) \<Longrightarrow> ev_id e = ev_id e' \<Longrightarrow> e = e'"
  using plat_invD(1) [OF inv] by (auto simp: schema_ok_def distinct_map inj_on_def)

text \<open>An event that stays pending and is in no batch's hands becomes eligible, and stays so.\<close>

lemma becomes_eligible:
  assumes "e \<in> set (outbox_events (s_db (\<sigma> M)))" and "\<And>m. M \<le> m \<Longrightarrow> event_pending (\<sigma> m) (ev_id e)"
    and "\<And>m. M \<le> m \<Longrightarrow> \<not> publishing (\<sigma> m) (ev_id e)"
  obtains T where "\<And>m t. M \<le> m \<Longrightarrow> T \<le> t \<Longrightarrow> \<exists>e' \<in> set (outbox_events (s_db (\<sigma> m))).
      ev_id e' = ev_id e \<and> ev_created_at e' = ev_created_at e \<and> claim_eligible t e'"
proof -
  have same: "\<exists>e' \<in> set (outbox_events (s_db (\<sigma> m))). ev_id e' = ev_id e \<and> ev_created_at e' = ev_created_at e \<and> pending e'
      \<and> (claimed_at e' = claimed_at e \<or> claimed_at e' = None)" if "M \<le> m" for m
    using that
  proof (induction rule: dec_induct)
    case base
    then show ?case using assms(1) assms(2) [of M] event_unique by (auto simp: event_pending_def)
  next
    case (step m)
    then obtain e1 where e1: "e1 \<in> set (outbox_events (s_db (\<sigma> m)))" "ev_id e1 = ev_id e" "ev_created_at e1 = ev_created_at e"
      "claimed_at e1 = claimed_at e \<or> claimed_at e1 = None" by blast
    obtain e2 where e2: "e2 \<in> set (outbox_events (s_db (\<sigma> (Suc m))))" "ev_id e2 = ev_id e" "pending e2"
      using assms(2) [of "Suc m"] step by (auto simp: event_pending_def)
    from fine inv e2(1,3) show ?case
    proof (cases rule: fine_step_event)
      case (old e3)
      then have "e3 = e1" using event_unique [of e3 m e1] e1 e2 by simp
      moreover have "\<not> publishing (\<sigma> (Suc m)) (ev_id e2)" using assms(3) [of "Suc m"] step e2 by simp
      ultimately show ?thesis using old e1 e2 by (intro bexI [of _ e2]) auto
    next
      case new
      with e1 e2 imageI [OF e1(1), of ev_id] show ?thesis by simp
    qed
  qed
  define T where "T = (case claimed_at e of None \<Rightarrow> 0 | Some c \<Rightarrow> c + STALE_CLAIM_THRESHOLD_SECONDS * 1000000 + 1)"
  have "claim_eligible t e'" if "pending e'" "claimed_at e' = claimed_at e \<or> claimed_at e' = None" "T \<le> t" for t e'
    using that by (auto simp: claim_eligible_def T_def split: option.splits)
  with same that [of T] show ?thesis by metis
qed

lemma batch_claims_older:
  assumes "batch_acts k (\<tau> m) (\<sigma> m) (\<sigma> (Suc m))" and "s_batch (\<sigma> m) k = Some (D_claim, ta)"
    and e: "e \<in> set (outbox_events (s_db (\<sigma> m)))" "claim_eligible (\<tau> m) e"
  shows "\<exists>i \<in> older_pending (ev_created_at e) (\<sigma> m). publishing (\<sigma> (Suc m)) i"
proof -
  let ?rows = "outbox_events (s_db (\<sigma> m))"
  let ?ids = "select_claimable (\<tau> m) [] BATCH_SIZE ?rows"
  obtain ret d where c: "claimPendingOutboxEvents (\<tau> m) [] BATCH_SIZE (s_db (\<sigma> m)) = Inr (ret, d)"
    "s_batch (\<sigma> (Suc m)) k = (case ret of [] \<Rightarrow> None | e # rest \<Rightarrow> Some (D_publish e rest, empty_tally\<lparr>attempted := length ret\<rparr>))"
    using batch_acts_claim [OF assms(1,2)] by metis
  have ids: "set ?ids = ev_id ` set ret" using claimPending_ids(1) [OF plat_invD(1) [OF inv] c(1)] by simp
  have pub: "publishing (\<sigma> (Suc m)) i" if "i \<in> set ?ids" for i
    using that c(2) unfolding ids publishing_def by (cases ret) fastforce+
  have "\<exists>i \<in> set ?ids. i \<in> older_pending (ev_created_at e) (\<sigma> m)"
  proof (cases "ev_id e \<in> set ?ids")
    case True
    with e show ?thesis by (auto simp: older_pending_def claim_eligible_def)
  next
    case False
    let ?xs = "sort_key ev_created_at (filter (\<lambda>e. claim_eligible (\<tau> m) e \<and> ev_id e \<notin> set []) ?rows)"
    from select_claimable_left [OF e _ False] have l: "length (take BATCH_SIZE ?xs) = BATCH_SIZE"
      and le: "\<forall>e' \<in> set (take BATCH_SIZE ?xs). ev_created_at e' \<le> ev_created_at e" by simp_all
    have "0 < length (take BATCH_SIZE ?xs)" unfolding l by (simp add: BATCH_SIZE_def)
    then obtain e' where e': "e' \<in> set (take BATCH_SIZE ?xs)" using nth_mem by blast
    then have "e' \<in> set ?rows" "claim_eligible (\<tau> m) e'" by (auto dest!: in_set_takeD)
    moreover have "ev_id e' \<in> set ?ids" unfolding select_claimable_def using imageI [OF e', of ev_id] by simp
    ultimately show ?thesis using le e' by (auto simp: older_pending_def claim_eligible_def)
  qed
  with pub show ?thesis by blast
qed

lemma event_published:
  assumes "event_pending (\<sigma> n) i"
  shows "\<exists>m\<ge>n. \<not> event_pending (\<sigma> m) i"
proof (rule ccontr)
  assume "\<not> ?thesis"
  then have pend: "event_pending (\<sigma> m) i" if "n \<le> m" for m using that by blast
  obtain e where e: "e \<in> set (outbox_events (s_db (\<sigma> n)))" "ev_id e = i" "pending e" using assms by (auto simp: event_pending_def)
  let ?c = "ev_created_at e"
  have free: "\<not> publishing (\<sigma> m) i" if "n \<le> m" for m
    using publishing_marks [of m i] pend that order_trans by blast
  obtain N0 where N0: "?c + 1 \<le> \<tau> N0" by (rule clock_passes)
  define N where "N = max n N0"
  have N: "n \<le> N" "?c < \<tau> N" using later [OF N0, of N] by (simp_all add: N_def)
  have "older_pending ?c (\<sigma> (Suc m)) \<subseteq> older_pending ?c (\<sigma> m)" if "N \<le> m" for m
    by (rule older_shrink) (use later [of "?c + 1" N m] N that in simp)
  from shrinking_still [of N "\<lambda>m. older_pending ?c (\<sigma> m)", OF this pending_finite(1)]
  obtain M where M: "N \<le> M" and still: "\<And>m. M \<le> m \<Longrightarrow> older_pending ?c (\<sigma> m) = older_pending ?c (\<sigma> M)" by metis
  have idle: "\<not> publishing (\<sigma> m) x" if "M \<le> m" "x \<in> older_pending ?c (\<sigma> M)" for m x
  proof
    assume "publishing (\<sigma> m) x"
    then obtain m' where "m \<le> m'" "\<not> event_pending (\<sigma> m') x" using publishing_marks by blast
    then have "x \<notin> older_pending ?c (\<sigma> m')" by (auto simp: older_pending_def event_pending_def)
    with still [of m'] that \<open>m \<le> m'\<close> show False by simp
  qed
  obtain T where T: "\<And>m t. n \<le> m \<Longrightarrow> T \<le> t \<Longrightarrow> \<exists>e' \<in> set (outbox_events (s_db (\<sigma> m))).
      ev_id e' = i \<and> ev_created_at e' = ?c \<and> claim_eligible t e'"
    using becomes_eligible [OF e(1)] pend free e(2) by metis
  obtain m1 where m1: "T \<le> \<tau> m1" by (rule clock_passes)
  obtain m2 k where m2: "max M m1 \<le> m2" "s_batch (\<sigma> (Suc m2)) k = Some (D_claim, empty_tally)" by (rule timer_fires)
  from m2(2) obtain m3 where m3: "Suc m2 \<le> m3" "s_batch (\<sigma> m3) k = Some (D_claim, empty_tally)" "batch_acts k (\<tau> m3) (\<sigma> m3) (\<sigma> (Suc m3))"
    by (rule batch_taken)
  have ge: "M \<le> m3" "n \<le> m3" "T \<le> \<tau> m3" using m2 m3 M N later [OF m1, of m3] by auto
  obtain e' where e': "e' \<in> set (outbox_events (s_db (\<sigma> m3)))" "ev_created_at e' = ?c" "claim_eligible (\<tau> m3) e'" using T ge by blast
  from batch_claims_older [OF m3(3,2) e'(1,3)] e'(2) obtain x where
    "x \<in> older_pending ?c (\<sigma> m3)" "publishing (\<sigma> (Suc m3)) x" by auto
  with idle [of "Suc m3" x] still [of m3] ge(1) show False by simp
qed


text \<open>The identity of a job never changes.\<close>

lemma identity:
  assumes "find_job (s_db (\<sigma> 0)) u = Some j"
  shows "\<exists>j'. find_job (s_db (\<sigma> n)) u = Some j' \<and> processJob j' = processJob j \<and> same_identity j j'"
proof (induction n)
  case 0
  with assms show ?case by (simp add: same_identity_def)
next
  case (Suc n)
  then obtain j' where j': "find_job (s_db (\<sigma> n)) u = Some j'" "processJob j' = processJob j" "same_identity j j'" by blast
  then obtain j'' where "find_job (s_db (\<sigma> (Suc n))) u = Some j''" "j'' = j' \<or> same_identity j' j''"
    using lives [of n] unfolding lives_on_def by blast
  then have "find_job (s_db (\<sigma> (Suc n))) u = Some j''" "same_identity j j''" using j'(3) by (auto simp: same_identity_def)
  moreover from this(2) have "processJob j'' = processJob j" by (intro processJob_same) (simp_all add: same_identity_def)
  ultimately show ?case by blast
qed

text \<open>A job that never ends comes to rest in one row.\<close>

lemma row_settles:
  assumes never: "\<And>n. \<exists>j. find_job (s_db (\<sigma> n)) u = Some j \<and> unfinished j"
  obtains N k where "unfinished k" "\<And>n. N \<le> n \<Longrightarrow> find_job (s_db (\<sigma> n)) u = Some k"
proof -
  let ?x = "\<lambda>n. find_job (s_db (\<sigma> n)) u"
  have up: "?x (Suc n) = ?x n \<or> row_measure (?x n) < row_measure (?x (Suc n))" for n
  proof -
    obtain j j' where j: "?x n = Some j" "unfinished j" "?x (Suc n) = Some j'" "unfinished j'" using never [of n] never [of "Suc n"] by blast
    then consider "j' = j" | e where "life_step (life_of j) e (life_of j')" using lives [of n] unfolding lives_on_def by (metis option.inject)
    then show ?thesis using j unfinished_step(1) by cases auto
  qed
  have bound: "row_measure (?x n) \<le> 2 * int4_max" for n
  proof -
    obtain j where j: "?x n = Some j" using never by blast
    then have "job_row_ok j" using plat_invD(1) [OF inv [of n]] by (auto simp: schema_ok_def list_all_iff dest: find_job_Some)
    with j show ?thesis by (auto simp: row_measure_def job_row_ok_def int4_def)
  qed
  obtain M where M: "\<And>n. M \<le> n \<Longrightarrow> ?x n = ?x M" using eventually_still [of 0 ?x row_measure "2 * int4_max"] up bound by metis
  obtain k where "?x M = Some k" "unfinished k" using never by blast
  with M that show ?thesis by metis
qed

section \<open>A waiting job is claimed\<close>

lemma message_leads:
  assumes "x \<in> set (queue (s_broker (\<sigma> n)) QUEUE_NAME)" "names_job uin u x"
  shows "\<exists>m\<ge>n. about_to_claim uin (\<sigma> m) u"
proof -
  obtain m where m: "n \<le> m" "message_taken x (\<tau> m) (\<sigma> m) (\<sigma> (Suc m))" by (rule delivered [OF assms(1)])
  obtain v where v: "on_delivery (calm (\<tau> m)) (Some (pub_body x)) = At_claim v" "uin v = Inr (Some u)"
    using assms(2) by (auto simp: names_job_def on_delivery_def)
  then have "about_to_claim uin (\<sigma> (Suc m)) u" using m(2) by (auto simp: message_taken_def about_to_claim_def settle_def)
  with m(1) show ?thesis by (meson le_SucI)
qed

lemma retry_leads:
  assumes "x \<in> set (queue (s_broker (\<sigma> n)) RETRY_QUEUE_NAME)" "names_job uin u x"
  shows "\<exists>m\<ge>n. about_to_claim uin (\<sigma> m) u"
proof -
  obtain m where m: "n \<le> m" "delay_over x (\<tau> m) (\<sigma> m) (\<sigma> (Suc m))" by (rule expires [OF assms(1)])
  from expire_retry(1) [OF plat_invD(3) [OF inv], of x m] m(2) have
    "\<exists>y \<in> set (queue (s_broker (\<sigma> (Suc m))) QUEUE_NAME). names_job uin u y"
    using assms(2) names_job_expired by (auto simp: delay_over_def)
  then obtain m' where "Suc m \<le> m'" "about_to_claim uin (\<sigma> m') u" using message_leads by blast
  with m(1) show ?thesis by (meson Suc_leD order_trans)
qed

lemma delivery_leads:
  assumes act: "s_active (\<sigma> n) w = Some dl" "dl_attached dl" "names_job uin u (dl_message dl)" "leads_on (dl_pc dl)"
  shows "\<exists>m\<ge>n. about_to_claim uin (\<sigma> m) u"
proof -
  have dok: "delivery_ok dl" using plat_invD(5) [OF inv [of n]] act(1) by (auto simp: deliveries_ok_def)
  obtain m where m: "n \<le> m" "s_active (\<sigma> m) w = Some dl" "handler_acts uin w (\<tau> m) (\<sigma> m) (\<sigma> (Suc m))" by (rule handler_taken [OF act(1)])
  obtain p' x where h: "consumer_step uin (calm (\<tau> m)) (dl_pc dl) (worker_view w (\<sigma> m)) = (p', x)"
    "\<sigma> (Suc m) = settle w (dl_message dl) True p' (worker_commit w x (\<sigma> m))" using handler_actsE [OF m(3)] m(2) act(2) calm_on_simps(1) by (metis option.inject)
  show ?thesis
  proof (cases "dl_pc dl")
    case (At_claim v)
    then have "uin v = Inr (Some u)" using delivery_binding [OF dok] act(3) by simp
    with act(1,2) At_claim have "about_to_claim uin (\<sigma> n) u" unfolding about_to_claim_def by (metis delivery.surjective old.unit.exhaust)
    then show ?thesis by blast
  next
    case (At_publishRetry v k)
    then have v: "uin v = Inr (Some u)" using delivery_binding [OF dok] act(3) by simp
    have "job_retry_message v k \<in> set (queue (s_broker (\<sigma> (Suc m))) RETRY_QUEUE_NAME)"
      using publish_tracks(1) [where uin = uin and v = v and att = True, OF plat_invD(3) [OF inv [of m]] v] h by (simp add: At_publishRetry)
    from retry_leads [OF this names_job_retry [where uin = uin and v = v, OF v]] m(1) show ?thesis by (meson Suc_leD order_trans)
  next
    case (At_backoff k)
    with h have "dl_message dl \<in> set (queue (s_broker (\<sigma> (Suc m))) QUEUE_NAME)" by (auto simp: nack_unguarded_def settle_def requeue_def)
    from message_leads [OF this act(3)] m(1) show ?thesis by (meson Suc_leD order_trans)
  qed (use act(4) in \<open>simp_all add: leads_on_def\<close>)
qed

lemma tracked_leads:
  assumes "tracked uin (\<sigma> n) u" and "\<not> has_event (\<sigma> n) u"
  shows "\<exists>m\<ge>n. about_to_claim uin (\<sigma> m) u"
  using assms message_leads retry_leads delivery_leads unfolding tracked_def has_message_def has_delivery_def by blast

text \<open>A handler that has a retry to publish, publishes it, whether it can still acknowledge or not.\<close>

lemma in_hands_leads:
  assumes "in_hands uin (\<sigma> n) u"
  shows "\<exists>m\<ge>n. about_to_claim uin (\<sigma> m) u"
proof -
  obtain w dl v k where h: "s_active (\<sigma> n) w = Some dl" "dl_pc dl = At_publishRetry v k" and v: "uin v = Inr (Some u)"
    using assms by (auto simp: in_hands_def)
  obtain m where m: "n \<le> m" "s_active (\<sigma> m) w = Some dl" "handler_acts uin w (\<tau> m) (\<sigma> m) (\<sigma> (Suc m))" by (rule handler_taken [OF h(1)])
  obtain p' x where "consumer_step uin (calm_on (dl_attached dl) (\<tau> m)) (At_publishRetry v k) (worker_view w (\<sigma> m)) = (p', x)"
    "\<sigma> (Suc m) = settle w (dl_message dl) (dl_attached dl) p' (worker_commit w x (\<sigma> m))"
    using handler_actsE [OF m(3)] m(2) h(2) by (metis option.inject)
  from publish_tracks(1) [where uin = uin and v = v, OF plat_invD(3) [OF inv [of m]] v this(1)] this(2)
  have "job_retry_message v k \<in> set (queue (s_broker (\<sigma> (Suc m))) RETRY_QUEUE_NAME)" by simp
  from retry_leads [OF this names_job_retry [where uin = uin and v = v, OF v]] m(1) show ?thesis by (meson Suc_leD order_trans)
qed

lemma stays_followed:
  assumes "\<And>j. find_job (s_db (\<sigma> 0)) u = Some j \<Longrightarrow> waits j \<Longrightarrow> followed uin (\<sigma> 0) u"
    and "find_job (s_db (\<sigma> n)) u = Some j" "waits j"
  shows "followed uin (\<sigma> n) u"
  using assms(2,3)
proof (induction n arbitrary: j)
  case (Suc n)
  then show ?case using fine_step_followed [OF fine inv] by blast
qed (rule assms(1))

lemma claim_changes:
  assumes ab: "about_to_claim uin (\<sigma> n) u" and k: "\<And>m. n \<le> m \<Longrightarrow> find_job (s_db (\<sigma> m)) u = Some k" and "waits k"
    and room: "total_attempt_count k < int4_max"
  shows False
proof -
  obtain w dl v where a: "s_active (\<sigma> n) w = Some dl" "dl_pc dl = At_claim v" "uin v = Inr (Some u)" "dl_attached dl"
    using ab by (auto simp: about_to_claim_def)
  obtain m where m: "n \<le> m" "s_active (\<sigma> m) w = Some dl" "handler_acts uin w (\<tau> m) (\<sigma> m) (\<sigma> (Suc m))" by (rule handler_taken [OF a(1)])
  obtain p' x where h: "consumer_step uin (calm (\<tau> m)) (At_claim v) (worker_view w (\<sigma> m)) = (p', x)"
    "\<sigma> (Suc m) = settle w (dl_message dl) True p' (worker_commit w x (\<sigma> m))" using handler_actsE [OF m(3)] m(2) a(2,4) calm_on_simps(1) by (metis option.inject)
  have "life_inv (life_of k)" using plat_invD(2) [OF inv [of m]] k [OF m(1)] life_reach_inv by (auto simp: lives_ok_def)
  then have ovf: "\<not> claim_overflow k" using room by (auto simp: claim_overflow_def int4_overflow_def life_inv_def)
  have cw: "claim_where (\<tau> m) k" using assms(3) by (auto simp: waits_def claim_where_def)
  have ok: "schema_ok (ws_db (worker_view w (\<sigma> m)))" "find_job (ws_db (worker_view w (\<sigma> m))) u = Some k"
    using plat_invD(1) [OF inv [of m]] k [OF m(1)] by simp_all
  from calm_claim [where uin = uin and v = v, OF ok(1) a(3) ok(2) cw ovf] h have "find_job (s_db (\<sigma> (Suc m))) u = Some (claim_set (\<tau> m) k)"
    by (metis Pair_inject fun_upd_same settle_frame(1) worker_commit_simps(1) worker_state.select_convs(1) worker_state.surjective worker_state.update_convs(1) worker_state.update_convs(3))
  with k [of "Suc m"] m(1) have "claim_set (\<tau> m) k = k" by simp
  then have "attempt_count k + 1 = attempt_count k" by (metis claim_set_simps(1))
  then show False by simp
qed

lemma waiting_row_moves:
  assumes k: "\<And>m. N \<le> m \<Longrightarrow> find_job (s_db (\<sigma> m)) u = Some k" and w: "waits k" and room: "total_attempt_count k < int4_max"
    and fol: "\<And>m. N \<le> m \<Longrightarrow> followed uin (\<sigma> m) u"
  shows False
proof -
  have "own_pending u (\<sigma> (Suc m)) \<subseteq> own_pending u (\<sigma> m)" if "N \<le> m" for m
    by (rule own_shrink [OF k [OF that]]) (use w in \<open>auto simp: waits_def\<close>)
  from shrinking_still [of N "\<lambda>m. own_pending u (\<sigma> m)", OF this pending_finite(2)]
  obtain M where M: "N \<le> M" and still: "\<And>m. M \<le> m \<Longrightarrow> own_pending u (\<sigma> m) = own_pending u (\<sigma> M)" by metis
  have "own_pending u (\<sigma> M) = {}"
  proof (rule ccontr)
    assume "own_pending u (\<sigma> M) \<noteq> {}"
    then obtain i where i: "i \<in> own_pending u (\<sigma> M)" by blast
    then have "event_pending (\<sigma> M) i" by (auto simp: own_pending_def event_pending_def)
    then obtain m where m: "M \<le> m" "\<not> event_pending (\<sigma> m) i" using event_published by blast
    then have "i \<notin> own_pending u (\<sigma> m)" by (auto simp: own_pending_def event_pending_def)
    with i still [OF m(1)] show False by simp
  qed
  then have "\<not> has_event (\<sigma> M) u" by (auto simp: has_event_def own_pending_def)
  with fol [OF M] obtain m where "M \<le> m" "about_to_claim uin (\<sigma> m) u"
    using tracked_leads in_hands_leads unfolding followed_def by blast
  with claim_changes [of m u k] k w room M show False by (meson order_trans)
qed


section \<open>A claimed job is marked\<close>

lemma processing_held:
  assumes never: "\<And>n. \<exists>j. find_job (s_db (\<sigma> n)) u = Some j \<and> unfinished j"
    and first: "\<And>j. find_job (s_db (\<sigma> 0)) u = Some j \<Longrightarrow> status j \<noteq> PROCESSING"
    and j: "find_job (s_db (\<sigma> n)) u = Some j" "status j = PROCESSING"
  shows "held uin (\<sigma> n) u"
  using j
proof (induction n arbitrary: j)
  case 0
  with first show ?case by blast
next
  case (Suc n)
  obtain i where i: "find_job (s_db (\<sigma> n)) u = Some i" "unfinished i" using never by blast
  show ?case
  proof (cases "i = j")
    case False
    have nd: "status i \<noteq> DEAD_LETTERED" using i(2) by (auto simp: unfinished_def)
    have ch: "find_job (s_db (\<sigma> (Suc n))) u \<noteq> Some i" using False Suc.prems(1) by simp
    obtain w dl p' x e j' where "s_active (\<sigma> n) w = Some dl"
      and h: "consumer_step uin (calm_on (dl_attached dl) (\<tau> n)) (dl_pc dl) (worker_view w (\<sigma> n)) = (p', x)"
      "\<sigma> (Suc n) = settle w (dl_message dl) (dl_attached dl) p' (worker_commit w x (\<sigma> n))" "pc_binding uin (dl_pc dl) = Inr (Some u)"
      "pc_event (dl_pc dl) e" "find_job (s_db (\<sigma> (Suc n))) u = Some j'" "life_step (life_of i) e (life_of j')"
      by (rule fine_step_row [OF fine inv i(1) nd ch])
    have "unfinished j" using Suc.prems(2) by (simp add: unfinished_def)
    then have "e = Claim" using unfinished_step(2) [OF h(6) i(2)] h(5) Suc.prems by simp
    with h(4) obtain v where v: "dl_pc dl = At_claim v" by (cases "dl_pc dl") auto
    with h(3) have u: "uin v = Inr (Some u)" by (simp add: pc_binding_def)
    have "find_job (ws_db x) u \<noteq> find_job (s_db (\<sigma> n)) u" using ch i(1) h(2) by simp
    from claim_held [where uin = uin and v = v, OF inv h(1) [unfolded v] u this] show ?thesis unfolding h(2) .
  next
    case True
    with Suc i(1) obtain w dl where dl: "s_active (\<sigma> n) w = Some dl" "pc_claimed (dl_pc dl)" "pc_binding uin (dl_pc dl) = Inr (Some u)"
      unfolding held_def by blast
    from handler.persists [OF fine dl(1)] consider "s_active (\<sigma> (Suc n)) w = Some dl" | "handler_acts uin w (\<tau> n) (\<sigma> n) (\<sigma> (Suc n))" by blast
    then show ?thesis
    proof cases
      case 1
      with dl show ?thesis unfolding held_def by blast
    next
      case 2
      from holder_acts [OF inv 2 dl i(1)] True Suc.prems show ?thesis unfolding held_def by auto
    qed
  qed
qed

lemma held_row_moves:
  assumes held: "held uin (\<sigma> n) u" and k: "\<And>m. n \<le> m \<Longrightarrow> find_job (s_db (\<sigma> m)) u = Some k" and p: "status k = PROCESSING"
  shows False
proof -
  obtain w dl where dl: "s_active (\<sigma> n) w = Some dl" "pc_claimed (dl_pc dl)" "pc_binding uin (dl_pc dl) = Inr (Some u)"
    using held unfolding held_def by blast
  from dl k show False
  proof (induction "pc_rank (dl_pc dl)" arbitrary: n dl rule: less_induct)
    case less
    obtain m where m: "n \<le> m" "s_active (\<sigma> m) w = Some dl" "handler_acts uin w (\<tau> m) (\<sigma> m) (\<sigma> (Suc m))"
      by (rule handler_taken [OF less.prems(1)])
    have "find_job (s_db (\<sigma> (Suc m))) u = Some k" using less.prems(4) [of "Suc m"] m(1) by simp
    with holder_acts [OF inv m(3,2) less.prems(2,3) less.prems(4) [OF m(1)] p] p obtain dl' where
      "s_active (\<sigma> (Suc m)) w = Some dl'" "pc_claimed (dl_pc dl')" "pc_rank (dl_pc dl') < pc_rank (dl_pc dl)"
      "pc_binding uin (dl_pc dl') = Inr (Some u)" by auto
    with less.hyps [of dl' "Suc m"] less.prems(4) m(1) show False by simp
  qed
qed

section \<open>Every waiting job ends\<close>

lemma waiting_job_ends:
  assumes j: "find_job (s_db (\<sigma> 0)) u = Some j" "waits j" and fol: "followed uin (\<sigma> 0) u"
    and room: "\<And>n k. find_job (s_db (\<sigma> n)) u = Some k \<Longrightarrow> total_attempt_count k < int4_max"
  shows "\<exists>n j'. find_job (s_db (\<sigma> n)) u = Some j' \<and> same_identity j j'
     \<and> status j' = (if processJob j = None then COMPLETED else DEAD_LETTERED)"
proof -
  have "\<exists>n k. find_job (s_db (\<sigma> n)) u = Some k \<and> \<not> unfinished k"
  proof (rule ccontr)
    assume no: "\<not> ?thesis"
    have never: "\<exists>k. find_job (s_db (\<sigma> n)) u = Some k \<and> unfinished k" for n using identity [OF j(1), of n] no by blast
    obtain k N where k: "unfinished k" "\<And>n. N \<le> n \<Longrightarrow> find_job (s_db (\<sigma> n)) u = Some k" by (rule row_settles [OF never]) blast
    show False
    proof (cases "status k = PROCESSING")
      case True
      have "held uin (\<sigma> N) u" by (rule processing_held [OF never _ k(2) True]) (use j in \<open>auto simp: waits_def\<close>)
      then show False by (rule held_row_moves) (use k(2) True in auto)
    next
      case False
      then have "waits k" using k(1) by (auto simp: unfinished_def waits_def)
      moreover have "followed uin (\<sigma> m) u" if "N \<le> m" for m
        by (rule stays_followed [OF fol k(2) [OF that] calculation])
      ultimately show False using waiting_row_moves k(2) room by blast
    qed
  qed
  then obtain n k where k: "find_job (s_db (\<sigma> n)) u = Some k" "\<not> unfinished k" by blast
  then have id: "processJob k = processJob j" "same_identity j k" using identity [OF j(1), of n] by auto
  have "life_inv (life_of k)" using plat_invD(2) [OF inv [of n]] k(1) life_reach_inv by (auto simp: lives_ok_def)
  then have "status k = COMPLETED \<or> status k = DEAD_LETTERED" using k(2) by (cases "status k") (auto simp: life_inv_def unfinished_def)
  moreover have "outcome_ok k" using sys_reach_truthful [OF reached [of n]] k(1) by (auto simp: truthful_def rows_truthful_def)
  ultimately have "status k = (if processJob j = None then COMPLETED else DEAD_LETTERED)" using id by (auto simp: outcome_ok_def)
  with k(1) id show ?thesis by blast
qed

end

section \<open>A fair run\<close>

text \<open>The message of the published job is delivered, the job is claimed, processed and completed, and from then on the
  timer starts a batch that finds nothing, again and again.\<close>

definition tape_done :: "(dispatch_pc \<times> tally) option \<Rightarrow> sys" where
  "tape_done k = tape_state \<lparr>jobs = [completed_set 3 (claim_set 1 tape_job)], outbox_events = [tape_published]\<rparr> (tape_broker []) None k"

definition tape_run :: "nat \<Rightarrow> sys" where
  "tape_run n = (let fresh = \<lparr>jobs = [tape_job], outbox_events = [tape_published]\<rparr>;
       taken = \<lparr>jobs = [claim_set 1 tape_job], outbox_events = [tape_published]\<rparr>;
       busy = (\<lambda>p. Some \<lparr>dl_message = job_created ''j1'', dl_pc = p, dl_attached = True\<rparr>)
     in if n = 0 then tape_state fresh (tape_broker [job_created ''j1'']) None None
     else if n = 1 then tape_state fresh (tape_broker []) (busy (At_claim j1)) None
     else if n = 2 then tape_state taken (tape_broker []) (busy (At_process j1 (claim_set 1 tape_job))) None
     else if n = 3 then tape_state taken (tape_broker []) (busy (At_markCompleted j1)) None
     else tape_done (if even n then None else Some (D_claim, empty_tally)))"

lemma tape_handler:
  assumes "consumer_step plain_uin (calm t) p \<lparr>ws_db = d, ws_broker = b, dbErrorCount = 0\<rparr>
      = (p', \<lparr>ws_db = d', ws_broker = b', dbErrorCount = 0\<rparr>)"
  shows "handler_acts plain_uin 0 t (tape_state d b (Some \<lparr>dl_message = m, dl_pc = p, dl_attached = True\<rparr>) k)
     (settle 0 m True p' (tape_state d' b' (Some \<lparr>dl_message = m, dl_pc = p, dl_attached = True\<rparr>) k))"
proof -
  let ?s = "\<lambda>d b. tape_state d b (Some \<lparr>dl_message = m, dl_pc = p, dl_attached = True\<rparr>) k"
  have "worker_commit 0 \<lparr>ws_db = d', ws_broker = b', dbErrorCount = 0\<rparr> (?s d b) = ?s d' b'"
    by (simp add: worker_commit_def tape_state_def fun_upd_idem)
  moreover have "s_active (?s d b) 0 = Some \<lparr>dl_message = m, dl_pc = p, dl_attached = True\<rparr>" by (simp add: tape_state_def)
  moreover have "worker_view 0 (?s d b) = \<lparr>ws_db = d, ws_broker = b, dbErrorCount = 0\<rparr>" by (simp add: worker_view_def tape_state_def)
  ultimately show ?thesis unfolding handler_acts_def using assms by fastforce
qed

lemma tape_taken: "message_taken (job_created ''j1'') 0 (tape_run 0) (tape_run 1)"
proof -
  have "on_delivery (calm 0) (Some (pub_body (job_created ''j1''))) = At_claim j1"
    by (simp add: on_delivery_def job_created_def JSON_roundtrip jobId_message_def js_get_def)
  then show ?thesis unfolding message_taken_def
    by (intro exI [of _ 0]) (simp add: tape_run_def tape_state_def tape_broker_queue settle_def tape_broker_take)
qed

lemma tape_claims: "handler_acts plain_uin 0 1 (tape_run 1) (tape_run 2)"
  using tape_claimed_job tape_handler [of 1 "At_claim j1" "\<lparr>jobs = [tape_job], outbox_events = [tape_published]\<rparr>" "tape_broker []"
      "At_process j1 (claim_set 1 tape_job)" "\<lparr>jobs = [claim_set 1 tape_job], outbox_events = [tape_published]\<rparr>" "tape_broker []"
      "job_created ''j1''" None]
  by (simp add: tape_run_def settle_def tape_state_def)

lemma tape_processes: "handler_acts plain_uin 0 2 (tape_run 2) (tape_run 3)"
proof -
  have "processJob tape_job = None" by (simp add: processJob_def js_get_def new_job_def)
  with tape_handler [of 2 "At_process j1 (claim_set 1 tape_job)" "\<lparr>jobs = [claim_set 1 tape_job], outbox_events = [tape_published]\<rparr>" "tape_broker []"
      "At_markCompleted j1" "\<lparr>jobs = [claim_set 1 tape_job], outbox_events = [tape_published]\<rparr>" "tape_broker []" "job_created ''j1''" None]
  show ?thesis by (simp add: tape_run_def settle_def tape_state_def)
qed

lemma tape_marks: "handler_acts plain_uin 0 3 (tape_run 3) (tape_run 4)"
proof -
  let ?d = "\<lparr>jobs = [claim_set 1 tape_job], outbox_events = [tape_published]\<rparr>"
  let ?d' = "\<lparr>jobs = [completed_set 3 (claim_set 1 tape_job)], outbox_events = [tape_published]\<rparr>"
  have "jid (claim_set 1 tape_job) = ''j1''" by (simp add: claim_set_def)
  then have "markCompleted plain_uin Io_ok 3 j1 ?d = (Inr (completed_set 3 (claim_set 1 tape_job)), ?d')"
    by (simp add: markCompleted_def update_or_throw_def sql_simps)
  with tape_handler [of 3 "At_markCompleted j1" ?d "tape_broker []" "Finished Acked" ?d' "tape_broker []" "job_created ''j1''" None]
  show ?thesis by (simp add: tape_run_def tape_done_def settle_def tape_state_def fun_upd_idem)
qed

lemma tape_idles:
  "batch_begins t (tape_done None) (tape_done (Some (D_claim, empty_tally)))"
  "batch_acts 0 t (tape_done (Some (D_claim, empty_tally))) (tape_done None)"
proof -
  show "batch_begins t (tape_done None) (tape_done (Some (D_claim, empty_tally)))"
    unfolding batch_begins_def by (intro exI [of _ 0]) (simp add: tape_done_def tape_state_def)
  let ?s = "tape_done (Some (D_claim, empty_tally))"
  have "claimPendingOutboxEvents t [] BATCH_SIZE (s_db ?s) = Inr ([], s_db ?s)"
    by (simp add: tape_done_def tape_state_def claimPendingOutboxEvents_def select_claimable_def claim_eligible_def pending_def sql_update_def)
  moreover have "batch_store 0 D_return \<lparr>ds_db = s_db ?s, ds_broker = s_broker ?s, ds_tally = tl\<rparr> ?s = tape_done None" for tl
    by (simp add: batch_store_def tape_done_def tape_state_def fun_upd_idem)
  moreover have "s_batch ?s 0 = Some (D_claim, empty_tally)" by (simp add: tape_done_def tape_state_def)
  ultimately show "batch_acts 0 t ?s (tape_done None)" unfolding batch_acts_def by (simp add: next_event_def)
qed

lemma tape_later: "4 \<le> n \<Longrightarrow> tape_run n = tape_done (if even n then None else Some (D_claim, empty_tally))"
  by (simp add: tape_run_def Let_def)

lemma tape_fine: "fine_step plain_uin (int n) (tape_run n) (tape_run (Suc n))"
proof -
  consider "n = 0" | "n = 1" | "n = 2" | "n = 3" | "4 \<le> n" "even n" | "4 \<le> n" "odd n" by linarith
  then show ?thesis
  proof cases
    case 1
    with tape_taken fine_step.delivery show ?thesis by fastforce
  next
    case 2
    with tape_claims fine_step.handler show ?thesis by (fastforce simp: numeral_2_eq_2)
  next
    case 3
    with tape_processes fine_step.handler show ?thesis by (fastforce simp: numeral_3_eq_3 numeral_2_eq_2)
  next
    case 4
    with tape_marks fine_step.handler show ?thesis by (fastforce simp: numeral_eq_Suc)
  next
    case 5
    with tape_idles(1) fine_step.timer show ?thesis by (fastforce simp: tape_later)
  next
    case 6
    with tape_idles(2) fine_step.batch show ?thesis by (fastforce simp: tape_later)
  qed
qed

lemma tape_run_fair: "fair_run plain_uin int tape_run"
proof -
  have idle: "s_active (tape_run n) w = None" "queue (s_broker (tape_run n)) q = []" if "4 \<le> n" for n w q
    using that by (simp_all add: tape_later tape_done_def tape_state_def tape_broker_def)
  have quiet: "s_batch (tape_run n) k = None" if "4 \<le> n" "even n" for n k
    using that by (simp add: tape_later tape_done_def tape_state_def)
  have off: "weakly_fair ready act int tape_run" if "\<And>n. 4 \<le> n \<Longrightarrow> even n \<Longrightarrow> \<not> ready (tape_run n)" for ready and act :: "timestamp \<Rightarrow> sys \<Rightarrow> sys \<Rightarrow> bool"
    unfolding weakly_fair_def
  proof (intro allI impI)
    fix n assume a: "\<forall>m\<ge>n. ready (tape_run m)"
    have "\<not> ready (tape_run (4 + 2 * n))" by (rule that) simp_all
    with a show "\<exists>m\<ge>n. act (int m) (tape_run m) (tape_run (Suc m))" by simp
  qed
  have "\<exists>m\<ge>n. batch_begins (int m) (tape_run m) (tape_run (Suc m))" for n
    using tape_idles(1) [of "int (4 + 2 * n)"] by (intro exI [of _ "4 + 2 * n"]) (simp add: tape_later)
  moreover have "\<exists>n. T \<le> int n" for T by (rule exI [of _ "nat T"]) simp
  ultimately show ?thesis
    unfolding fair_run_def using tape_fine by (auto intro!: off monoI simp: idle quiet)
qed

interpretation tape: platform_run plain_uin drops int tape_run for drops
proof
  show "sys_reach plain_uin drops (tape_run 0)" using tape_dispatched [OF no_nul(3)] by (simp add: tape_run_def)
qed (rule tape_run_fair)

text \<open>The same run from the creation of the job on: a batch claims its event, publishes its message and marks it.\<close>

lemma tape_batch_acts:
  assumes "dispatch_step (fine_await t) p \<lparr>ds_db = d, ds_broker = b, ds_tally = ta\<rparr> = (p', \<lparr>ds_db = d', ds_broker = b', ds_tally = ta'\<rparr>)"
  shows "batch_acts 0 t (tape_state d b a (Some (p, ta)))
     (tape_state d' b' a (case p' of D_return \<Rightarrow> None | D_reject e \<Rightarrow> None | _ \<Rightarrow> Some (p', ta')))"
  unfolding batch_acts_def using assms
  by (intro exI [of _ p] exI [of _ ta] exI [of _ p'] exI [of _ "\<lparr>ds_db = d', ds_broker = b', ds_tally = ta'\<rparr>"])
     (cases p'; simp add: batch_store_def tape_state_def)

abbreviation "tape_created \<equiv> tape_state \<lparr>jobs = [tape_job], outbox_events = [tape_event]\<rparr> (tape_broker []) None"

definition tape_whole_run :: "nat \<Rightarrow> sys" where
  "tape_whole_run = (let claimed = tape_state \<lparr>jobs = [tape_job], outbox_events = [tape_claimed]\<rparr>; ta = empty_tally\<lparr>attempted := 1\<rparr> in
     case_nat (tape_created None) (case_nat (tape_created (Some (D_claim, empty_tally)))
      (case_nat (claimed (tape_broker []) None (Some (D_publish tape_claimed [], ta)))
       (case_nat (claimed (tape_broker [job_created ''j1'']) None (Some (D_markPublished tape_claimed [], ta))) tape_run))))"

lemma tape_whole_fair: "fair_run plain_uin (case_nat 0 (case_nat 0 (case_nat 0 (case_nat 0 int)))) tape_whole_run"
proof -
  let ?ta = "empty_tally\<lparr>attempted := 1\<rparr>"
  have b1: "batch_begins 0 (tape_created None) (tape_created (Some (D_claim, empty_tally)))"
    unfolding batch_begins_def by (intro exI [of _ 0]) (simp add: tape_state_def)
  have b2: "batch_acts 0 0 (tape_created (Some (D_claim, empty_tally)))
      (tape_state \<lparr>jobs = [tape_job], outbox_events = [tape_claimed]\<rparr> (tape_broker []) None (Some (D_publish tape_claimed [], ?ta)))"
    using tape_batch_acts [of 0 D_claim "\<lparr>jobs = [tape_job], outbox_events = [tape_event]\<rparr>" "tape_broker []" empty_tally
        "D_publish tape_claimed []" "\<lparr>jobs = [tape_job], outbox_events = [tape_claimed]\<rparr>" "tape_broker []" ?ta None]
    by (simp add: claimPendingOutboxEvents_def select_claimable_def new_event_def claim_eligible_def pending_def sql_update_def
        BATCH_SIZE_def next_event_def)
  have b3: "batch_acts 0 0 (tape_state \<lparr>jobs = [tape_job], outbox_events = [tape_claimed]\<rparr> (tape_broker []) None (Some (D_publish tape_claimed [], ?ta)))
      (tape_state \<lparr>jobs = [tape_job], outbox_events = [tape_claimed]\<rparr> (tape_broker [job_created ''j1'']) None (Some (D_markPublished tape_claimed [], ?ta)))"
    using tape_batch_acts [of 0 "D_publish tape_claimed []" "\<lparr>jobs = [tape_job], outbox_events = [tape_claimed]\<rparr>" "tape_broker []" ?ta
        "D_markPublished tape_claimed []" "\<lparr>jobs = [tape_job], outbox_events = [tape_claimed]\<rparr>" "tape_broker [job_created ''j1'']" ?ta None]
    by (simp add: publishJobCreated_def publish_or_throw_def channel_publish_def tape_broker_route new_event_def)
  have b4: "batch_acts 0 0 (tape_state \<lparr>jobs = [tape_job], outbox_events = [tape_claimed]\<rparr> (tape_broker [job_created ''j1'']) None
      (Some (D_markPublished tape_claimed [], ?ta))) (tape_run 0)"
    using tape_batch_acts [of 0 "D_markPublished tape_claimed []" "\<lparr>jobs = [tape_job], outbox_events = [tape_claimed]\<rparr>" "tape_broker [job_created ''j1'']" ?ta
        D_return "\<lparr>jobs = [tape_job], outbox_events = [tape_published]\<rparr>" "tape_broker [job_created ''j1'']" "?ta\<lparr>published := published ?ta + 1\<rparr>" None]
    by (simp add: markOutboxPublished_def sql_update_def next_event_def tape_run_def Let_def)
  show ?thesis
    unfolding tape_whole_run_def Let_def
    by (intro fair_run_Cons tape_run_fair)
       (use fine_step.timer [OF b1] fine_step.batch [OF b2] fine_step.batch [OF b3] fine_step.batch [OF b4] in simp_all)
qed

text \<open>The counters of the job stay far below their limit in it.\<close>

lemma tape_room: "find_job (s_db (tape_run n)) ''j1'' = Some k \<Longrightarrow> total_attempt_count k < int4_max"
  by (auto simp: tape_run_def Let_def tape_done_def tape_state_def find_job_def set_clauses new_job_def int4_max_def split: if_splits)

lemma tape_whole_room: "find_job (s_db (tape_whole_run n)) ''j1'' = Some k \<Longrightarrow> total_attempt_count k < int4_max"
  using tape_room by (auto simp: tape_whole_run_def Let_def tape_state_def find_job_def new_job_def int4_max_def split: nat.splits)

end
