(* ===== verification/DeadLetters.thy ===== *)
theory DeadLetters
  imports Stranded
begin

text \<open>
  The dead-letter queue of the platform (\<open>publishDeadLetter\<close> in apps/worker/src/queue/publisher.ts, used by the handler of
  apps/worker/src/consumer.ts after \<open>markDeadLettered\<close>). Nothing in the sources consumes this queue: its messages are the
  record an operator reads beside the rows. The theory counts them against the dead-letterings of the row: every message is
  backed by a dead-lettering of its own, in every interleaving, crash and redelivery.
\<close>

section \<open>Dead-letterings, dead letters and dead letters in hand\<close>

text \<open>How often a life has been dead-lettered: once per replay, and once more if it is dead-lettered now.\<close>

definition life_burials :: "life \<Rightarrow> int" where
  "life_burials l = replays l + (if phase l = DEAD_LETTERED then 1 else 0)"

definition burials :: "db \<Rightarrow> uuid \<Rightarrow> int" where
  "burials d u = (case find_job d u of None \<Rightarrow> 0 | Some j \<Rightarrow> life_burials (life_of j))"

definition dead_letters :: "uuid_input \<Rightarrow> uuid \<Rightarrow> broker \<Rightarrow> nat" where
  "dead_letters uin u b = length (filter (names_job uin u) (queue b DLQ_QUEUE_NAME))"

text \<open>The control point between \<open>markDeadLettered\<close> and \<open>publishDeadLetter\<close>, for the job \<open>u\<close>.\<close>

definition in_hand :: "uuid_input \<Rightarrow> uuid \<Rightarrow> pc \<Rightarrow> bool" where
  "in_hand uin u p \<longleftrightarrow> (\<exists>v. p = At_publishDeadLetter v \<and> uin v = Inr (Some u))"

definition holders :: "uuid_input \<Rightarrow> uuid \<Rightarrow> (nat \<Rightarrow> delivery option) \<Rightarrow> nat set" where
  "holders uin u act = {w. \<exists>dl. act w = Some dl \<and> in_hand uin u (dl_pc dl)}"

text \<open>Of the dead-letterings of \<open>u\<close>, at least \<open>k u\<close> have no message and nobody about to publish one.\<close>

definition dlq_inv :: "uuid_input \<Rightarrow> (uuid \<Rightarrow> int) \<Rightarrow> sys \<Rightarrow> bool" where
  "dlq_inv uin k s \<longleftrightarrow> finite {w. s_active s w \<noteq> None}
     \<and> (\<forall>u. int (dead_letters uin u (s_broker s)) + int (card (holders uin u (s_active s))) + k u \<le> burials (s_db s) u)"

lemma in_hand_simps [simp]:
  "in_hand uin u (At_publishDeadLetter v) \<longleftrightarrow> uin v = Inr (Some u)"
  "\<not> in_hand uin u (At_claim v)" "\<not> in_hand uin u (At_lookup v)" "\<not> in_hand uin u (At_process v j)"
  "\<not> in_hand uin u (At_markCompleted v)" "\<not> in_hand uin u (At_markDeadLettered v m)" "\<not> in_hand uin u (At_markRetrying v n m)"
  "\<not> in_hand uin u (At_publishRetry v n)" "\<not> in_hand uin u (At_backoff b)" "\<not> in_hand uin u (Finished e)"
  by (simp_all add: in_hand_def)

section \<open>Dead-letterings only grow\<close>

lemma life_step_burials:
  "life_step l e l' \<Longrightarrow> life_burials l' = life_burials l + (case e of DeadLetter m \<Rightarrow> 1 | _ \<Rightarrow> 0)"
  by (induction rule: life_step.induct) (auto simp: life_burials_def)

lemma lives_on_burials:
  assumes "lives_on d d'"
  shows "burials d u \<le> burials d' u"
proof (cases "find_job d u")
  case None
  with assms show ?thesis
    by (auto simp: burials_def lives_on_def life_burials_def newborn_def split: option.splits)
next
  case (Some j)
  with assms consider "find_job d' u = Some j"
    | e j' where "find_job d' u = Some j'" "life_step (life_of j) e (life_of j')" unfolding lives_on_def by blast
  then show ?thesis
    by cases (use Some life_step_burials in \<open>auto simp: burials_def split: life_event.splits\<close>)
qed

lemma markDeadLettered_buries:
  assumes ok: "schema_ok d" and run: "markDeadLettered uin i now v m d = (Inr j', d')"
  obtains u where "uin v = Inr (Some u)" "burials d' u = burials d u + 1"
proof -
  from update_or_throw_ok [OF run [unfolded markDeadLettered_def]] obtain rs where
    "job_update in_processing (dead_lettered_set now m) (\<lambda>_. False) uin v d = Inr (j' # rs, d')" by blast
  with dead_lettered_stmt.matched [OF ok] obtain u j where "uin v = Inr (Some u)" "find_job d u = Some j" "in_processing j"
    "j' = dead_lettered_set now m j" "find_job d' = (find_job d)(u \<mapsto> j')" by blast
  then show thesis using that
    by (auto simp: burials_def life_burials_def in_processing_def dead_lettered_set_def)
qed

section \<open>The queue and the deliveries, step by step\<close>

lemma dead_letters_other:
  "queue b' DLQ_QUEUE_NAME = queue b DLQ_QUEUE_NAME \<Longrightarrow> dead_letters uin u b' = dead_letters uin u b"
  by (simp add: dead_letters_def)

lemma dead_letters_frame [simp]:
  "dead_letters uin u (requeue m b) = dead_letters uin u b"
  "dead_letters uin u (take_message m b) = dead_letters uin u b"
  "dead_letters uin u (s_broker (settle w m att p s)) = dead_letters uin u (s_broker s)"
  by (simp_all add: dead_letters_def requeue_def take_message_def settle_def split: pc.splits ending.splits)

lemma dead_letters_expire:
  "topology_ready b \<Longrightarrow> dead_letters uin u (expire RETRY_QUEUE_NAME m b) = dead_letters uin u b"
  by (intro dead_letters_other) (simp add: expire_def Let_def topology_ready_def queue_route)

lemma dead_letters_publish:
  assumes "topology_ready b"
  shows "dead_letters uin u (snd (publishJobCreated pio i b)) = dead_letters uin u b"
    and "dead_letters uin u (snd (publishRetry pio v n b)) = dead_letters uin u b"
    and "dead_letters uin u (snd (publishDeadLetter pio v b)) \<le> dead_letters uin u b + (if uin v = Inr (Some u) then 1 else 0)"
proof -
  have n: "names_job uin u (dead_letter_message v) \<longleftrightarrow> uin v = Inr (Some u)"
    by (cases v) (simp_all add: names_job_def dead_letter_message_def JSON_roundtrip jobId_message_def js_get_def)
  show "dead_letters uin u (snd (publishJobCreated pio i b)) = dead_letters uin u b"
    "dead_letters uin u (snd (publishRetry pio v n b)) = dead_letters uin u b"
    using assms
    by (auto intro!: dead_letters_other simp: publishJobCreated_def publishRetry_def publish_or_throw_snd channel_publish_def queue_route
        job_created_def job_retry_message_def topology_ready_def split: pub_io.splits)
  show "dead_letters uin u (snd (publishDeadLetter pio v b)) \<le> dead_letters uin u b + (if uin v = Inr (Some u) then 1 else 0)"
    using n by (auto simp: dead_letters_def publishDeadLetter_def publish_or_throw_snd channel_publish_def queue_route split: pub_io.splits)
qed

lemma holders_settle:
  "holders uin u (s_active (settle w m att p s)) =
     (if in_hand uin u p then insert w (holders uin u (s_active s)) else holders uin u (s_active s) - {w})"
  by (auto simp: holders_def in_hand_def settle_def split: pc.splits ending.splits if_splits)

lemma holders_frame [simp]: "holders uin u (s_active (worker_commit w x s)) = holders uin u (s_active s)"
  by simp

lemma active_settle: "finite {w. s_active s w \<noteq> None} \<Longrightarrow> finite {w'. s_active (settle w m att p s) w' \<noteq> None}"
  by (rule finite_subset [of _ "insert w {w. s_active s w \<noteq> None}"]) (auto, metis option.exhaust settle_other)

lemma holders_finite: "finite {w. act w \<noteq> None} \<Longrightarrow> finite (holders uin u act)"
  by (rule finite_subset [of _ "{w. act w \<noteq> None}"]) (auto simp: holders_def)

text \<open>What a step of the handler does to the dead letter it holds.\<close>

lemma consumer_step_dead_letters:
  assumes ok: "schema_ok (ws_db x)" and top: "topology_ready (ws_broker x)" and run: "consumer_step uin a p x = (p', x')"
  shows "int (dead_letters uin u (ws_broker x')) + (if in_hand uin u p' then 1 else 0) - burials (ws_db x') u
    \<le> int (dead_letters uin u (ws_broker x)) + (if in_hand uin u p then 1 else 0) - burials (ws_db x) u"
proof -
  have grows: "burials (ws_db x) u \<le> burials (ws_db x') u"
    using consumer_step_life [OF ok run] lives_on_one_step lives_on_burials by blast
  show ?thesis
  proof (cases p)
    case (At_markDeadLettered v m)
    obtain r d where c: "markDeadLettered uin (aw_io a) (aw_now a) v m (ws_db x) = (r, d)" by fastforce
    show ?thesis
    proof (cases r)
      case (Inl e)
      then have "ws_broker x' = ws_broker x" "\<not> in_hand uin u p'"
        using run c At_markDeadLettered by (auto simp: backoffBeforeRequeue_def Let_def)
      with grows show ?thesis by (simp add: At_markDeadLettered)
    next
      case (Inr j')
      then have x': "ws_broker x' = ws_broker x" "ws_db x' = d" "p' = At_publishDeadLetter v" using run c At_markDeadLettered by auto
      from markDeadLettered_buries [OF ok c [unfolded Inr]] obtain u' where "uin v = Inr (Some u')" "burials d u' = burials (ws_db x) u' + 1" .
      with x' grows show ?thesis by (cases "u' = u") (auto simp: At_markDeadLettered)
    qed
  next
    case (At_publishDeadLetter v)
    obtain r b where c: "publishDeadLetter (aw_pub a) v (ws_broker x) = (r, b)" by fastforce
    have "ws_broker x' = b" "\<not> in_hand uin u p'"
      using run c At_publishDeadLetter by (cases r; auto simp: backoffBeforeRequeue_def Let_def ack_unguarded_def)+
    with dead_letters_publish(3) [OF top, of uin u "aw_pub a" v] c grows show ?thesis
      by (auto simp: At_publishDeadLetter split: if_splits)
  next
    case (At_publishRetry v n)
    obtain r b where c: "publishRetry (aw_pub a) v n (ws_broker x) = (r, b)" by fastforce
    have "ws_broker x' = b" "\<not> in_hand uin u p'"
      using run c At_publishRetry by (cases r; auto simp: backoffBeforeRequeue_def Let_def ack_unguarded_def)+
    with dead_letters_publish(2) [OF top, of uin u "aw_pub a" v n] c grows show ?thesis by (simp add: At_publishRetry)
  qed (use run grows in \<open>auto simp: backoffBeforeRequeue_def claim_catch_def classify_failure_def ack_unguarded_def
        nack_unguarded_def Let_def split: prod.splits sum.splits option.splits if_splits\<close>)
qed

section \<open>Every reachable state\<close>

lemma dlq_inv_init: "dlq_inv uin (\<lambda>_. 0) sys_init"
  by (simp add: dlq_inv_def sys_init_def dead_letters_def holders_def burials_def find_job_def)

text \<open>A step that touches no delivery and leaves the dead-letter queue alone.\<close>

lemma dlq_inv_quiet:
  assumes "dlq_inv uin k s" and "lives_on (s_db s) (s_db s')" and "s_active s' = s_active s"
    and "\<And>u. dead_letters uin u (s_broker s') = dead_letters uin u (s_broker s)"
  shows "dlq_inv uin k s'"
  using assms lives_on_burials [OF assms(2)] unfolding dlq_inv_def by (metis order_trans)

text \<open>The delivery of one worker is settled, with a change of its dead letter that the row accounts for.\<close>

lemma dlq_inv_settle:
  assumes inv: "dlq_inv uin k s" and act: "s_active s1 = s_active s"
    and eff: "\<And>u. int (dead_letters uin u (s_broker s1)) + (if in_hand uin u p' then 1 else 0) - burials (s_db s1) u
       \<le> int (dead_letters uin u (s_broker s)) + (if w \<in> holders uin u (s_active s) then 1 else 0) - burials (s_db s) u"
  shows "dlq_inv uin k (settle w m att p' s1)"
proof -
  have fin: "finite {w. s_active s w \<noteq> None}" using inv by (simp add: dlq_inv_def)
  have "int (dead_letters uin u (s_broker s1)) + int (card (holders uin u (s_active (settle w m att p' s1)))) + k u \<le> burials (s_db s1) u" for u
  proof -
    let ?H = "holders uin u (s_active s)"
    have f: "finite ?H" by (rule holders_finite [OF fin])
    have H: "int (card ?H) = int (card (?H - {w})) + (if w \<in> ?H then 1 else 0)"
      using f by (simp add: card_Diff_singleton) (metis One_nat_def Suc_pred card_gt_0_iff empty_iff of_nat_Suc add.commute)
    have "int (card (holders uin u (s_active (settle w m att p' s1)))) = int (card (?H - {w})) + (if in_hand uin u p' then 1 else 0)"
      using f by (simp add: holders_settle act card.insert_remove)
    moreover have "int (dead_letters uin u (s_broker s)) + int (card ?H) + k u \<le> burials (s_db s) u" using inv by (simp add: dlq_inv_def)
    ultimately show ?thesis using eff [of u] H by simp
  qed
  moreover have "finite {w'. s_active (settle w m att p' s1) w' \<noteq> None}" by (rule active_settle) (use fin act in simp)
  ultimately show ?thesis by (simp add: dlq_inv_def)
qed

lemma sys_step_dlq:
  assumes "sys_step uin drops s s'" and "plat_inv uin drops s" and "dlq_inv uin k s"
  shows "dlq_inv uin k s'"
proof -
  note i = plat_invD [OF assms(2)]
  note lives = sys_step_lives [OF assms(1,2)]
  from assms(1) show ?thesis
  proof cases
    case (create t new_id new_ev now ty pl r d)
    show ?thesis by (rule dlq_inv_quiet [OF assms(3) lives]) (simp_all add: create)
  next
    case (replay t new_ev now v r d)
    show ?thesis by (rule dlq_inv_quiet [OF assms(3) lives]) (simp_all add: replay)
  next
    case (batch_start b)
    show ?thesis by (rule dlq_inv_quiet [OF assms(3) lives]) (simp_all add: batch_start)
  next
    case (batch_step b p ta a p' x)
    have "dead_letters uin u (ds_broker x) = dead_letters uin u (s_broker s)" for u
    proof (cases p)
      case (D_publish ev rest)
      then have "ds_broker x = snd (publishJobCreated (da_pub a) (ev_job_id ev) (s_broker s))"
        using batch_step(4) by (auto split: prod.splits sum.splits)
      with dead_letters_publish(1) [OF i(3)] show ?thesis by simp
    qed (use batch_step(4) in \<open>auto split: prod.splits sum.splits\<close>)
    then show ?thesis by (intro dlq_inv_quiet [OF assms(3) lives]) (simp_all add: batch_step batch_store_def)
  next
    case (api_crash b)
    show ?thesis by (rule dlq_inv_quiet [OF assms(3) lives]) (simp_all add: api_crash)
  next
    case (deliver w m a)
    have "\<not> in_hand uin u (on_delivery a (Some (pub_body m)))" for u
      by (simp add: on_delivery_def ack_unguarded_def split: option.splits sum.splits)
    then show ?thesis unfolding deliver(1) by (intro dlq_inv_settle [OF assms(3)]) simp_all
  next
    case (worker_step w dl a p' x)
    have "w \<in> holders uin u (s_active s) \<longleftrightarrow> in_hand uin u (dl_pc dl)" for u using worker_step(2) by (auto simp: holders_def)
    with consumer_step_dead_letters [OF _ _ worker_step(4)] i(1,3) show ?thesis
      unfolding worker_step(1) by (intro dlq_inv_settle [OF assms(3)]) simp_all
  next
    case (worker_crash w dl err)
    show ?thesis unfolding worker_crash(1) by (rule dlq_inv_settle [OF assms(3)]) simp_all
  next
    case (channel_drop w dl)
    have "holders uin u (s_active s') = holders uin u (s_active s)" for u using channel_drop by (auto simp: holders_def)
    moreover have "{w. s_active s' w \<noteq> None} = {w. s_active s w \<noteq> None}" using channel_drop by auto
    ultimately show ?thesis using assms(3) channel_drop(1) by (simp add: dlq_inv_def)
  next
    case (retry_expired m)
    show ?thesis by (rule dlq_inv_quiet [OF assms(3) lives]) (simp_all add: retry_expired dead_letters_expire i(3))
  qed
qed

lemma sys_reach_dlq: "sys_reach uin drops s \<Longrightarrow> dlq_inv uin (\<lambda>_. 0) s"
  by (induction rule: sys_reach.induct) (auto intro: dlq_inv_init sys_step_dlq sys_reach_inv)

lemma sys_steps_dlq:
  "(sys_step uin drops)\<^sup>*\<^sup>* s s' \<Longrightarrow> plat_inv uin drops s \<Longrightarrow> dlq_inv uin k s \<Longrightarrow> dlq_inv uin k s'"
  by (induction rule: rtranclp_induct) (auto intro: sys_step_dlq sys_steps_inv)

section \<open>A run to a dead letter\<close>

abbreviation "grave_job \<equiv> job_with [(''shouldFailPermanently'', JBool True)]"
abbreviation "grave_text \<equiv> ''Simulated non-retryable failure for job type \"email\"''"
abbreviation "buried_job \<equiv> dead_lettered_set 3 grave_text (claim_set 1 grave_job)"
abbreviation "buried_db \<equiv> \<lparr>jobs = [buried_job], outbox_events = [tape_published]\<rparr>"
abbreviation "held_letter \<equiv> \<lparr>dl_message = job_created ''j1'', dl_pc = At_publishDeadLetter j1, dl_attached = True\<rparr>"

lemma grave_storable: "storable ''email'' [(''shouldFailPermanently'', JBool True)]"
  by (simp add: storable_def has_nul_def)

lemma tape_held: "sys_reach plain_uin False (tape_state buried_db (tape_broker []) (Some held_letter) None)"
proof -
  let ?d = "\<lparr>jobs = [claim_set 1 grave_job], outbox_events = [tape_published]\<rparr>"
  have "processJob grave_job = Some (NonRetryableError grave_text)" by (simp add: processJob_def js_get_def new_job_def)
  with tape_worker [OF tape_processing [OF grave_storable], of 2 "At_markDeadLettered j1 grave_text" ?d "tape_broker []"]
  have r: "sys_reach plain_uin False (tape_state ?d (tape_broker [])
     (Some \<lparr>dl_message = job_created ''j1'', dl_pc = At_markDeadLettered j1 grave_text, dl_attached = True\<rparr>) None)"
    by (simp add: settle_def tape_state_def classify_failure_def Let_def)
  have "jid (claim_set 1 grave_job) = ''j1''" by (simp add: claim_set_def)
  then have "markDeadLettered plain_uin Io_ok 3 j1 grave_text ?d = (Inr buried_job, buried_db)"
    by (simp add: markDeadLettered_def update_or_throw_def sql_simps)
  with tape_worker [OF r, of 3 "At_publishDeadLetter j1" buried_db "tape_broker []"] show ?thesis
    by (simp add: settle_def tape_state_def)
qed

lemma tape_buried:
  "\<exists>b. sys_reach plain_uin False (tape_state buried_db b None None) \<and> queue b DLQ_QUEUE_NAME = [dead_letter_message j1]"
proof -
  let ?b = "route (dead_letter_message j1) (tape_broker [])"
  have "consumer_step plain_uin (calm 4) (At_publishDeadLetter j1) \<lparr>ws_db = buried_db, ws_broker = tape_broker [], dbErrorCount = 0\<rparr>
     = (Finished Acked, \<lparr>ws_db = buried_db, ws_broker = ?b, dbErrorCount = 0\<rparr>)"
    by (simp add: publishDeadLetter_def publish_or_throw_def channel_publish_def ack_unguarded_def)
  from tape_worker [OF tape_held this] have "sys_reach plain_uin False (tape_state buried_db ?b None None)"
    by (simp add: settle_def tape_state_def fun_upd_idem)
  moreover have "queue ?b DLQ_QUEUE_NAME = [dead_letter_message j1]"
    using topology_ready_worker by (simp add: tape_broker_empty queue_route topology_ready_def dead_letter_message_def)
  ultimately show ?thesis by blast
qed

section \<open>Properties\<close>

text \<open>C17. The dead-letter queue never overstates: in every reachable state, whatever crashed, was redelivered or was published twice on the
  way, a message of the queue names a job that exists and knows why it was dead-lettered, and there are at most as many messages for it
  as it has been dead-lettered: once per replay, and once more if it is dead-lettered now.\<close>

theorem dead_letters_backed:
  assumes "sys_reach uin drops s" and "m \<in> set (queue (s_broker s) DLQ_QUEUE_NAME)" and "names_job uin u m"
  shows "\<exists>j. find_job (s_db s) u = Some j \<and> last_dead_letter_reason j \<noteq> None
     \<and> int (length (filter (names_job uin u) (queue (s_broker s) DLQ_QUEUE_NAME)))
        \<le> replay_count j + (if status j = DEAD_LETTERED then 1 else 0)"
proof -
  have "int (dead_letters uin u (s_broker s)) \<le> burials (s_db s) u"
    using sys_reach_dlq [OF assms(1)] unfolding dlq_inv_def by (smt (verit) of_nat_0_le_iff)
  moreover have "0 < dead_letters uin u (s_broker s)"
    using assms(2,3) by (auto simp: dead_letters_def filter_empty_conv)
  ultimately obtain j where j: "find_job (s_db s) u = Some j"
    and le: "int (dead_letters uin u (s_broker s)) \<le> life_burials (life_of j)" "0 < life_burials (life_of j)"
    by (auto simp: burials_def split: option.splits)
  have "life_inv (life_of j)" using plat_invD(2) [OF sys_reach_inv [OF assms(1)]] j life_reach_inv by (auto simp: lives_ok_def)
  with le(2) have "last_dead_letter_reason j \<noteq> None" by (auto simp: life_inv_def life_burials_def split: if_splits)
  with j le(1) show ?thesis by (auto simp: dead_letters_def life_burials_def)
qed

theorem dead_letters_backed_witness:
  "\<exists>s j. sys_reach plain_uin False s \<and> queue (s_broker s) DLQ_QUEUE_NAME = [dead_letter_message j1]
     \<and> find_job (s_db s) ''j1'' = Some j \<and> 1 \<le> replay_count j + (if status j = DEAD_LETTERED then 1 else 0)"
proof -
  obtain b where b: "sys_reach plain_uin False (tape_state buried_db b None None)" "queue b DLQ_QUEUE_NAME = [dead_letter_message j1]"
    using tape_buried by blast
  have n: "names_job plain_uin ''j1'' (dead_letter_message j1)"
    by (simp add: names_job_def dead_letter_message_def JSON_roundtrip jobId_message_def js_get_def)
  have q: "queue (s_broker (tape_state buried_db b None None)) DLQ_QUEUE_NAME = [dead_letter_message j1]"
    using b(2) by (simp add: tape_state_def)
  from dead_letters_backed [OF b(1) _ n] q n b(1) show ?thesis by fastforce
qed

text \<open>But it can understate. There is a run, with one failed publish of a dead letter and no other fault, after which the platform never
  makes up for it: the job is dead-lettered, the message is put back, its redelivery finds a job that cannot be claimed, and from then on,
  whatever happens, the queue holds fewer messages for the job than it has been dead-lettered.\<close>

lemma dead_letter_lost:
  "\<exists>s. sys_reach plain_uin False s \<and> (\<exists>j. find_job (s_db s) ''j1'' = Some j \<and> status j = DEAD_LETTERED)
     \<and> (\<forall>s' j. (sys_step plain_uin False)\<^sup>*\<^sup>* s s' \<longrightarrow> find_job (s_db s') ''j1'' = Some j \<longrightarrow>
          int (length (filter (names_job plain_uin ''j1'') (queue (s_broker s') DLQ_QUEUE_NAME)))
            < replay_count j + (if status j = DEAD_LETTERED then 1 else 0))"
proof -
  let ?s = "tape_state buried_db (tape_broker []) (Some held_letter) None"
  let ?e = "JsError ''Error'' ''Channel closed'' None"
  let ?a = "(calm 4)\<lparr>aw_pub := Pub_throw ?e\<rparr>"
  let ?x = "(worker_view 0 ?s)\<lparr>dbErrorCount := 1\<rparr>"
  let ?s' = "settle 0 (dl_message held_letter) (dl_attached held_letter) (At_backoff (computeDbErrorBackoffMs 1)) (worker_commit 0 ?x ?s)"
  have "sys_step plain_uin False ?s ?s'"
    by (rule sys_step.worker_step [where a = ?a])
       (simp_all add: tape_state_def env_ok_def fault_genuine_def publishDeadLetter_def publish_or_throw_def channel_publish_def
          backoffBeforeRequeue_def Let_def worker_view_def)
  from sys_reach.step [OF tape_held this] have r: "sys_reach plain_uin False ?s'" .
  have d: "s_db ?s' = buried_db" by (simp add: tape_state_def)
  have f: "find_job buried_db ''j1'' = Some buried_job" by (simp add: find_job_def set_clauses)
  have "dlq_inv plain_uin (\<lambda>u. if u = ''j1'' then 1 else 0) ?s'"
  proof -
    have "dead_letters plain_uin u (s_broker ?s') = 0" for u
      by (simp add: tape_state_def) (simp add: dead_letters_def tape_broker_def)
    moreover have "holders plain_uin u (s_active ?s') = {}" for u
      by (simp only: holders_settle) (auto simp: holders_def tape_state_def)
    moreover have "burials (s_db ?s') u = (if u = ''j1'' then 1 else 0)" for u
      unfolding d by (auto simp: burials_def find_job_def life_burials_def set_clauses new_job_def)
    moreover have "finite {w. s_active ?s' w \<noteq> None}" by (rule active_settle) (simp add: tape_state_def)
    ultimately show ?thesis by (simp add: dlq_inv_def)
  qed
  with sys_steps_dlq [OF _ sys_reach_inv [OF r]] have inv: "dlq_inv plain_uin (\<lambda>u. if u = ''j1'' then 1 else 0) s''"
    if "(sys_step plain_uin False)\<^sup>*\<^sup>* ?s' s''" for s'' using that by blast
  have "int (length (filter (names_job plain_uin ''j1'') (queue (s_broker s'') DLQ_QUEUE_NAME)))
      < replay_count j + (if status j = DEAD_LETTERED then 1 else 0)"
    if "(sys_step plain_uin False)\<^sup>*\<^sup>* ?s' s''" "find_job (s_db s'') ''j1'' = Some j" for s'' j
    using inv [OF that(1)] that(2) unfolding dlq_inv_def burials_def dead_letters_def life_burials_def
    by (auto dest!: spec [of _ "''j1''"])
  moreover have "\<exists>j. find_job (s_db ?s') ''j1'' = Some j \<and> status j = DEAD_LETTERED" unfolding d using f by (simp add: dead_lettered_set_def)
  ultimately show ?thesis using r by blast
qed

end
