(* ===== verification/RetryQueue.thy ===== *)
theory RetryQueue
  imports Consumer
begin

text \<open>
  The delays of the retry queue in time (apps/worker/src/retry/retryPolicy.ts and \<open>publishRetry\<close>). The worker gives each retry
  message its own expiration and leaves it to the broker to hold the message back. The broker is not part of the sources; of it
  the design relies on two documented facts, stated here as predicates on what it does: an expiration is the number of
  milliseconds whose decimal text the message carries, and a queue looks only at its head for expired messages (docs/engineering-decisions.md
  names this as the limitation of the design). The system model lets retry messages expire in any order, which covers this one.
\<close>

section \<open>What the broker is relied on for\<close>

text \<open>\<open>ttl\<close> is how the broker reads the text of an expiration.\<close>

definition reads_milliseconds :: "(string \<Rightarrow> int) \<Rightarrow> bool" where
  "reads_milliseconds ttl \<longleftrightarrow> (\<forall>n \<ge> 0. ttl (int_text n) = n)"

text \<open>The \<open>k\<close>-th message of the queue arrived at \<open>fst (q k)\<close> and left at \<open>left k\<close>: when it was due and its predecessor had left.\<close>

definition expires_at_head :: "(string \<Rightarrow> int) \<Rightarrow> (nat \<Rightarrow> int \<times> publication) \<Rightarrow> (nat \<Rightarrow> int) \<Rightarrow> bool" where
  "expires_at_head ttl q left \<longleftrightarrow> (\<forall>k s. pub_expiration (snd (q k)) = Some s \<longrightarrow>
     left k = max (fst (q k) + ttl s) (case k of 0 \<Rightarrow> fst (q 0) | Suc i \<Rightarrow> left i))"

text \<open>The reading of a decimal numeral, to show that the first fact can hold.\<close>

definition decimal_value :: "string \<Rightarrow> int" where
  "decimal_value s = foldl (\<lambda>n c. 10 * n + (int (of_char c) - 48)) 0 s"

lemma decimal_nat_text: "decimal_value (nat_text n) = int n"
proof (induction n rule: nat_text.induct)
  case (1 n)
  have digit: "int (of_char (char_of (48 + k :: nat))) - 48 = int k" if "k < 10" for k using that by simp
  show ?case
  proof (cases "n < 10")
    case True
    with digit [of n] show ?thesis by (subst nat_text.simps) (simp add: decimal_value_def)
  next
    case False
    have "10 * int (n div 10) + int (n mod 10) = int n" by presburger
    with False 1 digit [of "n mod 10"] show ?thesis by (subst nat_text.simps) (simp add: decimal_value_def)
  qed
qed

lemma decimal_reads: "reads_milliseconds decimal_value"
  by (simp add: reads_milliseconds_def int_text_def decimal_nat_text)

section \<open>The time a retry waits\<close>

text \<open>The \<open>k\<close>-th retry message, for the job \<open>v k\<close> after its \<open>n k\<close>-th attempt.\<close>

definition retry_arrivals :: "(nat \<Rightarrow> int) \<Rightarrow> (nat \<Rightarrow> json option) \<Rightarrow> (nat \<Rightarrow> int) \<Rightarrow> nat \<Rightarrow> int \<times> publication" where
  "retry_arrivals sent v n k = (sent k, job_retry_message (v k) (calculateBackoffMs (n k)))"

lemma backoff_bounds: "2000 \<le> calculateBackoffMs n" "calculateBackoffMs n \<le> MAX_DELAY_MS"
  using retry_schedule [of n n] by (simp_all add: MAX_DELAY_MS_def)

lemma left_when_due:
  assumes "reads_milliseconds ttl" and "expires_at_head ttl (retry_arrivals sent v n) left"
  shows "left k = max (sent k + calculateBackoffMs (n k)) (case k of 0 \<Rightarrow> sent 0 | Suc i \<Rightarrow> left i)"
proof -
  have "ttl (int_text (calculateBackoffMs (n k))) = calculateBackoffMs (n k)"
    using assms(1) backoff_bounds(1) [of "n k"] by (simp add: reads_milliseconds_def)
  moreover have "pub_expiration (snd (retry_arrivals sent v n k)) = Some (int_text (calculateBackoffMs (n k)))"
    and a: "fst (retry_arrivals sent v n i) = sent i" for i
    by (simp_all add: retry_arrivals_def job_retry_message_def)
  ultimately show ?thesis using assms(2) unfolding expires_at_head_def a by metis
qed

text \<open>A message leaves when all that came before it, and it itself, are due.\<close>

lemma left_is_running_max:
  assumes "reads_milliseconds ttl" and "expires_at_head ttl (retry_arrivals sent v n) left"
  shows "left k = Max ((\<lambda>i. sent i + calculateBackoffMs (n i)) ` {..k})"
proof (induction k)
  case 0
  show ?case using left_when_due [OF assms, of 0] backoff_bounds(1) [of "n 0"] by simp
next
  case (Suc k)
  have "{..Suc k} = insert (Suc k) {..k}" by auto
  then show ?case using left_when_due [OF assms, of "Suc k"] Suc by simp
qed

section \<open>Properties\<close>

text \<open>C24. The delay of a retry is bounded on both sides: whatever else is in the retry queue, a message stays there for at least the backoff
  of its attempt and for at most 20 seconds, messages come out in the order they went in, and a message stays exactly its backoff unless
  one that arrived before it is due later.\<close>

theorem retry_delay_bounded:
  assumes "reads_milliseconds ttl" and "expires_at_head ttl (retry_arrivals sent v n) left" and "mono sent"
  shows "calculateBackoffMs (n k) \<le> left k - sent k \<and> left k - sent k \<le> 20000 \<and> left k \<le> left (Suc k)
     \<and> (left k - sent k = calculateBackoffMs (n k) \<longleftrightarrow>
         (\<forall>i \<le> k. sent i + calculateBackoffMs (n i) \<le> sent k + calculateBackoffMs (n k)))"
proof -
  note m = left_is_running_max [OF assms(1,2)]
  let ?due = "\<lambda>i. sent i + calculateBackoffMs (n i)"
  have "?due k \<le> left k" unfolding m by (rule Max_ge) auto
  moreover have "?due i \<le> sent k + MAX_DELAY_MS" if "i \<le> k" for i
    using backoff_bounds(2) [of "n i"] monoD [OF assms(3) that] by simp
  then have "left k \<le> sent k + MAX_DELAY_MS" unfolding m by (intro Max.boundedI) auto
  moreover have "left k \<le> left (Suc k)" using left_when_due [OF assms(1,2), of "Suc k"] by simp
  moreover have "left k \<le> ?due k \<longleftrightarrow> (\<forall>i \<le> k. ?due i \<le> ?due k)" unfolding m by (subst Max_le_iff) auto
  ultimately show ?thesis by (auto simp: MAX_DELAY_MS_def)
qed

text \<open>A retry of 2 seconds that arrives a second after one of 20 waits 19 seconds; those after it leave with it.\<close>

theorem retry_delay_bounded_witness:
  "let sent = (\<lambda>k. 1000 * int k); n = (\<lambda>k. if k = 0 then 5 else 1); left = (\<lambda>k. max 20000 (1000 * int k + 2000)) in
   expires_at_head decimal_value (retry_arrivals sent (\<lambda>_. Some (JStr ''j1'')) n) left
   \<and> left 1 - sent 1 = 19000 \<and> calculateBackoffMs (n 1) = 2000 \<and> left 1 - sent 1 \<le> 20000"
proof -
  define sent where "sent = (\<lambda>k. 1000 * int k)"
  define n :: "nat \<Rightarrow> int" where "n = (\<lambda>k. if k = 0 then 5 else 1)"
  define left where "left = (\<lambda>k. max 20000 (1000 * int k + 2000))"
  have b: "calculateBackoffMs 5 = 20000" "calculateBackoffMs 1 = 2000"
    using retry_schedule [of 5 5] retry_schedule [of 1 1] by auto
  have "\<And>i. i \<ge> 0 \<Longrightarrow> decimal_value (int_text i) = i" using decimal_reads by (simp add: reads_milliseconds_def)
  then have e: "expires_at_head decimal_value (retry_arrivals sent (\<lambda>_. Some (JStr ''j1'')) n) left"
    by (auto simp: expires_at_head_def retry_arrivals_def job_retry_message_def sent_def n_def left_def b split: nat.splits)
  have "mono sent" by (auto simp: mono_def sent_def)
  from retry_delay_bounded [OF decimal_reads e this, of 1] e b show ?thesis
    unfolding sent_def n_def left_def Let_def by simp
qed

end
