(* ===== verification/Doubles.thy ===== *)
theory Doubles
  imports Prelude "HOL-Library.Log_Nat"
begin

text \<open>
  The numbers of the language where rounding matters: \<open>fl x\<close> is the IEEE 754 double nearest to the
  rational \<open>x\<close>, ties to the even significand, for values inside the range of the format; an arithmetic
  operation of the source is \<open>fl\<close> of the exact one. Infinities and NaN are not represented, no
  operation modelled with \<open>fl\<close> produces one.
\<close>

section \<open>Definitions\<close>

text \<open>The nearest integer, ties to even.\<close>

definition rne :: "rat \<Rightarrow> int" where
  "rne z = (let f = \<lfloor>z\<rfloor>; r = z - of_int f in
     if r < 1 / 2 then f else if r > 1 / 2 then f + 1 else if even f then f else f + 1)"

text \<open>The binary exponent of a positive rational: \<open>2 ^ e \<le> x < 2 ^ (e + 1)\<close>.\<close>

definition bexp :: "rat \<Rightarrow> int" where
  "bexp x = (let (p, q) = quotient_of x; e = bitlen p - bitlen q in if 2 powi e \<le> x then e else e - 1)"

text \<open>The distance of neighbouring doubles at \<open>x\<close>; subnormal numbers share the smallest.\<close>

definition ulp :: "rat \<Rightarrow> rat" where
  "ulp x = 2 powi (max (bexp x - 52) (- 1074))"

definition fl_pos :: "rat \<Rightarrow> rat" where
  "fl_pos x = of_int (rne (x / ulp x)) * ulp x"

definition fl :: "rat \<Rightarrow> rat" where
  "fl x = (if x = 0 then 0 else if x > 0 then fl_pos x else - fl_pos (- x))"

section \<open>Rounding to integers\<close>

lemma rne_cases: "rne z = \<lfloor>z\<rfloor> \<or> rne z = \<lfloor>z\<rfloor> + 1"
  by (simp add: rne_def Let_def)

lemma rne_int [simp]: "rne (of_int n) = n"
  by (simp add: rne_def)

lemma rne_mono: "x \<le> y \<Longrightarrow> rne x \<le> rne y"
proof -
  assume le: "x \<le> y"
  then have f: "\<lfloor>x\<rfloor> \<le> \<lfloor>y\<rfloor>" by (rule floor_mono)
  show ?thesis
  proof (cases "\<lfloor>x\<rfloor> = \<lfloor>y\<rfloor>")
    case True
    with le show ?thesis by (auto simp: rne_def Let_def)
  next
    case False
    with f rne_cases [of x] rne_cases [of y] show ?thesis by linarith
  qed
qed

lemma rne_ge: "of_int n \<le> x \<Longrightarrow> n \<le> rne x"
  using rne_mono [of "of_int n" x] by simp

lemma rne_le: "x \<le> of_int n \<Longrightarrow> rne x \<le> n"
  using rne_mono [of x "of_int n"] by simp

section \<open>The exponent\<close>

lemma bitlen_quotient:
  assumes "0 < p" "0 < q"
  shows "2 powi (bitlen p - bitlen q - 1) < (of_int p / of_int q :: rat)"
    and "(of_int p / of_int q :: rat) < 2 powi (bitlen p - bitlen q + 1)"
proof -
  have bp: "2 ^ nat (bitlen p - 1) \<le> p" "p < 2 ^ nat (bitlen p)" and bq: "2 ^ nat (bitlen q - 1) \<le> q" "q < 2 ^ nat (bitlen q)"
    using bitlen_bounds [OF assms(1)] bitlen_bounds [OF assms(2)] by auto
  have pos: "0 < bitlen p" "0 < bitlen q" using assms bitlen_nonneg [of p] bitlen_nonneg [of q] bitlen_eq_zero_iff [of p] bitlen_eq_zero_iff [of q] by linarith+
  have pw: "(2::rat) powi k = of_int (2 ^ nat k)" if "0 \<le> k" for k using that by (simp add: power_int_def)
  have P: "(2::rat) powi (bitlen p - 1) \<le> of_int p" "of_int p < (2::rat) powi bitlen p"
    using bp pos by (simp_all only: pw of_int_le_iff of_int_less_iff)
  have Q: "(2::rat) powi (bitlen q - 1) \<le> of_int q" "of_int q < (2::rat) powi bitlen q"
    using bq pos by (simp_all only: pw of_int_le_iff of_int_less_iff)
  have q0: "0 < (of_int q :: rat)" using assms by simp
  have "(2::rat) powi (bitlen p - bitlen q - 1) * of_int q < 2 powi (bitlen p - bitlen q - 1) * 2 powi bitlen q"
    using Q(2) by (intro mult_strict_left_mono) simp_all
  also have "\<dots> = 2 powi (bitlen p - 1)" by (simp flip: power_int_add)
  also have "\<dots> \<le> of_int p" by (rule P(1))
  finally show "2 powi (bitlen p - bitlen q - 1) < (of_int p / of_int q :: rat)" using q0 by (simp add: pos_less_divide_eq)
  have "of_int p < (2::rat) powi bitlen p" by (rule P(2))
  also have "\<dots> = 2 powi (bitlen p - bitlen q + 1) * 2 powi (bitlen q - 1)" by (simp flip: power_int_add)
  also have "\<dots> \<le> 2 powi (bitlen p - bitlen q + 1) * of_int q" using Q(1) by (intro mult_left_mono) simp_all
  finally show "(of_int p / of_int q :: rat) < 2 powi (bitlen p - bitlen q + 1)" using q0 by (simp add: pos_divide_less_eq)
qed

lemma bexp_bounds:
  assumes "0 < x"
  shows "2 powi bexp x \<le> x" and "x < 2 powi (bexp x + 1)"
proof -
  obtain p q where pq: "quotient_of x = (p, q)" by fastforce
  then have x: "x = of_int p / of_int q" and q: "0 < q" by (simp_all add: quotient_of_div quotient_of_denom_pos)
  have p: "0 < p" using assms q by (simp add: x zero_less_divide_iff)
  note b = bitlen_quotient [OF p q]
  have e: "bexp x = (if 2 powi (bitlen p - bitlen q) \<le> x then bitlen p - bitlen q else bitlen p - bitlen q - 1)"
    by (simp add: bexp_def pq)
  show "2 powi bexp x \<le> x" "x < 2 powi (bexp x + 1)"
    unfolding e using b by (auto simp flip: x)
qed

lemma bexp_mono:
  assumes "0 < x" "x \<le> y"
  shows "bexp x \<le> bexp y"
proof (rule ccontr)
  assume "\<not> bexp x \<le> bexp y"
  then have "bexp y + 1 \<le> bexp x" by simp
  then have "(2::rat) powi (bexp y + 1) \<le> 2 powi bexp x" by (rule power_int_increasing) simp
  with bexp_bounds [OF assms(1)] bexp_bounds [of y] assms show False by linarith
qed

section \<open>Rounding\<close>

lemma ulp_pos [simp]: "0 < ulp x" "0 \<le> ulp x"
  by (simp_all add: ulp_def)

lemma ulp_mono: "0 < x \<Longrightarrow> x \<le> y \<Longrightarrow> ulp x \<le> ulp y"
  using bexp_mono [of x y] by (auto simp: ulp_def intro!: power_int_increasing)

text \<open>A power of two in the range of normal numbers is a multiple of every finer grid.\<close>

lemma fl_pos_le_pow:
  assumes "0 < x"
  shows "fl_pos x \<le> 2 powi (max (bexp x + 1) (- 1021))"
proof -
  let ?k = "max (bexp x - 52) (- 1074)" and ?m = "max (bexp x + 1) (- 1021)"
  have "?m = 53 + ?k" by (auto simp: max_def)
  then have m: "(2::rat) powi ?m = 2 powi 53 * 2 powi ?k" using power_int_add [of "2::rat" 53 ?k] by simp
  have "x \<le> 2 powi ?m"
    using bexp_bounds(2) [OF assms] power_int_increasing [of "bexp x + 1" ?m "2::rat"] by linarith
  also have "\<dots> = 2 powi 53 * 2 powi ?k" by (rule m)
  finally have "x / ulp x \<le> of_int (2 ^ 53)" by (simp add: ulp_def pos_divide_le_eq power_int_def [of _ 53])
  then have "rne (x / ulp x) \<le> 2 ^ 53" by (rule rne_le)
  then have "(of_int (rne (x / ulp x)) :: rat) \<le> of_int (2 ^ 53)" by (simp only: of_int_le_iff)
  then have "fl_pos x \<le> of_int (2 ^ 53) * ulp x" unfolding fl_pos_def by (intro mult_right_mono) simp_all
  also have "\<dots> = 2 powi 53 * 2 powi ?k" by (simp add: ulp_def)
  also have "\<dots> = 2 powi ?m" by (rule m [symmetric])
  finally show ?thesis .
qed

lemma fl_pos_ge_pow:
  assumes "0 < x" and "- 1022 \<le> bexp x"
  shows "2 powi bexp x \<le> fl_pos x"
proof -
  have u: "ulp x = 2 powi (bexp x - 52)" using assms(2) by (simp add: ulp_def)
  have "(2::rat) powi bexp x = 2 powi 52 * 2 powi (bexp x - 52)"
    using power_int_add [of "2::rat" 52 "bexp x - 52"] by simp
  then have e: "2 powi bexp x = of_int (2 ^ 52) * ulp x" by (simp add: u)
  with bexp_bounds(1) [OF assms(1)] have "of_int (2 ^ 52) \<le> x / ulp x" by (simp add: pos_le_divide_eq)
  then have "2 ^ 52 \<le> rne (x / ulp x)" by (rule rne_ge)
  then have "(of_int (2 ^ 52) :: rat) \<le> of_int (rne (x / ulp x))" by (simp only: of_int_le_iff)
  then show ?thesis unfolding e fl_pos_def by (intro mult_right_mono) simp_all
qed

lemma fl_pos_mono:
  assumes "0 < x" "x \<le> y"
  shows "fl_pos x \<le> fl_pos y"
proof (cases "ulp x = ulp y")
  case True
  with assms(2) have "x / ulp x \<le> y / ulp y" by (simp add: divide_right_mono)
  then show ?thesis unfolding fl_pos_def True by (intro mult_right_mono) (simp_all add: rne_mono)
next
  case False
  then have b: "max (bexp x - 52) (- 1074) \<noteq> max (bexp y - 52) (- 1074)" by (auto simp: ulp_def)
  with bexp_mono [OF assms] have le: "max (bexp x + 1) (- 1021) \<le> bexp y" by (auto simp: max_def split: if_splits)
  have "fl_pos x \<le> 2 powi (max (bexp x + 1) (- 1021))" by (rule fl_pos_le_pow [OF assms(1)])
  also have "\<dots> \<le> 2 powi bexp y" using le by (rule power_int_increasing) simp
  also have "\<dots> \<le> fl_pos y" by (rule fl_pos_ge_pow) (use assms le in simp_all)
  finally show ?thesis .
qed

lemma fl_pos_nonneg: "0 < x \<Longrightarrow> 0 \<le> fl_pos x"
  unfolding fl_pos_def using rne_ge [of 0 "x / ulp x"] by (intro mult_nonneg_nonneg) (simp_all add: less_imp_le)

lemma fl_mono: "x \<le> y \<Longrightarrow> fl x \<le> fl y"
  using fl_pos_mono [of x y] fl_pos_mono [of "- y" "- x"] fl_pos_nonneg [of y] fl_pos_nonneg [of "- x"]
  by (auto simp: fl_def)

text \<open>Integers of at most 53 bits are doubles.\<close>

lemma fl_pos_int:
  assumes "0 < n" "n \<le> 2 ^ 53"
  shows "fl_pos (of_int n) = of_int n"
proof -
  let ?x = "of_int n :: rat"
  have x: "0 < ?x" "1 \<le> ?x" using assms(1) by simp_all
  have b0: "0 \<le> bexp ?x"
  proof (rule ccontr)
    assume "\<not> 0 \<le> bexp ?x"
    then have "(2::rat) powi (bexp ?x + 1) \<le> 2 powi 0" by (intro power_int_increasing) simp_all
    with bexp_bounds(2) [OF x(1)] x(2) show False by simp
  qed
  show ?thesis
  proof (cases "n = 2 ^ 53")
    case True
    have "bexp ?x \<le> 53"
    proof (rule ccontr)
      assume "\<not> bexp ?x \<le> 53"
      then have "(2::rat) powi 54 \<le> 2 powi bexp ?x" by (intro power_int_increasing) simp_all
      with bexp_bounds(1) [OF x(1)] True show False by (simp add: power_int_def)
    qed
    moreover have "53 \<le> bexp ?x"
    proof (rule ccontr)
      assume "\<not> 53 \<le> bexp ?x"
      then have "(2::rat) powi (bexp ?x + 1) \<le> 2 powi 53" by (intro power_int_increasing) simp_all
      with bexp_bounds(2) [OF x(1)] True show False by (simp add: power_int_def)
    qed
    ultimately have "ulp ?x = 2" by (simp add: ulp_def power_int_def)
    moreover have "?x / 2 = of_int (2 ^ 52)" by (simp add: True)
    ultimately show ?thesis unfolding fl_pos_def using rne_int [of "2 ^ 52"] by (simp add: True)
  next
    case False
    with assms have n: "n < 2 ^ 53" by simp
    have "bexp ?x \<le> 52"
    proof (rule ccontr)
      assume "\<not> bexp ?x \<le> 52"
      then have "(2::rat) powi 53 \<le> 2 powi bexp ?x" by (intro power_int_increasing) simp_all
      with bexp_bounds(1) [OF x(1)] have "(2::rat) ^ 53 \<le> of_int n" by (simp add: power_int_def)
      then have "(of_int (2 ^ 53) :: rat) \<le> of_int n" by simp
      with n show False by (simp only: of_int_le_iff)
    qed
    then obtain k :: nat where k: "52 - bexp ?x = int k" using zero_le_imp_eq_int [of "52 - bexp ?x"] by auto
    have "max (bexp ?x - 52) (- 1074) = - int k" using b0 k by simp
    then have "ulp ?x = 2 powi (- int k)" by (simp only: ulp_def)
    then have u: "ulp ?x = 1 / 2 ^ k" by (simp add: power_int_minus divide_inverse)
    have "?x / ulp ?x = of_int (n * 2 ^ k)" by (simp add: u)
    then show ?thesis unfolding fl_pos_def by (simp only: rne_int) (simp add: u)
  qed
qed

lemma fl_int: "\<bar>n\<bar> \<le> 2 ^ 53 \<Longrightarrow> fl (of_int n) = of_int n"
  using fl_pos_int [of n] fl_pos_int [of "- n"] by (auto simp: fl_def)

text \<open>Scaling by a power of two is exact, as long as the result is not subnormal.\<close>

lemma bexp_unique:
  assumes "2 powi e \<le> x" "x < 2 powi (e + 1)"
  shows "bexp x = e"
proof -
  have x: "0 < x" using assms(1) zero_less_power_int [of "2::rat" e] by linarith
  have "bexp x < e + 1"
  proof (rule ccontr)
    assume "\<not> bexp x < e + 1"
    then have "(2::rat) powi (e + 1) \<le> 2 powi bexp x" by (intro power_int_increasing) simp_all
    with bexp_bounds(1) [OF x] assms(2) show False by linarith
  qed
  moreover have "e < bexp x + 1"
  proof (rule ccontr)
    assume "\<not> e < bexp x + 1"
    then have "(2::rat) powi (bexp x + 1) \<le> 2 powi e" by (intro power_int_increasing) simp_all
    with bexp_bounds(2) [OF x] assms(1) show False by linarith
  qed
  ultimately show ?thesis by simp
qed

lemma fl_pos_scale:
  assumes "0 < x" "- 1022 \<le> bexp x" "- 1022 \<le> bexp x + k"
  shows "fl_pos (x * 2 powi k) = fl_pos x * 2 powi k"
proof -
  have a: "(2::rat) powi (i + k) = 2 powi i * 2 powi k" for i by (simp add: power_int_add)
  have "bexp (x * 2 powi k) = bexp x + k"
  proof (rule bexp_unique)
    show "2 powi (bexp x + k) \<le> x * 2 powi k" unfolding a by (intro mult_right_mono bexp_bounds(1) assms(1)) simp
    have "x * 2 powi k < 2 powi (bexp x + 1) * 2 powi k" by (intro mult_strict_right_mono bexp_bounds(2) assms(1)) simp
    then show "x * 2 powi k < 2 powi (bexp x + k + 1)" using a [of "bexp x + 1"] by (simp add: ac_simps)
  qed
  then have u: "ulp (x * 2 powi k) = ulp x * 2 powi k" using assms(2,3) a [of "bexp x - 52"] by (simp add: ulp_def algebra_simps)
  have "x * 2 powi k / ulp (x * 2 powi k) = x / ulp x" by (simp add: u)
  then show ?thesis by (simp add: fl_pos_def u)
qed

lemma fl_dyadic:
  assumes "0 < n" "n \<le> 2 ^ 53" "k \<le> 1022"
  shows "fl (of_int n / 2 ^ k) = of_int n / 2 ^ k"
proof -
  let ?x = "of_int n :: rat"
  have b0: "0 \<le> bexp ?x"
  proof (rule ccontr)
    assume "\<not> 0 \<le> bexp ?x"
    then have "(2::rat) powi (bexp ?x + 1) \<le> 2 powi 0" by (intro power_int_increasing) simp_all
    moreover have "?x < 2 powi (bexp ?x + 1)" "1 \<le> ?x" using assms(1) by (simp_all add: bexp_bounds(2))
    ultimately show False by simp
  qed
  have d: "?x / 2 ^ k = ?x * 2 powi (- int k)" by (simp add: power_int_minus divide_inverse)
  have "fl_pos (?x * 2 powi (- int k)) = fl_pos ?x * 2 powi (- int k)"
    by (rule fl_pos_scale) (use assms b0 in simp_all)
  with fl_pos_int [OF assms(1,2)] assms(1) show ?thesis by (simp add: fl_def d [symmetric])
qed

end
