(* ===== verification/RateLimiter.thy ===== *)
theory RateLimiter
  imports Doubles
begin

text \<open>
  The token-bucket rate limiter (apps/api/src/middleware/rateLimiter.ts). The closure of
  \<open>createRateLimiter\<close> is the record \<open>limiter\<close>; the \<open>Map\<close> of buckets is a map from client keys. Token
  counts are doubles: every operation on them goes through \<open>fl\<close>. The clock of the process, in whole
  milliseconds, is an argument.
\<close>

section \<open>Definitions\<close>

record bucket =
  tokens :: rat
  lastRefillMs :: int

record limiter =
  lm_capacity :: rat
  refillTokensPerMs :: rat
  buckets :: "string \<rightharpoonup> bucket"

record http_request =
  rq_headers :: "(string \<times> string) list"
  rq_ip :: "string option"

definition TEST_CLIENT_ID_HEADER :: string where
  "TEST_CLIENT_ID_HEADER = ''x-test-client-id''"

text \<open>\<open>req.header(name)\<close>: header names arrive in lower case.\<close>

definition req_header :: "string \<Rightarrow> http_request \<Rightarrow> string option" where
  "req_header h r = map_of (rq_headers r) h"

definition defaultIdentify :: "string \<Rightarrow> http_request \<Rightarrow> string" where
  "defaultIdentify NODE_ENV r =
     (let by_ip = (case rq_ip r of Some a \<Rightarrow> a | None \<Rightarrow> ''unknown'') in
      if NODE_ENV \<noteq> ''production''
      then (case req_header TEST_CLIENT_ID_HEADER r of
              Some c \<Rightarrow> (if c \<noteq> [] then ''test:'' @ c else by_ip)
            | None \<Rightarrow> by_ip)
      else by_ip)"

definition createRateLimiter :: "rat \<Rightarrow> rat \<Rightarrow> limiter result" where
  "createRateLimiter capacity windowSeconds =
     (if capacity \<le> 0 then Inl (JsError ''Error'' ''createRateLimiter: capacity must be > 0'' None)
      else if windowSeconds \<le> 0 then Inl (JsError ''Error'' ''createRateLimiter: windowSeconds must be > 0'' None)
      else Inr \<lparr>lm_capacity = capacity, refillTokensPerMs = fl (capacity / fl (windowSeconds * 1000)), buckets = Map.empty\<rparr>)"

definition getOrRefillBucket :: "string \<Rightarrow> int \<Rightarrow> limiter \<Rightarrow> bucket" where
  "getOrRefillBucket key nowMs l = (case buckets l key of
      None \<Rightarrow> \<lparr>tokens = lm_capacity l, lastRefillMs = nowMs\<rparr>
    | Some existing \<Rightarrow>
        (let elapsedMs = nowMs - lastRefillMs existing in
         if elapsedMs > 0
         then existing\<lparr>tokens := min (lm_capacity l) (fl (tokens existing + fl (of_int elapsedMs * refillTokensPerMs l))),
                       lastRefillMs := nowMs\<rparr>
         else existing))"

text \<open>\<open>Retry-After\<close>, in seconds.\<close>

definition retryAfterSeconds :: "limiter \<Rightarrow> bucket \<Rightarrow> int" where
  "retryAfterSeconds l b =
     (let tokensNeeded = fl (1 - tokens b);
          msUntilNextToken = fl (tokensNeeded / refillTokensPerMs l)
      in max 1 \<lceil>fl (msUntilNextToken / 1000)\<rceil>)"

datatype verdict = Next | Too_many_requests int

text \<open>The middleware: the bucket it read or made is in the map afterwards, as the source mutates it.\<close>

definition rateLimiter :: "string \<Rightarrow> int \<Rightarrow> limiter \<Rightarrow> verdict \<times> limiter" where
  "rateLimiter key nowMs l =
     (let b = getOrRefillBucket key nowMs l in
      if tokens b \<ge> 1
      then (Next, l\<lparr>buckets := (buckets l)(key \<mapsto> b\<lparr>tokens := fl (tokens b - 1)\<rparr>)\<rparr>)
      else (Too_many_requests (retryAfterSeconds l b), l\<lparr>buckets := (buckets l)(key \<mapsto> b)\<rparr>))"

text \<open>A sequence of requests: each with its key and its time.\<close>

fun rateLimited :: "(string \<times> int) list \<Rightarrow> limiter \<Rightarrow> verdict list \<times> limiter" where
  "rateLimited [] l = ([], l)"
| "rateLimited ((key, t) # rs) l =
     (let (v, l') = rateLimiter key t l; (vs, l'') = rateLimited rs l' in (v # vs, l''))"

section \<open>The contract of a rounding\<close>

text \<open>
  What the limiter relies on in the arithmetic: rounding is monotone and keeps the integers a double
  holds exactly. Everything below follows from that, and \<open>fl\<close> provides it.
\<close>

locale rounding =
  fixes rnd :: "rat \<Rightarrow> rat"
  assumes rnd_mono: "x \<le> y \<Longrightarrow> rnd x \<le> rnd y"
    and rnd_int: "\<bar>n\<bar> \<le> 2 ^ 53 \<Longrightarrow> rnd (of_int n) = of_int n"
begin

lemma rnd_zero: "rnd 0 = 0"
  using rnd_int [of 0] by simp

lemma rnd_nonneg: "0 \<le> x \<Longrightarrow> 0 \<le> rnd x"
  using rnd_mono [of 0 x] rnd_zero by simp

lemma rnd_nonpos: "x \<le> 0 \<Longrightarrow> rnd x \<le> 0"
  using rnd_mono [of x 0] rnd_zero by simp

text \<open>A value stays on its side of an integer.\<close>

lemma rnd_le_int: "x \<le> of_int n \<Longrightarrow> \<bar>n\<bar> \<le> 2 ^ 53 \<Longrightarrow> rnd x \<le> of_int n"
  using rnd_mono [of x "of_int n"] rnd_int [of n] by simp

lemma rnd_ge_int: "of_int n \<le> x \<Longrightarrow> \<bar>n\<bar> \<le> 2 ^ 53 \<Longrightarrow> of_int n \<le> rnd x"
  using rnd_mono [of "of_int n" x] rnd_int [of n] by simp

end

interpretation double: rounding fl
  by unfold_locales (simp_all add: fl_mono fl_int)

section \<open>Buckets stay within bounds\<close>

definition limiter_ok :: "int \<Rightarrow> limiter \<Rightarrow> bool" where
  "limiter_ok n l \<longleftrightarrow> lm_capacity l = of_int n \<and> 1 \<le> n \<and> n \<le> 2 ^ 53 \<and> 0 \<le> refillTokensPerMs l
     \<and> (\<forall>key b. buckets l key = Some b \<longrightarrow> 0 \<le> tokens b \<and> tokens b \<le> of_int n)"

lemma createRateLimiter_ok:
  assumes "1 \<le> n" "n \<le> 2 ^ 53" "0 < w" "createRateLimiter (of_int n) w = Inr l"
  shows "limiter_ok n l"
proof -
  have "0 \<le> fl (w * 1000)" using assms(3) by (intro double.rnd_nonneg) simp
  then have "0 \<le> fl (of_int n / fl (w * 1000))" using assms(1) by (intro double.rnd_nonneg) simp
  with assms show ?thesis by (auto simp: createRateLimiter_def limiter_ok_def split: if_splits)
qed

lemma refilled_bounds:
  assumes "limiter_ok n l"
  shows "0 \<le> tokens (getOrRefillBucket key t l) \<and> tokens (getOrRefillBucket key t l) \<le> of_int n"
proof (cases "buckets l key")
  case None
  with assms show ?thesis by (simp add: getOrRefillBucket_def limiter_ok_def)
next
  case (Some b)
  then have b: "0 \<le> tokens b" "tokens b \<le> of_int n" using assms by (auto simp: limiter_ok_def)
  have r: "0 \<le> refillTokensPerMs l" "lm_capacity l = of_int n" "1 \<le> n" using assms by (auto simp: limiter_ok_def)
  have "0 \<le> fl (tokens b + fl (of_int (t - lastRefillMs b) * refillTokensPerMs l))" if "lastRefillMs b < t"
    using b r that by (intro double.rnd_nonneg add_nonneg_nonneg mult_nonneg_nonneg) simp_all
  with b r show ?thesis by (auto simp: getOrRefillBucket_def Some Let_def min_le_iff_disj)
qed

lemma rateLimiter_ok:
  assumes "limiter_ok n l"
  shows "limiter_ok n (snd (rateLimiter key t l))"
proof -
  note b = refilled_bounds [OF assms, of key t]
  have n: "1 \<le> n" "n \<le> 2 ^ 53" using assms by (auto simp: limiter_ok_def)
  let ?x = "tokens (getOrRefillBucket key t l)"
  have "fl (?x - 1) \<le> of_int n" using b n by (intro double.rnd_le_int) simp_all
  moreover have "0 \<le> fl (?x - 1)" if "1 \<le> ?x" using that by (intro double.rnd_nonneg) simp
  ultimately show ?thesis using assms b by (auto simp: rateLimiter_def limiter_ok_def Let_def)
qed

lemma rateLimited_ok: "limiter_ok n l \<Longrightarrow> limiter_ok n (snd (rateLimited rs l))"
proof (induction rs arbitrary: l)
  case Nil
  then show ?case by simp
next
  case (Cons r rs)
  obtain key t where r: "r = (key, t)" by fastforce
  have "limiter_ok n (snd (rateLimited rs (snd (rateLimiter key t l))))"
    by (rule Cons.IH [OF rateLimiter_ok [OF Cons.prems]])
  then show ?case by (auto simp: r Let_def split: prod.splits)
qed

section \<open>Bursts\<close>

text \<open>Within one millisecond nothing is refilled, and whole tokens are counted exactly.\<close>

lemma rateLimiter_whole:
  assumes "buckets l key = Some \<lparr>tokens = of_int k, lastRefillMs = t\<rparr>" and "0 \<le> k" "k \<le> 2 ^ 53"
  shows "rateLimiter key t l =
    (if 1 \<le> k then (Next, l\<lparr>buckets := (buckets l)(key \<mapsto> \<lparr>tokens = of_int (k - 1), lastRefillMs = t\<rparr>)\<rparr>)
     else (Too_many_requests (retryAfterSeconds l \<lparr>tokens = 0, lastRefillMs = t\<rparr>), l))"
proof -
  have "fl (of_int k - 1) = of_int (k - 1)" using fl_int [of "k - 1"] assms(2,3) by simp
  moreover have "getOrRefillBucket key t l = \<lparr>tokens = of_int k, lastRefillMs = t\<rparr>"
    using assms(1) by (simp add: getOrRefillBucket_def)
  moreover have "k = 0" if "\<not> 1 \<le> k" using that assms(2) by simp
  ultimately show ?thesis
    using assms(1) by (auto simp: rateLimiter_def fun_upd_idem)
qed

lemma burst_whole:
  assumes "buckets l key = Some \<lparr>tokens = of_int (int k), lastRefillMs = t\<rparr>" and "int k \<le> 2 ^ 53"
  shows "fst (rateLimited (replicate (k + m) (key, t)) l)
    = replicate k Next @ replicate m (Too_many_requests (retryAfterSeconds l \<lparr>tokens = 0, lastRefillMs = t\<rparr>))"
  using assms
proof (induction k arbitrary: l)
  case 0
  then have "rateLimiter key t l = (Too_many_requests (retryAfterSeconds l \<lparr>tokens = 0, lastRefillMs = t\<rparr>), l)"
    using rateLimiter_whole [of l key 0 t] by simp
  then show ?case by (induction m) (simp_all add: split_def Let_def)
next
  case (Suc k)
  let ?l = "l\<lparr>buckets := (buckets l)(key \<mapsto> \<lparr>tokens = of_int (int k), lastRefillMs = t\<rparr>)\<rparr>"
  have r: "retryAfterSeconds ?l b = retryAfterSeconds l b" for b by (simp add: retryAfterSeconds_def)
  have "rateLimiter key t l = (Next, ?l)" using rateLimiter_whole [of l key "int (Suc k)" t] Suc.prems by simp
  with Suc.IH [of ?l] Suc.prems(2) r show ?case by (simp add: split_def Let_def)
qed

section \<open>Clients do not share buckets\<close>

text \<open>Two limiters that agree on a client: the same settings, the same bucket.\<close>

definition same_for :: "string \<Rightarrow> limiter \<Rightarrow> limiter \<Rightarrow> bool" where
  "same_for key l l' \<longleftrightarrow> lm_capacity l' = lm_capacity l \<and> refillTokensPerMs l' = refillTokensPerMs l
     \<and> buckets l' key = buckets l key"

lemma same_for_step:
  "same_for key l l' \<Longrightarrow> fst (rateLimiter key t l') = fst (rateLimiter key t l)
     \<and> same_for key (snd (rateLimiter key t l)) (snd (rateLimiter key t l'))"
  by (simp add: same_for_def rateLimiter_def getOrRefillBucket_def retryAfterSeconds_def Let_def split: option.splits)

lemma same_for_other: "key' \<noteq> key \<Longrightarrow> same_for key l (snd (rateLimiter key' t l))"
  by (simp add: same_for_def rateLimiter_def Let_def)

lemma same_for_trans: "same_for key l l' \<Longrightarrow> same_for key l' l'' \<Longrightarrow> same_for key l l''"
  by (simp add: same_for_def)

lemma verdicts_alone:
  "same_for key l l' \<Longrightarrow>
   map snd (filter (\<lambda>(r, v). fst r = key) (zip rs (fst (rateLimited rs l'))))
   = fst (rateLimited (filter (\<lambda>r. fst r = key) rs) l)"
proof (induction rs arbitrary: l l')
  case Nil
  then show ?case by simp
next
  case (Cons r rs)
  obtain k t where r: "r = (k, t)" by fastforce
  show ?case
  proof (cases "k = key")
    case True
    from same_for_step [OF Cons.prems, of t] Cons.IH [of "snd (rateLimiter key t l)" "snd (rateLimiter key t l')"]
    show ?thesis by (simp add: r True Let_def split_def)
  next
    case False
    have "same_for key l (snd (rateLimiter k t l'))"
      using same_for_trans [OF Cons.prems same_for_other [OF False]] .
    from Cons.IH [OF this] False show ?thesis by (simp add: r Let_def split_def)
  qed
qed

section \<open>Properties\<close>

text \<open>C34. The token bucket never leaves its bounds, in double arithmetic: from a limiter made with a positive whole capacity (of
  at most 53 bits) and a positive window, after any sequence of requests of any clients at any times, even with a clock
  that jumps back, every bucket holds between zero and capacity tokens, and a refusal asks to wait at least one second.\<close>

theorem bucket_bounds:
  assumes "1 \<le> n" "n \<le> 2 ^ 53" "0 < w" "createRateLimiter (of_int n) w = Inr l0" "rateLimited rs l0 = (vs, l)"
  shows "(\<forall>key b. buckets l key = Some b \<longrightarrow> 0 \<le> tokens b \<and> tokens b \<le> of_int n)
     \<and> (\<forall>key t r. fst (rateLimiter key t l) = Too_many_requests r \<longrightarrow> 1 \<le> r)"
proof -
  have "limiter_ok n l" using rateLimited_ok [OF createRateLimiter_ok [OF assms(1-4)], of rs] assms(5) by simp
  then show ?thesis by (auto simp: limiter_ok_def rateLimiter_def retryAfterSeconds_def Let_def split: if_splits)
qed

theorem bucket_bounds_witness:
  "\<exists>l0 vs l. createRateLimiter 100 60 = Inr l0 \<and> rateLimited [(''a'', 0), (''b'', 5), (''a'', 3)] l0 = (vs, l)
     \<and> (\<forall>key b. buckets l key = Some b \<longrightarrow> 0 \<le> tokens b \<and> tokens b \<le> 100)"
proof -
  obtain l0 where l0: "createRateLimiter (of_int 100) 60 = Inr l0" by (simp add: createRateLimiter_def)
  obtain vs l where l: "rateLimited [(''a'', 0), (''b'', 5), (''a'', 3)] l0 = (vs, l)" by fastforce
  have "(\<forall>key b. buckets l key = Some b \<longrightarrow> 0 \<le> tokens b \<and> tokens b \<le> of_int 100)"
    using bucket_bounds [OF _ _ _ l0 l] by simp
  with l0 l show ?thesis by simp
qed

text \<open>A new client may send exactly \<open>capacity\<close> requests at one instant, and each further one at that instant is refused.\<close>

lemma burst_is_capacity:
  assumes "limiter_ok (int n) l" and "buckets l key = None" and "0 < m"
  shows "\<exists>r \<ge> 1. fst (rateLimited (replicate (n + m) (key, t)) l) = replicate n Next @ replicate m (Too_many_requests r)"
proof -
  have n: "lm_capacity l = of_int (int n)" "1 \<le> int n" "int n \<le> 2 ^ 53" using assms(1) by (auto simp: limiter_ok_def)
  let ?l = "l\<lparr>buckets := (buckets l)(key \<mapsto> \<lparr>tokens = of_int (int n), lastRefillMs = t\<rparr>)\<rparr>"
  have "getOrRefillBucket key t l = getOrRefillBucket key t ?l"
    using assms(2) n by (simp add: getOrRefillBucket_def)
  then have "rateLimiter key t l = rateLimiter key t ?l"
    by (simp add: rateLimiter_def retryAfterSeconds_def Let_def)
  moreover obtain k where "n + m = Suc k" using assms(3) by (cases m) auto
  ultimately have "rateLimited (replicate (n + m) (key, t)) l = rateLimited (replicate (n + m) (key, t)) ?l" by simp
  with burst_whole [of ?l key n t m] n show ?thesis
    by (auto intro!: exI [of _ "retryAfterSeconds ?l \<lparr>tokens = 0, lastRefillMs = t\<rparr>"] simp: retryAfterSeconds_def Let_def)
qed

text \<open>Clients do not influence each other: in any interleaving of requests, the verdicts a client gets are exactly those it
  would get if nobody else had sent anything.\<close>

lemma clients_isolated:
  "map snd (filter (\<lambda>(r, v). fst r = key) (zip rs (fst (rateLimited rs l))))
   = fst (rateLimited (filter (\<lambda>r. fst r = key) rs) l)"
  by (rule verdicts_alone) (simp add: same_for_def)

end
