(* ===== verification/ApiHttp.thy ===== *)
theory ApiHttp
  imports ApiJobs RateLimiter
begin

text \<open>
  The HTTP surface of the API: configuration (apps/api/src/config/env.ts), the API-key check and the
  backpressure middleware (apps/api/src/middleware), the routes (apps/api/src/routes), CORS and the
  error handler (apps/api/src/app.ts).

  A route is a function from the request, the choices of the environment (record \<open>api_awaits\<close>) and the
  state of the process to the response and the new state, the middlewares in the order in which
  \<open>jobsRouter\<close> composes them. A rejected promise of a handler reaches the error handler. The outcome of
  \<open>safeParse\<close> is an argument of the routes here (\<open>parse_env\<close>, \<open>parse_create\<close>, \<open>parse_id\<close>); theory \<open>Validation\<close> models the
  schemas and supplies it.
\<close>

section \<open>Configuration\<close>

record api_env =
  NODE_ENV :: string
  PORT :: int
  DATABASE_URL :: string
  RABBITMQ_URL :: string
  REPLAY_TEST_DELAY_MS :: int
  RATE_LIMIT_CAPACITY :: int
  RATE_LIMIT_WINDOW_SECONDS :: int
  BACKPRESSURE_THRESHOLD :: int
  API_KEY :: "string option"
  CORS_ALLOWED_ORIGINS :: "string option"
  JSON_BODY_LIMIT :: string

datatype startup = Exit int | Started api_env

definition missing_secrets :: "api_env \<Rightarrow> string list" where
  "missing_secrets e = (if truthy (API_KEY e) then [] else [''API_KEY''])
     @ (if truthy (CORS_ALLOWED_ORIGINS e) then [] else [''CORS_ALLOWED_ORIGINS''])"

definition load_env :: "('v \<Rightarrow> json + api_env) \<Rightarrow> 'v \<Rightarrow> startup" where
  "load_env parse_env process_env = (case parse_env process_env of
      Inl err \<Rightarrow> Exit 1
    | Inr data \<Rightarrow> (if NODE_ENV data = ''production'' \<and> length (missing_secrets data) > 0 then Exit 1 else Started data))"

section \<open>Requests and responses\<close>

record api_request = http_request +
  rq_body :: "json option"
  rq_id :: string

datatype http_response = Response (resp_status: int) (resp_retry_after: "string option") (resp_body: json)

definition jerror :: "string \<Rightarrow> (string \<times> json) list \<Rightarrow> json" where
  "jerror m ps = JObj ((''error'', JStr m) # ps)"

fun status_text :: "status \<Rightarrow> string" where
  "status_text QUEUED = ''QUEUED''"
| "status_text PROCESSING = ''PROCESSING''"
| "status_text COMPLETED = ''COMPLETED''"
| "status_text FAILED = ''FAILED''"
| "status_text RETRYING = ''RETRYING''"
| "status_text DEAD_LETTERED = ''DEAD_LETTERED''"

text \<open>The error handler, for an error that reaches it before a response was sent.\<close>

definition errorHandler :: "api_env \<Rightarrow> js_error \<Rightarrow> http_response" where
  "errorHandler e err = Response 500 None (jerror ''Internal server error''
     (if NODE_ENV e = ''production'' then [] else [(''detail'', JStr (error_text err))]))"

section \<open>Middlewares\<close>

definition API_KEY_HEADER :: string where
  "API_KEY_HEADER = ''x-api-key''"

text \<open>\<open>None\<close> is \<open>next()\<close>.\<close>

definition requireApiKey :: "api_env \<Rightarrow> api_request \<Rightarrow> http_response option" where
  "requireApiKey e r =
     (if \<not> truthy (API_KEY e) then None
      else (let provided = map_of (rq_headers r) API_KEY_HEADER in
            if truthy provided \<and> provided = API_KEY e then None
            else Some (Response 401 None (jerror ''Unauthorized'' [(''reason'', JStr ''missing_or_invalid_api_key'')]))))"

definition backpressure :: "api_env \<Rightarrow> io \<Rightarrow> db \<Rightarrow> http_response option result" where
  "backpressure e i d = (case query i (\<lambda>d. Inr (getStats d, d)) d of
      (Inl err, _) \<Rightarrow> Inl err
    | (Inr stats, _) \<Rightarrow> Inr
        (if pendingOutboxEvents stats > BACKPRESSURE_THRESHOLD e
         then Some (Response 503 (Some ''5'') (jerror ''Service temporarily unable to accept new jobs''
           [(''reason'', JStr ''backpressure''), (''pendingOutboxEvents'', JNum (of_int (pendingOutboxEvents stats)))]))
         else None))"

section \<open>Routes\<close>

record api_state =
  a_db :: db
  a_limiter :: limiter

record api_awaits =
  aa_nowMs :: int
  aa_stats :: io
  aa_tx :: tx_io
  aa_new_id :: uuid
  aa_new_ev :: uuid
  aa_now :: timestamp
  aa_lookup :: io

text \<open>The start of both mutating routes: the key, then the shared rate limiter.\<close>

definition admit :: "api_env \<Rightarrow> api_awaits \<Rightarrow> api_request \<Rightarrow> api_state \<Rightarrow> http_response option \<times> api_state" where
  "admit e a r s = (case requireApiKey e r of
      Some resp \<Rightarrow> (Some resp, s)
    | None \<Rightarrow> (case rateLimiter (defaultIdentify (NODE_ENV e) (http_request.truncate r)) (aa_nowMs a) (a_limiter s) of
          (Too_many_requests n, l) \<Rightarrow>
            (Some (Response 429 (Some (int_text n)) (jerror ''Too many requests'' [(''reason'', JStr ''rate_limited'')])), s\<lparr>a_limiter := l\<rparr>)
        | (Next, l) \<Rightarrow> (None, s\<lparr>a_limiter := l\<rparr>)))"

definition post_jobs ::
  "api_env \<Rightarrow> (json option \<Rightarrow> json + (string \<times> (string \<times> json) list)) \<Rightarrow> api_awaits \<Rightarrow> api_request \<Rightarrow> api_state
   \<Rightarrow> http_response \<times> api_state" where
  "post_jobs e parse_create a r s = (case admit e a r s of
      (Some resp, s1) \<Rightarrow> (resp, s1)
    | (None, s1) \<Rightarrow> (case backpressure e (aa_stats a) (a_db s1) of
          Inl err \<Rightarrow> (errorHandler e err, s1)
        | Inr (Some resp) \<Rightarrow> (resp, s1)
        | Inr None \<Rightarrow> (case parse_create (rq_body r) of
              Inl details \<Rightarrow> (Response 400 None (jerror ''Invalid request'' [(''details'', details)]), s1)
            | Inr (ty, pl) \<Rightarrow> (case createJob (aa_tx a) (aa_new_id a) (aa_new_ev a) (aa_now a) ty pl (a_db s1) of
                  (Inl err, d) \<Rightarrow> (errorHandler e err, s1\<lparr>a_db := d\<rparr>)
                | (Inr j, d) \<Rightarrow>
                    (Response 201 None (JObj [(''jobId'', JStr (jid j)), (''status'', JStr (status_text (status j)))]),
                     s1\<lparr>a_db := d\<rparr>)))))"

text \<open>The representation of a row that \<open>res.json\<close> sends is not modelled further: \<open>show_job\<close> is a parameter.\<close>

definition get_job ::
  "api_env \<Rightarrow> uuid_input \<Rightarrow> (string \<Rightarrow> string option) \<Rightarrow> (job \<Rightarrow> json) \<Rightarrow> api_awaits \<Rightarrow> api_request \<Rightarrow> db \<Rightarrow> http_response" where
  "get_job e uin parse_id show_job a r d = (case parse_id (rq_id r) of
      None \<Rightarrow> Response 400 None (jerror ''Invalid job id format'' [])
    | Some i \<Rightarrow> (case fst (api_getJobById uin (aa_lookup a) (Some (JStr i)) d) of
          Inl err \<Rightarrow> errorHandler e err
        | Inr None \<Rightarrow> Response 404 None (jerror ''Job not found'' [])
        | Inr (Some j) \<Rightarrow> Response 200 None (show_job j)))"

definition get_jobs :: "api_env \<Rightarrow> (recent_job \<Rightarrow> json) \<Rightarrow> api_awaits \<Rightarrow> db \<Rightarrow> http_response" where
  "get_jobs e show_recent a d = (case query (aa_lookup a) (\<lambda>d. Inr (listRecentJobs d, d)) d of
      (Inl err, _) \<Rightarrow> errorHandler e err
    | (Inr rows, _) \<Rightarrow> Response 200 None (JObj [(''jobs'', JArr (map show_recent rows))]))"

definition stats_json :: "job_stats \<Rightarrow> json" where
  "stats_json st = (let num = (\<lambda>n. JNum (of_int n)) in JObj
     [(''totalJobs'', num (totalJobs st)),
      (''byStatus'', JObj (map (\<lambda>x. (status_text x, num (byStatus st x)))
         [QUEUED, PROCESSING, COMPLETED, FAILED, RETRYING, DEAD_LETTERED])),
      (''totalReplays'', num (totalReplays st)),
      (''totalAttempts'', num (totalAttempts st)),
      (''pendingOutboxEvents'', num (pendingOutboxEvents st))])"

definition get_stats :: "api_env \<Rightarrow> api_awaits \<Rightarrow> db \<Rightarrow> http_response" where
  "get_stats e a d = (case query (aa_stats a) (\<lambda>d. Inr (getStats d, d)) d of
      (Inl err, _) \<Rightarrow> errorHandler e err
    | (Inr stats, _) \<Rightarrow> Response 200 None (stats_json stats))"

definition post_replay ::
  "api_env \<Rightarrow> uuid_input \<Rightarrow> (string \<Rightarrow> string option) \<Rightarrow> api_awaits \<Rightarrow> api_request \<Rightarrow> api_state \<Rightarrow> http_response \<times> api_state" where
  "post_replay e uin parse_id a r s = (case admit e a r s of
      (Some resp, s1) \<Rightarrow> (resp, s1)
    | (None, s1) \<Rightarrow> (case parse_id (rq_id r) of
          None \<Rightarrow> (Response 400 None (jerror ''Invalid job id format'' []), s1)
        | Some i \<Rightarrow> (case claimReplay uin (aa_tx a) (aa_new_ev a) (aa_now a) (Some (JStr i)) (a_db s1) of
              (Inl err, d) \<Rightarrow> (errorHandler e err, s1\<lparr>a_db := d\<rparr>)
            | (Inr None, d) \<Rightarrow> (case fst (api_getJobById uin (aa_lookup a) (Some (JStr i)) d) of
                  Inl err \<Rightarrow> (errorHandler e err, s1\<lparr>a_db := d\<rparr>)
                | Inr None \<Rightarrow> (Response 404 None (jerror ''Job not found'' []), s1\<lparr>a_db := d\<rparr>)
                | Inr (Some c) \<Rightarrow>
                    (Response 409 None (jerror ''Job is not in a replayable state'' [(''currentStatus'', JStr (status_text (status c)))]),
                     s1\<lparr>a_db := d\<rparr>))
            | (Inr (Some j), d) \<Rightarrow>
                (Response 200 None (JObj [(''jobId'', JStr (jid j)), (''status'', JStr (status_text (status j))),
                   (''replayCount'', JNum (of_int (replay_count j)))]), s1\<lparr>a_db := d\<rparr>))))"

definition health_live :: http_response where
  "health_live = Response 200 None (JObj [(''status'', JStr ''ok'')])"

text \<open>The readiness probe: the outcomes of the two concurrent checks.\<close>

definition health_ready :: "unit result \<Rightarrow> unit result \<Rightarrow> http_response" where
  "health_ready postgresResult rabbitmqResult =
     (let postgresOk = (\<not> isl postgresResult); rabbitmqOk = (\<not> isl rabbitmqResult);
          body = JObj [(''postgres'', JStr (if postgresOk then ''ok'' else ''error'')),
                       (''rabbitmq'', JStr (if rabbitmqOk then ''ok'' else ''error''))]
      in if postgresOk \<and> rabbitmqOk then Response 200 None body else Response 503 None body)"

section \<open>CORS\<close>

fun js_split :: "char \<Rightarrow> string \<Rightarrow> string list" where
  "js_split c [] = [[]]"
| "js_split c (x # xs) = (if x = c then [] # js_split c xs else (case js_split c xs of [] \<Rightarrow> [[x]] | w # ws \<Rightarrow> (x # w) # ws))"

definition js_space :: "char \<Rightarrow> bool" where
  "js_space c \<longleftrightarrow> (of_char c :: nat) \<in> {9, 10, 11, 12, 13, 32, 160}"

definition js_trim :: "string \<Rightarrow> string" where
  "js_trim s = rev (dropWhile js_space (rev (dropWhile js_space s)))"

definition allowedOrigins :: "string option \<Rightarrow> string list" where
  "allowedOrigins cfg = (if truthy cfg then filter (\<lambda>s. s \<noteq> []) (map js_trim (js_split (CHR '','') (the cfg))) else [])"

definition cors_origin :: "string option \<Rightarrow> string option \<Rightarrow> bool" where
  "cors_origin cfg requestOrigin =
     (if \<not> truthy requestOrigin then True else List.member (allowedOrigins cfg) (the requestOrigin))"

section \<open>What the routes do\<close>

lemma admit_db: "admit e a r s = (v, s1) \<Longrightarrow> a_db s1 = a_db s"
  by (auto simp: admit_def split: option.splits prod.splits verdict.splits)

lemma admit_status: "admit e a r s = (Some resp, s1) \<Longrightarrow> resp_status resp \<in> {401, 429}"
  by (auto simp: admit_def requireApiKey_def Let_def split: option.splits prod.splits verdict.splits if_splits)

lemma unauthorised:
  assumes "API_KEY e = Some k" "k \<noteq> []" "map_of (rq_headers r) API_KEY_HEADER \<noteq> Some k"
  shows "requireApiKey e r = Some (Response 401 None (jerror ''Unauthorized'' [(''reason'', JStr ''missing_or_invalid_api_key'')]))"
  using assms by (auto simp: requireApiKey_def truthy_def Let_def)

lemma backpressure_ok:
  "backpressure e Io_ok d = Inr (if countPendingOutboxEvents d > BACKPRESSURE_THRESHOLD e
     then Some (Response 503 (Some ''5'') (jerror ''Service temporarily unable to accept new jobs''
       [(''reason'', JStr ''backpressure''), (''pendingOutboxEvents'', JNum (of_int (countPendingOutboxEvents d)))]))
     else None)"
  by (simp add: backpressure_def getStats_def countPendingOutboxEvents_def pending_def [abs_def])

lemma backpressure_status: "backpressure e i d = Inr (Some resp) \<Longrightarrow> resp_status resp = 503"
  by (auto simp: backpressure_def split: prod.splits sum.splits if_splits)

lemma post_replay_hit:
  assumes "admit e a r s = (None, s1)" and "schema_ok (a_db s)" and "aa_tx a = tx_fine"
    and "aa_new_ev a \<notin> set (map ev_id (outbox_events (a_db s)))" and "parse_id (rq_id r) = Some i"
    and "uin (Some (JStr i)) = Inr (Some i)" and "find_job (a_db s) i = Some j" and "status j = DEAD_LETTERED"
    and "replay_count j < int4_max"
  shows "fst (post_replay e uin parse_id a r s) = Response 200 None (JObj [(''jobId'', JStr i), (''status'', JStr ''QUEUED''),
           (''replayCount'', JNum (of_int (replay_count j + 1)))])
     \<and> find_job (a_db (snd (post_replay e uin parse_id a r s))) i = Some (replay_set (aa_now a) j)"
proof -
  from claimReplay_hit [where uin = uin and v = "Some (JStr i)" and now = "aa_now a", OF assms(2,6,4,7)] assms(8,9)
  obtain d2 where
    "claimReplay uin tx_fine (aa_new_ev a) (aa_now a) (Some (JStr i)) (a_db s) = (Inr (Some (replay_set (aa_now a) j)), d2)"
    "find_job d2 = (find_job (a_db s))(i \<mapsto> replay_set (aa_now a) j)" by (auto simp: is_dead_lettered_def)
  with assms admit_db [OF assms(1)] find_job_Some [OF assms(7)] show ?thesis by (simp add: post_replay_def replay_set_def)
qed

lemma post_jobs_answers:
  assumes "post_jobs e parse_create a r s = (resp, s')"
  shows "resp_status resp \<in> {201, 400, 401, 429, 500, 503}
     \<and> (resp_status resp \<in> {400, 401, 429, 503} \<longrightarrow> a_db s' = a_db s)
     \<and> (resp_status resp = 201 \<longrightarrow> (\<exists>ty pl. parse_create (rq_body r) = Inr (ty, pl)
          \<and> create_effect (aa_new_id a) (aa_new_ev a) (aa_now a) ty pl (a_db s) (a_db s')
          \<and> resp_body resp = JObj [(''jobId'', JStr (aa_new_id a)), (''status'', JStr ''QUEUED'')]))"
proof (cases "admit e a r s")
  case (Pair v s1)
  note d = admit_db [OF Pair]
  show ?thesis
  proof (cases v)
    case (Some x)
    with assms Pair d admit_status [OF Pair [unfolded Some]] show ?thesis by (auto simp: post_jobs_def)
  next
    case None
    show ?thesis
    proof (cases "backpressure e (aa_stats a) (a_db s1)")
      case (Inl err)
      with assms Pair None d show ?thesis by (auto simp: post_jobs_def errorHandler_def)
    next
      case (Inr b)
      note bp = Inr
      show ?thesis
      proof (cases b)
        case (Some x)
        with assms Pair None bp d backpressure_status show ?thesis by (auto simp: post_jobs_def)
      next
        case n: None
        show ?thesis
        proof (cases "parse_create (rq_body r)")
          case (Inl x)
          with assms Pair None bp n d show ?thesis by (auto simp: post_jobs_def)
        next
          case (Inr tp)
          obtain ty pl where tp: "tp = (ty, pl)" by fastforce
          obtain q d' where c: "createJob (aa_tx a) (aa_new_id a) (aa_new_ev a) (aa_now a) ty pl (a_db s1) = (q, d')" by fastforce
          show ?thesis
          proof (cases q)
            case q: (Inl err)
            with assms Pair None bp n Inr tp c show ?thesis by (auto simp: post_jobs_def errorHandler_def)
          next
            case q: (Inr j)
            from c q have "j = new_job (aa_new_id a) (aa_now a) ty pl \<and> create_effect (aa_new_id a) (aa_new_ev a) (aa_now a) ty pl (a_db s1) d'"
              by (auto elim: createJob_cases)
            with assms Pair None bp n Inr tp c q d show ?thesis by (auto simp: post_jobs_def new_job_def)
          qed
        qed
      qed
    qed
  qed
qed

lemma production_has_key:
  assumes "load_env parse_env penv = Started e" and "NODE_ENV e = ''production''"
  shows "\<exists>k. API_KEY e = Some k \<and> k \<noteq> []"
proof -
  from assms have "missing_secrets e = []" by (auto simp: load_env_def split: sum.splits if_splits)
  then show ?thesis by (auto simp: missing_secrets_def truthy_def split: if_splits option.splits)
qed

section \<open>Properties\<close>

text \<open>A process that starts in production has a key, and with a key configured no request without exactly that key in its
  \<open>x-api-key\<close> header gets past the first middleware: both mutating routes answer 401, and neither the database nor
  anybody's rate-limit budget has changed.\<close>

lemma production_is_authenticated:
  assumes "load_env parse_env penv = Started e" and "NODE_ENV e = ''production''"
  shows "\<exists>k. API_KEY e = Some k \<and> k \<noteq> []
     \<and> (\<forall>r. map_of (rq_headers r) API_KEY_HEADER \<noteq> Some k \<longrightarrow>
          resp_status (fst (post_jobs e parse_create a r s)) = 401 \<and> snd (post_jobs e parse_create a r s) = s
        \<and> resp_status (fst (post_replay e uin parse_id a r s)) = 401 \<and> snd (post_replay e uin parse_id a r s) = s)"
proof -
  from production_has_key [OF assms] obtain k where "API_KEY e = Some k" "k \<noteq> []" by blast
  with unauthorised show ?thesis by (auto simp: post_jobs_def post_replay_def admit_def)
qed

text \<open>Concrete inputs: a production configuration, and a request with a key.\<close>

definition sample_env :: api_env where
  "sample_env = \<lparr>NODE_ENV = ''production'', PORT = 3000, DATABASE_URL = ''postgres://db'', RABBITMQ_URL = ''amqp://mq'',
     REPLAY_TEST_DELAY_MS = 0, RATE_LIMIT_CAPACITY = 100,
     RATE_LIMIT_WINDOW_SECONDS = 60, BACKPRESSURE_THRESHOLD = 50, API_KEY = Some ''k'',
     CORS_ALLOWED_ORIGINS = Some ''https://a'', JSON_BODY_LIMIT = ''100kb''\<rparr>"

definition sample_request :: "string \<Rightarrow> api_request" where
  "sample_request key = \<lparr>rq_headers = [(API_KEY_HEADER, key)], rq_ip = Some ''10.0.0.1'', rq_body = None, rq_id = ''j1''\<rparr>"

definition sample_awaits :: api_awaits where
  "sample_awaits = \<lparr>aa_nowMs = 0, aa_stats = Io_ok, aa_tx = tx_fine, aa_new_id = ''j2'', aa_new_ev = ''e2'', aa_now = 9, aa_lookup = Io_ok\<rparr>"

definition sample_state :: "job \<Rightarrow> api_state" where
  "sample_state j = \<lparr>a_db = sample_db j, a_limiter = \<lparr>lm_capacity = 100, refillTokensPerMs = fl (100 / 60000), buckets = Map.empty\<rparr>\<rparr>"

lemma fl_99 [simp]: "fl 99 = 99"
  using fl_int [of 99] by simp

lemma sample_admit:
  "admit sample_env sample_awaits (sample_request ''k'') (sample_state j)
     = (None, (sample_state j)\<lparr>a_limiter := snd (rateLimiter ''10.0.0.1'' 0 (a_limiter (sample_state j)))\<rparr>)"
  by (simp add: admit_def requireApiKey_def sample_env_def sample_request_def truthy_def defaultIdentify_def
      http_request.defs sample_state_def rateLimiter_def getOrRefillBucket_def sample_awaits_def)

text \<open>Backpressure stops creations, and only creations. Past the key and the rate limiter, a creation is refused with 503 and
  \<open>Retry-After: 5\<close> exactly when more events are pending than the threshold allows, before its body is even looked at; a
  valid one is otherwise accepted. A replay is never refused because of the backlog.\<close>

lemma backpressure_gate:
  assumes "admit e a r s = (None, s1)" and "aa_stats a = Io_ok" and "aa_tx a = tx_fine"
    and "aa_new_id a \<notin> set (map jid (jobs (a_db s)))" and "aa_new_ev a \<notin> set (map ev_id (outbox_events (a_db s)))"
  shows "(BACKPRESSURE_THRESHOLD e < countPendingOutboxEvents (a_db s) \<longrightarrow>
        resp_status (fst (post_jobs e parse_create a r s)) = 503 \<and> resp_retry_after (fst (post_jobs e parse_create a r s)) = Some ''5''
      \<and> snd (post_jobs e parse_create a r s) = s1)
     \<and> (countPendingOutboxEvents (a_db s) \<le> BACKPRESSURE_THRESHOLD e \<longrightarrow> parse_create (rq_body r) = Inr (ty, pl) \<longrightarrow>
        (if storable ty pl then resp_status (fst (post_jobs e parse_create a r s)) = 201
         else resp_status (fst (post_jobs e parse_create a r s)) = 500 \<and> a_db (snd (post_jobs e parse_create a r s)) = a_db s))
     \<and> resp_status (fst (post_replay e uin parse_id a r s)) \<noteq> 503"
proof (intro conjI impI)
  have d: "a_db s1 = a_db s" using admit_db [OF assms(1)] .
  show "resp_status (fst (post_jobs e parse_create a r s)) = 503" "resp_retry_after (fst (post_jobs e parse_create a r s)) = Some ''5''"
    "snd (post_jobs e parse_create a r s) = s1" if "BACKPRESSURE_THRESHOLD e < countPendingOutboxEvents (a_db s)"
    using that assms(1,2) d by (simp_all add: post_jobs_def backpressure_ok)
  show "if storable ty pl then resp_status (fst (post_jobs e parse_create a r s)) = 201
      else resp_status (fst (post_jobs e parse_create a r s)) = 500 \<and> a_db (snd (post_jobs e parse_create a r s)) = a_db s"
    if le: "countPendingOutboxEvents (a_db s) \<le> BACKPRESSURE_THRESHOLD e" and v: "parse_create (rq_body r) = Inr (ty, pl)"
  proof (cases "storable ty pl")
    case True
    then obtain d' where "createJob tx_fine (aa_new_id a) (aa_new_ev a) (aa_now a) ty pl (a_db s) = (Inr (new_job (aa_new_id a) (aa_now a) ty pl), d')"
      using createJob_fine [OF assms(4,5), of ty pl "aa_now a"] by blast
    with True le v assms(1-3) d show ?thesis by (simp add: post_jobs_def backpressure_ok)
  next
    case False
    then obtain x where "createJob tx_fine (aa_new_id a) (aa_new_ev a) (aa_now a) ty pl (a_db s) = (Inl x, a_db s)"
      using createJob_nul by blast
    with False le v assms(1-3) d show ?thesis by (simp add: post_jobs_def backpressure_ok errorHandler_def)
  qed
  show "resp_status (fst (post_replay e uin parse_id a r s)) \<noteq> 503"
    by (auto simp: post_replay_def assms(1) errorHandler_def split: option.splits prod.splits sum.splits)
qed

text \<open>The replay route, past the key and the rate limiter and without faults, answers by the state of the job: 400 for a malformed
  identifier, 404 for an unknown job, 409 with the current status for a job that is not dead-lettered, in all three cases
  without a write, and 200 with the new replay count for a dead-lettered one, which is then queued again.\<close>

lemma replay_route:
  assumes "admit e a r s = (None, s1)" and "schema_ok (a_db s)" and "aa_tx a = tx_fine" and "aa_lookup a = Io_ok"
    and "aa_new_ev a \<notin> set (map ev_id (outbox_events (a_db s)))"
    and "\<And>i. parse_id (rq_id r) = Some i \<Longrightarrow> uin (Some (JStr i)) = Inr (Some i)"
    and "\<And>j. j \<in> set (jobs (a_db s)) \<Longrightarrow> replay_count j < int4_max"
  shows "case parse_id (rq_id r) of
      None \<Rightarrow> resp_status (fst (post_replay e uin parse_id a r s)) = 400 \<and> a_db (snd (post_replay e uin parse_id a r s)) = a_db s
    | Some i \<Rightarrow> (case find_job (a_db s) i of
        None \<Rightarrow> resp_status (fst (post_replay e uin parse_id a r s)) = 404 \<and> a_db (snd (post_replay e uin parse_id a r s)) = a_db s
      | Some j \<Rightarrow> (if status j = DEAD_LETTERED
          then fst (post_replay e uin parse_id a r s) = Response 200 None (JObj [(''jobId'', JStr i), (''status'', JStr ''QUEUED''),
                 (''replayCount'', JNum (of_int (replay_count j + 1)))])
             \<and> find_job (a_db (snd (post_replay e uin parse_id a r s))) i = Some (replay_set (aa_now a) j)
          else fst (post_replay e uin parse_id a r s) = Response 409 None
                 (jerror ''Job is not in a replayable state'' [(''currentStatus'', JStr (status_text (status j)))])
             \<and> a_db (snd (post_replay e uin parse_id a r s)) = a_db s))"
proof (cases "parse_id (rq_id r)")
  case None
  with assms(1) admit_db [OF assms(1)] show ?thesis by (simp add: post_replay_def)
next
  case (Some i)
  have d: "a_db s1 = a_db s" using admit_db [OF assms(1)] .
  have u: "uin (Some (JStr i)) = Inr (Some i)" using assms(6) [OF Some] .
  have look: "api_getJobById uin Io_ok (Some (JStr i)) (a_db s) = (Inr (find_job (a_db s) i), a_db s)"
    using u by (simp add: api_getJobById_def find_job_first)
  show ?thesis
  proof (cases "find_job (a_db s) i")
    case None
    have "claimReplay uin tx_fine (aa_new_ev a) (aa_now a) (Some (JStr i)) (a_db s) = (Inr None, a_db s)"
      by (rule claimReplay_miss [where uin = uin and v = "Some (JStr i)", OF assms(2) u]) (simp add: None)
    with Some None look assms(1,3,4) d show ?thesis by (simp add: post_replay_def)
  next
    case j: (Some j)
    show ?thesis
    proof (cases "status j = DEAD_LETTERED")
      case False
      have "claimReplay uin tx_fine (aa_new_ev a) (aa_now a) (Some (JStr i)) (a_db s) = (Inr None, a_db s)"
        by (rule claimReplay_miss [where uin = uin and v = "Some (JStr i)", OF assms(2) u]) (simp add: j False is_dead_lettered_def)
      with False Some j look assms(1,3,4) d show ?thesis by (simp add: post_replay_def)
    next
      case True
      with post_replay_hit [where uin = uin and parse_id = parse_id, OF assms(1-3,5) Some u j] assms(7) find_job_Some [OF j] Some j show ?thesis by simp
    qed
  qed
qed

section \<open>The list of allowed origins\<close>

lemma js_split_nonempty: "js_split c s \<noteq> []"
  by (induction s) (auto split: list.splits)

lemma js_split_word: "c \<notin> set w \<Longrightarrow> js_split c (w @ c # rest) = w # js_split c rest"
  by (induction w) auto

lemma js_split_single: "c \<notin> set w \<Longrightarrow> js_split c w = [w]"
  by (induction w) auto

lemma js_split_join:
  "os \<noteq> [] \<Longrightarrow> \<forall>w \<in> set os. c \<notin> set w \<Longrightarrow> js_split c (join [c] os) = os"
proof (induction os)
  case Nil
  then show ?case by simp
next
  case (Cons w os)
  then show ?case by (cases os) (simp_all add: js_split_single js_split_word)
qed

lemma dropWhile_hd: "xs = [] \<or> \<not> P (hd xs) \<Longrightarrow> dropWhile P xs = xs"
  by (cases xs) auto

lemma js_trim_id: "w \<noteq> [] \<Longrightarrow> \<not> js_space (hd w) \<Longrightarrow> \<not> js_space (last w) \<Longrightarrow> js_trim w = w"
  by (simp add: js_trim_def dropWhile_hd hd_rev)

text \<open>CORS is an exact allowlist. A configuration that joins origins with commas is read back as exactly those origins; a request
  with an origin is allowed if and only if that origin is one of them, there is no wildcard; without a configuration no
  origin is allowed; and a request without an origin always is.\<close>

lemma cors_allowlist:
  assumes "os \<noteq> []" and "\<forall>w \<in> set os. w \<noteq> [] \<and> CHR '','' \<notin> set w \<and> \<not> js_space (hd w) \<and> \<not> js_space (last w)"
  shows "allowedOrigins (Some (join '','' os)) = os
     \<and> (\<forall>w. w \<noteq> [] \<longrightarrow> (cors_origin (Some (join '','' os)) (Some w) \<longleftrightarrow> w \<in> set os) \<and> \<not> cors_origin None (Some w))
     \<and> cors_origin (Some (join '','' os)) None"
proof -
  have ne: "join '','' os \<noteq> []" using assms by (cases os; cases "tl os") auto
  have "js_split (CHR '','') (join '','' os) = os" by (rule js_split_join) (use assms in auto)
  moreover have "map js_trim os = os" using assms(2) by (simp add: js_trim_id map_idI)
  moreover have "filter (\<lambda>s. s \<noteq> []) os = os" using assms(2) by (auto intro!: filter_True)
  ultimately have "allowedOrigins (Some (join '','' os)) = os" using ne by (simp add: allowedOrigins_def truthy_def)
  then show ?thesis by (auto simp: cors_origin_def truthy_def allowedOrigins_def)
qed

end
