(* ===== verification/Dashboard.thy ===== *)
theory Dashboard
  imports Broker
begin

text \<open>
  The stateful parts of the dashboard that are not rendering: the WebSocket hook
  (apps/dashboard/src/ws/useJobEvents.ts), the stored operator key (apps/dashboard/src/api/apiKey.ts), the
  REST client (apps/dashboard/src/api/client.ts) and the replay action (apps/dashboard/src/components/
  JobDetail.tsx).
\<close>

section \<open>The WebSocket hook\<close>

datatype connection_state = Connecting | Open | Closed

record hook =
  lastEvent :: "json option"
  connectionState :: connection_state
  reconnectAttempt :: nat
  sockets_opened :: nat
  reconnectTimer :: "int option"
  cancelled :: bool

definition hook_init :: hook where
  "hook_init = \<lparr>lastEvent = None, connectionState = Connecting, reconnectAttempt = 0, sockets_opened = 0,
     reconnectTimer = None, cancelled = False\<rparr>"

definition hook_connect :: "hook \<Rightarrow> hook" where
  "hook_connect s = (if cancelled s then s else s\<lparr>connectionState := Connecting, sockets_opened := sockets_opened s + 1\<rparr>)"

datatype hook_event = Ws_open | Ws_message wire | Ws_close | Timer | Unmount

text \<open>\<open>parsed && parsed.type === "job.updated"\<close>\<close>

fun is_job_updated :: "json \<Rightarrow> bool" where
  "is_job_updated (JObj ps) \<longleftrightarrow> js_get ''type'' ps = Some (JStr ''job.updated'')"
| "is_job_updated _ \<longleftrightarrow> False"

text \<open>
  The callbacks. \<open>onerror\<close> closes the socket, which is the event \<open>Ws_close\<close>; the timer fires only while
  it is pending, and the cleanup of the effect clears it and closes the socket. A socket closes once and the
  next one is opened by the timer, so that there is at most one pending timer.
\<close>

fun hook_step :: "hook_event \<Rightarrow> hook \<Rightarrow> hook" where
  "hook_step Ws_open s = s\<lparr>reconnectAttempt := 0, connectionState := Open\<rparr>"
| "hook_step (Ws_message m) s = (case JSON_parse m of
      None \<Rightarrow> s
    | Some parsed \<Rightarrow> (if is_job_updated parsed then s\<lparr>lastEvent := Some parsed\<rparr> else s))"
| "hook_step Ws_close s =
     (let s1 = s\<lparr>connectionState := Closed\<rparr> in
      if cancelled s1 then s1
      else s1\<lparr>reconnectTimer := Some (wsReconnectDelayMs (reconnectAttempt s1)), reconnectAttempt := reconnectAttempt s1 + 1\<rparr>)"
| "hook_step Timer s = (case reconnectTimer s of None \<Rightarrow> s | Some d \<Rightarrow> hook_connect (s\<lparr>reconnectTimer := None\<rparr>))"
| "hook_step Unmount s = s\<lparr>cancelled := True, reconnectTimer := None\<rparr>"

definition hook_run :: "hook_event list \<Rightarrow> hook" where
  "hook_run evs = fold hook_step evs (hook_connect hook_init)"

text \<open>The delays a run of callbacks waits for.\<close>

fun hook_delays :: "hook_event list \<Rightarrow> hook \<Rightarrow> int list" where
  "hook_delays [] s = []"
| "hook_delays (e # es) s =
     (case (e, reconnectTimer s) of (Timer, Some d) \<Rightarrow> d # hook_delays es (hook_step e s) | _ \<Rightarrow> hook_delays es (hook_step e s))"

section \<open>The operator's key\<close>

text \<open>\<open>sessionStorage\<close> for the one key the dashboard uses; every access may throw.\<close>

datatype session_storage = Available "string option" | Throwing

fun getStoredApiKey :: "session_storage \<Rightarrow> string option" where
  "getStoredApiKey (Available v) = v"
| "getStoredApiKey Throwing = None"

fun setStoredApiKey :: "string \<Rightarrow> session_storage \<Rightarrow> session_storage" where
  "setStoredApiKey k (Available v) = Available (Some k)"
| "setStoredApiKey k Throwing = Throwing"

fun clearStoredApiKey :: "session_storage \<Rightarrow> session_storage" where
  "clearStoredApiKey (Available v) = Available None"
| "clearStoredApiKey Throwing = Throwing"

section \<open>The client and the replay action\<close>

text \<open>What \<open>fetch\<close> gives: a response with its status and body, \<open>None\<close> for a body that is no JSON, or a network error.\<close>

datatype fetched = Fetched int "json option" | Network_error js_error

datatype client_error = ApiError int json | Other_error js_error

definition request :: "fetched \<Rightarrow> client_error + json" where
  "request f = (case f of
      Network_error e \<Rightarrow> Inl (Other_error e)
    | Fetched st body \<Rightarrow>
        (if \<not> (200 \<le> st \<and> st \<le> 299) then Inl (ApiError st (case body of None \<Rightarrow> JNull | Some v \<Rightarrow> v))
         else (case body of None \<Rightarrow> Inl (Other_error (JsError ''SyntaxError'' [] None)) | Some v \<Rightarrow> Inr v)))"

text \<open>The header \<open>replayJob\<close> sends.\<close>

definition replay_header :: "session_storage \<Rightarrow> string option" where
  "replay_header st = (let apiKey = getStoredApiKey st in if truthy apiKey then apiKey else None)"

record replay_ui =
  replaying :: bool
  replayMessage :: "string option"
  replayError :: "string option"

definition replay_count_text :: "json \<Rightarrow> string" where
  "replay_count_text v = (case v of JObj ps \<Rightarrow> id_text (js_get ''replayCount'' ps) | _ \<Rightarrow> ''undefined'')"

text \<open>
  The \<open>try\<close> block of \<open>handleReplay\<close> once the request has been answered; a response that is \<open>null\<close> has no
  \<open>replayCount\<close> and ends in the same branch as a network error. The result: the storage, the display, and
  whether the parent refreshes.
\<close>

definition replay_answer :: "session_storage \<Rightarrow> client_error + json \<Rightarrow> session_storage \<times> replay_ui \<times> bool" where
  "replay_answer st answer =
     (let idle = \<lparr>replaying = False, replayMessage = None, replayError = None\<rparr>;
          failed = (\<lambda>m. idle\<lparr>replayError := Some m\<rparr>)
      in (case answer of
            Inr JNull \<Rightarrow> (st, failed ''Replay failed (network error).'', False)
          | Inr result \<Rightarrow> (st, idle\<lparr>replayMessage := Some (''Replay queued (replay #'' @ replay_count_text result @ '').'')\<rparr>, True)
          | Inl (ApiError s b) \<Rightarrow>
              (if s = 401 then (clearStoredApiKey st,
                 failed ''Unauthorized -- incorrect operator key. Try Replay again to re-enter it.'', False)
               else if s = 409 then (st, failed ''Job is no longer in a replayable state.'', False)
               else if s = 404 then (st, failed ''Job not found.'', False)
               else (st, failed ''Replay failed.'', False))
          | Inl (Other_error e) \<Rightarrow> (st, failed ''Replay failed (network error).'', False)))"

text \<open>
  \<open>handleReplay\<close>: \<open>prompt\<close> is what the operator enters, \<open>server\<close> answers the request with the given
  header. The first component of the result is the header of the request, if one was sent.
\<close>

definition handleReplay ::
  "string option \<Rightarrow> (string option \<Rightarrow> fetched) \<Rightarrow> session_storage \<Rightarrow> replay_ui
   \<Rightarrow> string option option \<times> session_storage \<times> replay_ui \<times> bool" where
  "handleReplay prompt server st ui =
     (let apiKey = getStoredApiKey st in
      if \<not> truthy apiKey \<and> \<not> truthy prompt then (None, st, ui, False)
      else (let st1 = (if truthy apiKey then st else setStoredApiKey (the prompt) st);
                h = replay_header st1
            in (Some h, replay_answer st1 (request (server h)))))"

section \<open>Facts\<close>

lemma unmounted_step:
  "cancelled s \<Longrightarrow> reconnectTimer s = None \<Longrightarrow>
     cancelled (hook_step e s) \<and> reconnectTimer (hook_step e s) = None \<and> sockets_opened (hook_step e s) = sockets_opened s"
  by (cases e) (auto simp: Let_def split: option.splits)

interpretation hook_gone: machine_invariant hook_step "\<lambda>_. True"
    "\<lambda>s. cancelled s \<and> reconnectTimer s = None \<and> sockets_opened s = n" for n
  by unfold_locales (use unmounted_step in auto)

lemma outage_delays:
  "\<not> cancelled s \<Longrightarrow>
   hook_delays (concat (replicate n [Ws_close, Timer])) s = map wsReconnectDelayMs [reconnectAttempt s..<reconnectAttempt s + n]"
proof (induction n arbitrary: s)
  case 0
  then show ?case by simp
next
  case (Suc n)
  let ?s1 = "hook_step Timer (hook_step Ws_close s)"
  have "\<not> cancelled ?s1" "reconnectAttempt ?s1 = Suc (reconnectAttempt s)"
    using Suc.prems by (simp_all add: hook_connect_def)
  with Suc.IH [of ?s1] Suc.prems show ?case by (simp add: upt_rec [of "reconnectAttempt s"])
qed

lemma cancelled_step: "cancelled (hook_step e s) \<longleftrightarrow> cancelled s \<or> e = Unmount"
  by (cases e) (simp_all add: Let_def hook_connect_def split: option.split)

lemma timer_step:
  "cancelled s \<longrightarrow> reconnectTimer s = None \<Longrightarrow> cancelled (hook_step e s) \<longrightarrow> reconnectTimer (hook_step e s) = None"
  by (cases e) (simp_all add: Let_def hook_connect_def split: option.split)

lemma hook_run_cancelled: "cancelled (hook_run evs) \<longleftrightarrow> Unmount \<in> set evs"
  unfolding hook_run_def
  by (induction evs rule: rev_induct) (auto simp: cancelled_step hook_connect_def hook_init_def)

lemma hook_run_timer: "cancelled (hook_run evs) \<longrightarrow> reconnectTimer (hook_run evs) = None"
  unfolding hook_run_def
proof (induction evs rule: rev_induct)
  case Nil
  then show ?case by (simp add: hook_connect_def hook_init_def)
next
  case (snoc e evs)
  from timer_step [OF snoc.IH, of e] show ?case by simp
qed

lemma no_delays: "cancelled s \<Longrightarrow> reconnectTimer s = None \<Longrightarrow> hook_delays (concat (replicate n [Ws_close, Timer])) s = []"
  by (induction n arbitrary: s) simp_all

section \<open>Properties\<close>

text \<open>The hook recovers politely and stops for good. While the server is away it waits, from one attempt to the next, for the
  doubling delays that start anew at one second after every successful connection and never exceed 15 seconds; once the
  component is unmounted, no callback that still arrives, in any order, opens a socket or sets a timer.\<close>

lemma hook_reconnects:
  "hook_delays (concat (replicate n [Ws_close, Timer])) (hook_step Ws_open (hook_run evs))
     = (if Unmount \<in> set evs then [] else map wsReconnectDelayMs [0..<n])
   \<and> (\<forall>k. 1000 \<le> wsReconnectDelayMs k \<and> wsReconnectDelayMs k \<le> 15000)
   \<and> sockets_opened (fold hook_step late (hook_step Unmount s)) = sockets_opened s
   \<and> reconnectTimer (fold hook_step late (hook_step Unmount s)) = None"
proof (intro conjI)
  let ?s = "hook_step Ws_open (hook_run evs)"
  show "hook_delays (concat (replicate n [Ws_close, Timer])) ?s = (if Unmount \<in> set evs then [] else map wsReconnectDelayMs [0..<n])"
    using outage_delays [of ?s n] no_delays [of ?s n] hook_run_cancelled [of evs] hook_run_timer [of evs] by auto
  show "\<forall>k. 1000 \<le> wsReconnectDelayMs k \<and> wsReconnectDelayMs k \<le> 15000" using ws_reconnect.bounds by blast
  show "sockets_opened (fold hook_step late (hook_step Unmount s)) = sockets_opened s"
    "reconnectTimer (fold hook_step late (hook_step Unmount s)) = None"
    using hook_gone.run_each [of "hook_step Unmount s" "sockets_opened s" late] by simp_all
qed

end
