(* ===== verification/Console.thy ===== *)
theory Console
  imports ApiHttp Dashboard
begin

text \<open>
  The dashboard against the API: the replay action of apps/dashboard/src/components/JobDetail.tsx with the
  replay route of apps/api/src/routes/jobs.ts as its server. Both sides are the definitions of the two
  components; what is added here is only the request that \<open>replayJob\<close> sends.
\<close>

section \<open>The request and the response on the wire\<close>

text \<open>\<open>replayJob\<close>: a POST to the replay route with the \<open>x-api-key\<close> header, if there is a key.\<close>

definition replayJob_request :: "api_request \<Rightarrow> string option \<Rightarrow> api_request" where
  "replayJob_request base h = base\<lparr>rq_headers := (case h of
      None \<Rightarrow> rq_headers base
    | Some k \<Rightarrow> (API_KEY_HEADER, k) # rq_headers base)\<rparr>"

definition fetched_of :: "http_response \<Rightarrow> fetched" where
  "fetched_of r = Fetched (resp_status r) (Some (resp_body r))"

text \<open>The server that the dashboard talks to, in state \<open>s\<close>, and the state after the request.\<close>

definition replay_server ::
  "api_env \<Rightarrow> uuid_input \<Rightarrow> (string \<Rightarrow> string option) \<Rightarrow> api_awaits \<Rightarrow> api_request \<Rightarrow> api_state \<Rightarrow> string option \<Rightarrow> fetched" where
  "replay_server e uin parse_id a base s h = fetched_of (fst (post_replay e uin parse_id a (replayJob_request base h) s))"

definition after_replay ::
  "api_env \<Rightarrow> uuid_input \<Rightarrow> (string \<Rightarrow> string option) \<Rightarrow> api_awaits \<Rightarrow> api_request \<Rightarrow> string option option \<Rightarrow> api_state \<Rightarrow> api_state" where
  "after_replay e uin parse_id a base sent s = (case sent of
      None \<Rightarrow> s
    | Some h \<Rightarrow> snd (post_replay e uin parse_id a (replayJob_request base h) s))"

section \<open>What the key decides\<close>

lemma admit_right_key:
  assumes "API_KEY e = Some k" "k \<noteq> []"
    and "fst (rateLimiter (defaultIdentify (NODE_ENV e) (http_request.truncate (replayJob_request base (Some k)))) (aa_nowMs a)
          (a_limiter s)) = Next"
  shows "\<exists>s1. admit e a (replayJob_request base (Some k)) s = (None, s1)"
  using assms by (auto simp: admit_def requireApiKey_def replayJob_request_def truthy_def Let_def split: prod.splits)

lemma wrong_key:
  assumes "API_KEY e = Some k" "k \<noteq> []" "w \<noteq> k"
  shows "fst (post_replay e uin parse_id a (replayJob_request base (Some w)) s)
       = Response 401 None (jerror ''Unauthorized'' [(''reason'', JStr ''missing_or_invalid_api_key'')])
     \<and> snd (post_replay e uin parse_id a (replayJob_request base (Some w)) s) = s"
  using assms unauthorised [OF assms(1,2), of "replayJob_request base (Some w)"]
  by (simp add: post_replay_def admit_def replayJob_request_def)

text \<open>The key that the action uses: the stored one, or else the one entered.\<close>

definition operator_key :: "string option \<Rightarrow> string option \<Rightarrow> string option" where
  "operator_key stored prompt = (if truthy stored then stored else prompt)"

lemma handleReplay_sends:
  assumes "operator_key stored prompt = Some w" and "w \<noteq> []"
  shows "handleReplay prompt server (Available stored) ui
       = (Some (Some w), replay_answer (Available (Some w)) (request (server (Some w))))"
  using assms by (auto simp: handleReplay_def operator_key_def truthy_def replay_header_def Let_def split: if_splits option.splits)

section \<open>Properties\<close>

text \<open>C25. Replaying from the dashboard works end to end. With the right key, stored or just entered, an operator's click on a
  dead-lettered job queues it again through the API and the dashboard shows the number of the replay; with a wrong key the
  API answers 401, nothing has changed on the server, and the dashboard forgets the key and says so; without any key no
  request is sent.\<close>

theorem operator_replay:
  assumes "API_KEY e = Some k" and "k \<noteq> []" and "operator_key stored prompt = Some w" and "w \<noteq> []"
    and "fst (rateLimiter (defaultIdentify (NODE_ENV e) (http_request.truncate (replayJob_request base (Some k)))) (aa_nowMs a)
          (a_limiter s)) = Next"
    and "schema_ok (a_db s)" and "aa_tx a = tx_fine" and "aa_new_ev a \<notin> set (map ev_id (outbox_events (a_db s)))"
    and "parse_id (rq_id base) = Some i" and "uin (Some (JStr i)) = Inr (Some i)"
    and "find_job (a_db s) i = Some j" and "status j = DEAD_LETTERED" and "replay_count j < int4_max"
  shows "case handleReplay prompt (replay_server e uin parse_id a base s) (Available stored) ui of (sent, st, ui', refresh) \<Rightarrow>
      sent = Some (Some w) \<and> \<not> replaying ui'
    \<and> (if w = k
       then st = Available (Some k) \<and> refresh \<and> replayError ui' = None
          \<and> replayMessage ui' = Some (''Replay queued (replay #'' @ int_text (replay_count j + 1) @ '').'')
          \<and> find_job (a_db (after_replay e uin parse_id a base sent s)) i = Some (replay_set (aa_now a) j)
       else st = Available None \<and> \<not> refresh \<and> replayMessage ui' = None
          \<and> replayError ui' = Some ''Unauthorized -- incorrect operator key. Try Replay again to re-enter it.''
          \<and> after_replay e uin parse_id a base sent s = s)
    \<and> fst (handleReplay None server (Available None) ui) = None"
proof -
  have none: "fst (handleReplay None server (Available None) ui) = None" by (simp add: handleReplay_def truthy_def)
  show ?thesis
  proof (cases "w = k")
    case True
    obtain s1 where ad: "admit e a (replayJob_request base (Some k)) s = (None, s1)" using admit_right_key [OF assms(1,2,5)] by blast
    have id: "parse_id (rq_id (replayJob_request base (Some k))) = Some i" using assms(9) by (simp add: replayJob_request_def)
    from post_replay_hit [where uin = uin and parse_id = parse_id, OF ad assms(6-8) id assms(10-13)] True none show ?thesis
      by (simp add: handleReplay_sends [OF assms(3,4)] replay_server_def after_replay_def fetched_of_def request_def replay_answer_def Let_def
          replay_count_text_def id_text_def js_get_def)
  next
    case False
    from wrong_key [OF assms(1,2) False, of uin parse_id a base s] False none show ?thesis
      by (simp add: handleReplay_sends [OF assms(3,4)] replay_server_def after_replay_def fetched_of_def request_def replay_answer_def Let_def)
  qed
qed

lemma outbox_events_sample: "outbox_events (sample_db j) = []"
  by (simp add: sample_db_def)

theorem operator_replay_witness:
  "let j = sample_job DEAD_LETTERED 3 [] in
   replayMessage (fst (snd (snd (handleReplay (Some ''k'') (replay_server sample_env plain_uin Some sample_awaits (sample_request ''old'') (sample_state j))
     (Available None) \<lparr>replaying = False, replayMessage = None, replayError = None\<rparr>))))
   = Some ''Replay queued (replay #1).''"
proof -
  let ?j = "sample_job DEAD_LETTERED 3 []"
  let ?s = "sample_state ?j"
  let ?ui = "\<lparr>replaying = False, replayMessage = None, replayError = None\<rparr>"
  have e: "API_KEY sample_env = Some ''k''" "operator_key None (Some ''k'') = Some ''k''"
    by (simp_all add: sample_env_def operator_key_def truthy_def)
  have r: "fst (rateLimiter (defaultIdentify (NODE_ENV sample_env) (http_request.truncate (replayJob_request (sample_request ''old'') (Some ''k''))))
      (aa_nowMs sample_awaits) (a_limiter ?s)) = Next"
    by (simp add: replayJob_request_def sample_env_def sample_request_def defaultIdentify_def http_request.defs sample_state_def
        rateLimiter_def getOrRefillBucket_def sample_awaits_def)
  have d: "schema_ok (a_db ?s)" "aa_tx sample_awaits = tx_fine" "aa_new_ev sample_awaits \<notin> set (map ev_id (outbox_events (a_db ?s)))"
    "rq_id (sample_request ''old'') = ''j1''" "find_job (a_db ?s) ''j1'' = Some ?j"
    by (simp_all add: sample_state_def sample_awaits_def sample_request_def sample_find outbox_events_sample int4_max_def)
  have n: "nat_text 1 = ''1''" by code_simp
  have q: "Some (rq_id (sample_request ''old'')) = Some ''j1''" "plain_uin (Some (JStr ''j1'')) = Inr (Some ''j1'')" "''k'' \<noteq> []"
    using d(4) by simp_all
  have c: "status ?j = DEAD_LETTERED" "replay_count ?j < int4_max" "replay_count ?j = 0" by (simp_all add: int4_max_def sample_job_def)
  note operator_replay [where parse_id = Some and uin = plain_uin and ui = ?ui and server = "\<lambda>_. Fetched 200 None", OF e(1) q(3) e(2) q(3) r d(1-3) q(1,2) d(5) c(1,2)]
  with n c(3) show ?thesis by (simp add: int_text_def case_prod_unfold)
qed

end
