(* ===== verification/LiveUpdates.thy ===== *)
theory LiveUpdates
  imports Database
begin

text \<open>
  The live updates of the API: the change queries (apps/api/src/db/changeDetector.ts), the poller
  (apps/api/src/ws/changePoller.ts) and the broadcaster (apps/api/src/ws/broadcaster.ts).

  The table carries microseconds. The driver hands a timestamp to the program as a \<open>Date\<close>, in whole
  milliseconds: \<open>js_date\<close> is the conversion. The rows a query returns, the events and the cursor are in
  milliseconds, and the bound parameter of the query is the cursor in microseconds again.
\<close>

section \<open>Definitions\<close>

definition js_date :: "timestamp \<Rightarrow> int" where
  "js_date t = t div 1000"

record job_change =
  ch_id :: uuid
  ch_status :: status
  ch_updated_at :: int

definition change_of :: "job \<Rightarrow> job_change" where
  "change_of j = \<lparr>ch_id = jid j, ch_status = status j, ch_updated_at = js_date (updated_at j)\<rparr>"

definition getJobChangesSince :: "int \<Rightarrow> db \<Rightarrow> job_change list" where
  "getJobChangesSince since d = map change_of (sort_key updated_at (filter (\<lambda>j. updated_at j > since * 1000) (jobs d)))"

definition getStartupCursor :: "timestamp \<Rightarrow> int" where
  "getStartupCursor now = js_date now"

record job_updated_event =
  je_jobId :: uuid
  je_status :: status
  je_updatedAt :: int

definition event_of :: "job_change \<Rightarrow> job_updated_event" where
  "event_of c = \<lparr>je_jobId = ch_id c, je_status = ch_status c, je_updatedAt = ch_updated_at c\<rparr>"

datatype ready_state = CONNECTING | OPEN | CLOSING | CLOSED

text \<open>\<open>broadcast\<close>: what is sent to which of the clients of the server.\<close>

definition broadcast :: "(nat \<times> ready_state) list \<Rightarrow> job_updated_event \<Rightarrow> (nat \<times> job_updated_event) list" where
  "broadcast clients ev = map (\<lambda>c. (fst c, ev)) (filter (\<lambda>c. snd c = OPEN) clients)"

text \<open>
  One tick of the interval, the query and what follows its \<open>await\<close>: a failing query leaves the cursor, and broadcasts nothing.
\<close>

definition tick_query :: "io \<Rightarrow> int \<Rightarrow> db \<Rightarrow> job_change list result" where
  "tick_query i cursor d = fst (query i (\<lambda>d. Inr (getJobChangesSince cursor d, d)) d)"

definition tick_rest :: "job_change list result \<Rightarrow> int \<Rightarrow> job_updated_event list \<times> int" where
  "tick_rest r cursor = (case r of
      Inl err \<Rightarrow> ([], cursor)
    | Inr changes \<Rightarrow> (map event_of changes, if changes = [] then cursor else ch_updated_at (last changes)))"

definition poll_tick :: "io \<Rightarrow> int \<Rightarrow> db \<Rightarrow> job_updated_event list \<times> int" where
  "poll_tick i cursor d = tick_rest (tick_query i cursor d) cursor"

text \<open>
  The interval does not wait for a tick to end: while the query of one tick is unanswered, the next one fires with the same cursor, and
  answers come in any order. The cursor is a variable of the closure, read when a tick fires and set when it is answered.
\<close>

record poller =
  pl_cursor :: int
  pl_waiting :: "job_change list result list"
  pl_announced :: "job_updated_event list"

datatype poller_event = Fires io db | Answered nat

fun poller_step :: "poller_event \<Rightarrow> poller \<Rightarrow> poller" where
  "poller_step (Fires i d) s = s\<lparr>pl_waiting := pl_waiting s @ [tick_query i (pl_cursor s) d]\<rparr>"
| "poller_step (Answered n) s =
     (if n < length (pl_waiting s)
      then (let (evs, cursor') = tick_rest (pl_waiting s ! n) (pl_cursor s)
            in s\<lparr>pl_cursor := cursor', pl_waiting := take n (pl_waiting s) @ drop (Suc n) (pl_waiting s), pl_announced := pl_announced s @ evs\<rparr>)
      else s)"

text \<open>What the clients get in a tick.\<close>

definition tick_sends :: "(nat \<times> ready_state) list \<Rightarrow> job_updated_event list \<Rightarrow> (nat \<times> job_updated_event) list" where
  "tick_sends clients evs = concat (map (broadcast clients) evs)"

text \<open>A run of the poller: one state of the database and one query outcome per tick.\<close>

fun poll_run :: "(io \<times> db) list \<Rightarrow> int \<Rightarrow> job_updated_event list list \<times> int" where
  "poll_run [] cursor = ([], cursor)"
| "poll_run ((i, d) # ds) cursor =
     (let (evs, cursor') = poll_tick i cursor d; (rest, c) = poll_run ds cursor' in (evs # rest, c))"

section \<open>Facts\<close>

lemma poll_tick_ok:
  "poll_tick Io_ok cursor d = (map event_of (getJobChangesSince cursor d),
     if getJobChangesSince cursor d = [] then cursor else ch_updated_at (last (getJobChangesSince cursor d)))"
  by (simp add: poll_tick_def tick_query_def tick_rest_def)

lemma poll_tick_failed:
  "i \<noteq> Io_ok \<Longrightarrow> poll_tick i cursor d = ([], cursor)"
  by (cases i) (simp_all add: poll_tick_def tick_query_def tick_rest_def query_def)

lemma changes_set: "set (getJobChangesSince c d) = change_of ` {j \<in> set (jobs d). updated_at j > c * 1000}"
  by (auto simp: getJobChangesSince_def)

lemma js_date_bounds: "js_date t * 1000 \<le> t" "t < js_date t * 1000 + 1000"
  by (simp_all add: js_date_def)

lemma js_date_mono: "s \<le> t \<Longrightarrow> js_date s \<le> js_date t"
  by (simp add: js_date_def zdiv_mono1)

lemma changes_sorted: "sorted (map ch_updated_at (getJobChangesSince c d))"
proof -
  let ?js = "sort_key updated_at (filter (\<lambda>j. updated_at j > c * 1000) (jobs d))"
  have "map ch_updated_at (getJobChangesSince c d) = map js_date (map updated_at ?js)"
    by (simp add: getJobChangesSince_def change_of_def)
  moreover have "sorted (map js_date (map updated_at ?js))" by (rule sorted_map_mono) (auto intro!: mono_onI js_date_mono)
  ultimately show ?thesis by simp
qed

lemma changes_distinct:
  assumes "distinct (map jid (jobs d))"
  shows "distinct (map ch_id (getJobChangesSince c d))"
proof -
  let ?js = "sort_key updated_at (filter (\<lambda>j. updated_at j > c * 1000) (jobs d))"
  have "distinct (map jid (filter (\<lambda>j. updated_at j > c * 1000) (jobs d)))" by (rule distinct_map_filter [OF assms])
  then have "distinct (map jid ?js)" by (simp add: distinct_map)
  then show ?thesis by (simp add: getJobChangesSince_def change_of_def comp_def)
qed

lemma sorted_Max_last:
  fixes xs :: "int list"
  assumes "sorted xs" and "xs \<noteq> []"
  shows "Max (set xs) = last xs"
proof (rule Max_eqI)
  show "y \<le> last xs" if "y \<in> set xs" for y
  proof -
    from that obtain n where n: "n < length xs" "y = xs ! n" by (metis in_set_conv_nth)
    then have "xs ! n \<le> xs ! (length xs - 1)" by (intro sorted_nth_mono [OF assms(1)]) auto
    with n assms(2) show ?thesis by (simp add: last_conv_nth)
  qed
qed (use assms(2) in auto)

text \<open>The last row of a query is the latest job.\<close>

lemma last_change:
  assumes "getJobChangesSince c d \<noteq> []"
  obtains j where "j \<in> set (jobs d)" "last (getJobChangesSince c d) = change_of j" "updated_at j > c * 1000"
    "\<And>k. k \<in> set (jobs d) \<Longrightarrow> updated_at k > c * 1000 \<Longrightarrow> updated_at k \<le> updated_at j"
proof -
  let ?js = "sort_key updated_at (filter (\<lambda>j. updated_at j > c * 1000) (jobs d))"
  have ne: "?js \<noteq> []" using assms by (simp add: getJobChangesSince_def)
  have l: "last (getJobChangesSince c d) = change_of (last ?js)" using ne by (simp add: getJobChangesSince_def last_map)
  have "last ?js \<in> set ?js" using ne by (rule last_in_set)
  moreover have "updated_at k \<le> updated_at (last ?js)" if "k \<in> set ?js" for k
  proof -
    from that obtain n where n: "n < length ?js" "k = ?js ! n" by (metis in_set_conv_nth)
    have "sorted (map updated_at ?js)" by simp
    then have "map updated_at ?js ! n \<le> map updated_at ?js ! (length ?js - 1)" by (rule sorted_nth_mono) (use n in auto)
    with n ne show ?thesis by (simp add: last_conv_nth del: length_sort)
  qed
  ultimately show thesis using l that by auto
qed

text \<open>Each open client gets every event of the tick, once and in order; the others get nothing.\<close>

lemma broadcast_client:
  assumes "distinct (map fst clients)" and "(c, st) \<in> set clients"
  shows "filter (\<lambda>m. fst m = c) (broadcast clients ev) = (if st = OPEN then [(c, ev)] else [])"
  using assms
proof (induction clients)
  case Nil
  then show ?case by simp
next
  case (Cons x xs)
  have rest: "filter (\<lambda>m. fst m = fst x) (broadcast xs ev) = []"
    using Cons.prems(1) by (auto simp: broadcast_def filter_empty_conv) (metis fst_conv image_eqI)
  show ?case
  proof (cases "x = (c, st)")
    case True
    with rest show ?thesis by (simp add: broadcast_def)
  next
    case False
    with Cons.prems have "fst x \<noteq> c" "(c, st) \<in> set xs" by (auto simp: image_iff)
    with Cons show ?thesis by (simp add: broadcast_def)
  qed
qed

lemma tick_client:
  assumes "distinct (map fst clients)" and "(c, st) \<in> set clients"
  shows "map snd (filter (\<lambda>m. fst m = c) (tick_sends clients evs)) = (if st = OPEN then evs else [])"
  by (induction evs) (simp_all add: tick_sends_def broadcast_client [OF assms])

section \<open>Properties\<close>



text \<open>The cursor is coarser than the rows. When the latest change does not fall on a whole millisecond, the truncated cursor is
  before it, and as long as nothing newer happens every later tick announces that same job again, without end.\<close>

lemma poller_repeats:
  assumes "j \<in> set (jobs d)" and "\<And>k. k \<in> set (jobs d) \<Longrightarrow> updated_at k \<le> updated_at j"
    and "updated_at j mod 1000 \<noteq> 0" and "cursor * 1000 < updated_at j"
  shows "\<forall>evs \<in> set (fst (poll_run (replicate n (Io_ok, d)) cursor)). event_of (change_of j) \<in> set evs"
  using assms(4)
proof (induction n arbitrary: cursor)
  case 0
  then show ?case by simp
next
  case (Suc n)
  let ?cs = "getJobChangesSince cursor d"
  have here: "event_of (change_of j) \<in> set (fst (poll_tick Io_ok cursor d))"
    using assms(1) Suc.prems by (simp add: poll_tick_ok changes_set image_image)
  then have ne: "?cs \<noteq> []" by (auto simp: poll_tick_ok)
  obtain k where k: "k \<in> set (jobs d)" "last ?cs = change_of k"
    "\<And>i. i \<in> set (jobs d) \<Longrightarrow> updated_at i > cursor * 1000 \<Longrightarrow> updated_at i \<le> updated_at k"
    using last_change [OF ne] by metis
  have "updated_at k = updated_at j" using k(3) [OF assms(1) Suc.prems] assms(2) [OF k(1)] by simp
  then have c: "snd (poll_tick Io_ok cursor d) = js_date (updated_at j)" using ne k(2) by (simp add: poll_tick_ok change_of_def)
  have "js_date (updated_at j) * 1000 < updated_at j"
    using assms(3) div_mult_mod_eq [of "updated_at j" 1000] pos_mod_sign [of 1000 "updated_at j"]
    unfolding js_date_def by linarith
  from Suc.IH [OF this] here c show ?case by (simp add: split_def Let_def)
qed

text \<open>
  Ticks that overlap lose nothing either. As long as a row that was changed after the cursor stays as it is, then whatever ticks fire
  and in whatever order they are answered, the row has been announced, or the cursor is still before it and every query
  under way that succeeded will announce it. (A late answer can move the cursor back, and rows are then announced again.)
\<close>

definition not_missed :: "job \<Rightarrow> poller \<Rightarrow> bool" where
  "not_missed j s \<longleftrightarrow> event_of (change_of j) \<in> set (pl_announced s)
     \<or> pl_cursor s * 1000 < updated_at j \<and> (\<forall>cs. Inr cs \<in> set (pl_waiting s) \<longrightarrow> change_of j \<in> set cs)"

fun keeps_row :: "job \<Rightarrow> poller_event \<Rightarrow> bool" where
  "keeps_row j (Fires i d) \<longleftrightarrow> j \<in> set (jobs d)"
| "keeps_row j (Answered n) \<longleftrightarrow> True"

lemma tick_query_Inr: "tick_query i c d = Inr cs \<Longrightarrow> cs = getJobChangesSince c d"
  by (auto simp: tick_query_def query_def split: io.splits)

lemma poller_step_keeps:
  assumes "not_missed j s" and "keeps_row j e"
  shows "not_missed j (poller_step e s)"
proof (cases e)
  case (Fires i d)
  with assms show ?thesis by (auto simp: not_missed_def changes_set dest!: tick_query_Inr [OF sym])
next
  case (Answered n)
  show ?thesis
  proof (cases "n < length (pl_waiting s)")
    case True
    then have n: "pl_waiting s ! n \<in> set (pl_waiting s)" by simp
    have sub: "set (take n (pl_waiting s) @ drop (Suc n) (pl_waiting s)) \<subseteq> set (pl_waiting s)"
      by (auto dest: in_set_takeD in_set_dropD)
    show ?thesis
    proof (cases "pl_waiting s ! n")
      case (Inl err)
      with assms(1) True Answered sub show ?thesis by (auto simp: not_missed_def tick_rest_def)
    next
      case (Inr cs)
      with n assms(1) have "event_of (change_of j) \<in> set (pl_announced s) \<or> change_of j \<in> set cs" by (auto simp: not_missed_def)
      with Inr True Answered show ?thesis by (auto simp: not_missed_def tick_rest_def)
    qed
  qed (use assms(1) Answered in simp)
qed

interpretation poller_runs: machine_invariant poller_step "keeps_row j" "not_missed j" for j
  by unfold_locales (rule poller_step_keeps)

lemma overlapping_ticks_complete:
  assumes "c * 1000 < updated_at j" and "list_all (keeps_row j) es"
  shows "not_missed j (fold poller_step es \<lparr>pl_cursor = c, pl_waiting = [], pl_announced = []\<rparr>)"
  by (rule poller_runs.run [OF _ assms(2)]) (use assms(1) in \<open>simp add: not_missed_def\<close>)

end
