(* ===== verification/LiveView.thy ===== *)
theory LiveView
  imports Console LiveUpdates
begin

text \<open>
  The live view: the dashboard's main component (apps/dashboard/src/App.tsx) with the WebSocket hook, the messages
  the API broadcasts to it, and the check of that path (apps/api/scripts/verify-ws.js).

  The component is a machine. Its state variables are a record; a request it has sent and that is not answered
  yet is in \<open>fetching\<close>, and answers come in any order. Rendering is an event of its own (\<open>Render\<close>): it runs the
  effects whose dependencies changed since they last ran. Of the dependencies, \<open>lastEvent\<close> is compared by
  identity: \<open>av_events\<close> counts the events the hook has accepted.
\<close>

section \<open>What is broadcast\<close>

text \<open>\<open>JSON.stringify(event)\<close>; \<open>date_text\<close> is the text of a \<open>Date\<close>.\<close>

definition event_json :: "(int \<Rightarrow> string) \<Rightarrow> job_updated_event \<Rightarrow> json" where
  "event_json date_text ev = JObj [(''type'', JStr ''job.updated''), (''jobId'', JStr (je_jobId ev)),
     (''status'', JStr (status_text (je_status ev))), (''updatedAt'', JStr (date_text (je_updatedAt ev)))]"

lemma event_accepted: "is_job_updated (event_json date_text ev)"
  by (simp add: event_json_def js_get_def)

section \<open>The component\<close>

datatype fetch = F_overview | F_job string

record app_view =
  av_stats :: "json option"
  av_jobs :: "json option"
  selectedJob :: "json option"
  selectedJobId :: "string option"
  av_error :: "string option"
  loading :: bool
  av_lastEvent :: "json option"
  av_events :: nat
  fetching :: "fetch list"
  seen_selected :: "string option"
  seen_event :: nat
  seen_event_for :: "string option"

text \<open>\<open>refreshOverview\<close> and \<open>refreshSelectedJob\<close> up to their \<open>await\<close>.\<close>

definition refreshOverview :: "app_view \<Rightarrow> app_view" where
  "refreshOverview v = v\<lparr>fetching := fetching v @ [F_overview]\<rparr>"

definition refreshSelectedJob :: "string \<Rightarrow> app_view \<Rightarrow> app_view" where
  "refreshSelectedJob i v = v\<lparr>fetching := fetching v @ [F_job i]\<rparr>"

text \<open>
  Their rest, once answered. A body of the job list that is \<open>null\<close> has no \<open>jobs\<close>, which throws after the
  statistics have been set.
\<close>

definition overview_answered :: "client_error + json \<Rightarrow> client_error + json \<Rightarrow> app_view \<Rightarrow> app_view" where
  "overview_answered st jl v =
     (let failed = Some ''Unable to load dashboard data. Retrying...'' in
      case (st, jl) of
        (Inr s, Inr JNull) \<Rightarrow> v\<lparr>av_stats := Some s, av_error := failed, loading := False\<rparr>
      | (Inr s, Inr (JObj ps)) \<Rightarrow> v\<lparr>av_stats := Some s, av_jobs := js_get ''jobs'' ps, av_error := None, loading := False\<rparr>
      | (Inr s, Inr _) \<Rightarrow> v\<lparr>av_stats := Some s, av_jobs := None, av_error := None, loading := False\<rparr>
      | _ \<Rightarrow> v\<lparr>av_error := failed, loading := False\<rparr>)"

definition job_answered :: "client_error + json \<Rightarrow> app_view \<Rightarrow> app_view" where
  "job_answered r v = (case r of
      Inr job \<Rightarrow> v\<lparr>selectedJob := Some job\<rparr>
    | Inl (ApiError st b) \<Rightarrow> (if st = 404 then v\<lparr>selectedJob := None, selectedJobId := None\<rparr> else v)
    | Inl (Other_error e) \<Rightarrow> v)"

text \<open>The effects that run in a render, in the order of the source.\<close>

definition event_names :: "json option \<Rightarrow> string \<Rightarrow> bool" where
  "event_names ev i = (case ev of Some (JObj ps) \<Rightarrow> js_get ''jobId'' ps = Some (JStr i) | _ \<Rightarrow> False)"

definition selected_effect :: "app_view \<Rightarrow> app_view" where
  "selected_effect v =
     (if selectedJobId v = seen_selected v then v
      else (let v1 = v\<lparr>seen_selected := selectedJobId v\<rparr> in
            if truthy (selectedJobId v) then refreshSelectedJob (the (selectedJobId v)) v1 else v1))"

definition event_effect :: "app_view \<Rightarrow> app_view" where
  "event_effect v =
     (if av_events v = seen_event v \<and> selectedJobId v = seen_event_for v then v
      else (let v1 = v\<lparr>seen_event := av_events v, seen_event_for := selectedJobId v\<rparr> in
            if av_lastEvent v = None then v1
            else (let v2 = refreshOverview v1 in
                  if truthy (selectedJobId v) \<and> event_names (av_lastEvent v) (the (selectedJobId v))
                  then refreshSelectedJob (the (selectedJobId v)) v2 else v2)))"

definition render :: "app_view \<Rightarrow> app_view" where
  "render v = event_effect (selected_effect v)"

definition handleSelect :: "string \<Rightarrow> app_view \<Rightarrow> app_view" where
  "handleSelect i v = v\<lparr>selectedJobId := Some i\<rparr>"

definition handleBack :: "app_view \<Rightarrow> app_view" where
  "handleBack v = v\<lparr>selectedJobId := None, selectedJob := None\<rparr>"

text \<open>The first render: its effects find no selection and no event, and load the overview.\<close>

definition app_mounted :: app_view where
  "app_mounted = refreshOverview \<lparr>av_stats = None, av_jobs = Some (JArr []), selectedJob = None, selectedJobId = None, av_error = None,
     loading = True, av_lastEvent = None, av_events = 0, fetching = [], seen_selected = None, seen_event = 0, seen_event_for = None\<rparr>"

datatype app_event = Message wire | Render | Interval | Select string | Back | Replayed
  | Overview_answer nat "client_error + json" "client_error + json" | Job_answer nat "client_error + json"

definition without :: "nat \<Rightarrow> 'a list \<Rightarrow> 'a list" where
  "without i xs = take i xs @ drop (Suc i) xs"

fun app_step :: "app_event \<Rightarrow> app_view \<Rightarrow> app_view" where
  "app_step (Message m) v = (case JSON_parse m of
      None \<Rightarrow> v
    | Some parsed \<Rightarrow> (if is_job_updated parsed then v\<lparr>av_lastEvent := Some parsed, av_events := av_events v + 1\<rparr> else v))"
| "app_step Render v = render v"
| "app_step Interval v = refreshOverview v"
| "app_step (Select i) v = handleSelect i v"
| "app_step Back v = handleBack v"
| "app_step Replayed v = (case selectedJobId v of None \<Rightarrow> v | Some i \<Rightarrow> refreshSelectedJob i v)"
| "app_step (Overview_answer n st jl) v =
     (if n < length (fetching v) \<and> fetching v ! n = F_overview
      then overview_answered st jl (v\<lparr>fetching := without n (fetching v)\<rparr>) else v)"
| "app_step (Job_answer n r) v =
     (if n < length (fetching v) \<and> fetching v ! n \<noteq> F_overview
      then job_answered r (v\<lparr>fetching := without n (fetching v)\<rparr>) else v)"

definition app_run :: "app_event list \<Rightarrow> app_view \<Rightarrow> app_view" where
  "app_run evs v = fold app_step evs v"

section \<open>The check of the WebSocket path\<close>

text \<open>\<open>body && body.jobId\<close>, for a parsed body; \<open>None\<close> where the result is not a value that counts as true.\<close>

definition extractJobId :: "json \<Rightarrow> json option" where
  "extractJobId body = (case body of JObj ps \<Rightarrow> js_get ''jobId'' ps | _ \<Rightarrow> None)"

definition js_truthy :: "json option \<Rightarrow> bool" where
  "js_truthy v = (case v of
      None \<Rightarrow> False | Some JNull \<Rightarrow> False | Some (JBool b) \<Rightarrow> b | Some (JNum q) \<Rightarrow> q \<noteq> 0 | Some (JStr s) \<Rightarrow> s \<noteq> [] | Some _ \<Rightarrow> True)"

definition completed_event :: "json \<Rightarrow> json \<Rightarrow> bool" where
  "completed_event jobId m = (case m of
      JObj ps \<Rightarrow> js_get ''type'' ps = Some (JStr ''job.updated'') \<and> js_get ''jobId'' ps = Some jobId
        \<and> js_get ''status'' ps = Some (JStr ''COMPLETED'')
    | _ \<Rightarrow> False)"

text \<open>
  \<open>main\<close> of verify-ws.js: whether the socket opens, the answer to the creation, and the messages that arrive before the
  deadline; those that are no JSON are dropped. A message \<open>null\<close> makes \<open>find\<close> or \<open>filter\<close> throw, which exits with 1 as
  well. The result is the exit code.
\<close>

definition verify_ws :: "bool \<Rightarrow> fetched \<Rightarrow> wire list \<Rightarrow> int" where
  "verify_ws opened created arrived =
     (if \<not> opened then 1
      else (case request created of
          Inl _ \<Rightarrow> 1
        | Inr body \<Rightarrow> (let jobId = extractJobId body; messages = List.map_filter JSON_parse arrived in
            if \<not> js_truthy jobId then 1
            else if JNull \<in> set messages then 1
            else if list_ex (completed_event (the jobId)) messages then 0 else 1)))"

text \<open>The module: the address of the socket, and the key without which nothing is done. \<open>opens\<close> says which addresses a socket opens to.\<close>

definition ws_url :: "string option \<Rightarrow> string" where
  "ws_url dashboardUrl = (let d = strip_slash (env_or dashboardUrl ''http://localhost:8080'') in
     (if take 4 d = ''http'' then ''ws'' @ drop 4 d else d) @ ''/ws'')"

definition verify_ws_module :: "string option \<Rightarrow> string option \<Rightarrow> (string \<Rightarrow> bool) \<Rightarrow> fetched \<Rightarrow> wire list \<Rightarrow> int" where
  "verify_ws_module apiKey dashboardUrl opens created arrived =
     (if \<not> truthy apiKey then 1 else verify_ws (opens (ws_url dashboardUrl)) created arrived)"

section \<open>A change reaches the screen\<close>

text \<open>
  The messages of a tick as the component gets them. React renders when it comes to it: the messages that arrive before it does
  are rendered together, so the messages come in batches, each followed by one render.
\<close>

definition shown_in_batches :: "(int \<Rightarrow> string) \<Rightarrow> job_updated_event list list \<Rightarrow> app_event list" where
  "shown_in_batches date_text gs = concat (map (\<lambda>g. map (\<lambda>ev. Message (JSON_stringify (event_json date_text ev))) g @ [Render]) gs)"

text \<open>What a batch has to make the component request, for the selection \<open>sel\<close>: the overview, and the selected job if the last
  message of the batch names it.\<close>

definition batch_requests :: "string option \<Rightarrow> job_updated_event list \<Rightarrow> fetch list" where
  "batch_requests sel g = F_overview # (case sel of
      None \<Rightarrow> []
    | Some i \<Rightarrow> if i \<noteq> [] \<and> je_jobId (last g) = i then [F_job i] else [])"

lemma app_run_append: "app_run (xs @ ys) v = app_run ys (app_run xs v)"
  by (simp add: app_run_def)

lemma messages_accepted:
  assumes "g \<noteq> []"
  shows "app_run (map (\<lambda>ev. Message (JSON_stringify (event_json date_text ev))) g) v
     = v\<lparr>av_lastEvent := Some (event_json date_text (last g)), av_events := av_events v + length g\<rparr>"
  using assms
proof (induction g arbitrary: v rule: list_nonempty_induct)
  case (single ev)
  then show ?case using event_accepted [of date_text ev] by (simp add: app_run_def JSON_roundtrip)
next
  case (cons ev g)
  then show ?case using event_accepted [of date_text ev] by (simp add: app_run_def JSON_roundtrip)
qed

lemma event_names_event: "event_names (Some (event_json date_text ev)) i \<longleftrightarrow> je_jobId ev = i"
  by (simp add: event_names_def event_json_def js_get_def)

lemma event_effect_event:
  assumes "av_events w \<noteq> seen_event w" "av_lastEvent w = Some (event_json date_text ev)"
  shows "event_effect w = w\<lparr>seen_event := av_events w, seen_event_for := selectedJobId w,
    fetching := fetching w @ F_overview # (case selectedJobId w of None \<Rightarrow> [] | Some i \<Rightarrow> if i \<noteq> [] \<and> je_jobId ev = i then [F_job i] else [])\<rparr>"
proof -
  have e: "event_names (av_lastEvent w) i \<longleftrightarrow> je_jobId ev = i" for i using assms(2) by (simp add: event_names_event)
  have n: "av_lastEvent w \<noteq> None" "\<not> (av_events w = seen_event w \<and> selectedJobId w = seen_event_for w)" using assms by auto
  show ?thesis
  proof (cases "selectedJobId w")
    case None
    then show ?thesis unfolding event_effect_def Let_def if_not_P [OF n(2)] using n(1)
      by (simp add: refreshOverview_def truthy_def)
  next
    case (Some i)
    then show ?thesis unfolding event_effect_def Let_def if_not_P [OF n(2)] using n(1)
      by (simp add: refreshOverview_def refreshSelectedJob_def truthy_def e)
  qed
qed

lemma render_after_messages:
  assumes "av_events w \<noteq> seen_event w" "av_lastEvent w = Some (event_json date_text ev)" "seen_selected w = selectedJobId w"
  shows "render w = w\<lparr>seen_event := av_events w, seen_event_for := selectedJobId w,
    fetching := fetching w @ F_overview # (case selectedJobId w of None \<Rightarrow> [] | Some i \<Rightarrow> if i \<noteq> [] \<and> je_jobId ev = i then [F_job i] else [])\<rparr>"
  using event_effect_event [OF assms(1,2)] assms(3) by (simp add: render_def selected_effect_def)

lemma batch_shown:
  assumes "g \<noteq> []" "seen_event v = av_events v" "seen_selected v = selectedJobId v"
  shows "let v' = app_run (shown_in_batches date_text [g]) v in
    fetching v' = fetching v @ batch_requests (selectedJobId v) g \<and> selectedJobId v' = selectedJobId v
    \<and> seen_event v' = av_events v' \<and> seen_selected v' = selectedJobId v'"
proof -
  let ?w = "v\<lparr>av_lastEvent := Some (event_json date_text (last g)), av_events := av_events v + length g\<rparr>"
  have "app_run (shown_in_batches date_text [g]) v = render ?w"
    by (simp add: shown_in_batches_def app_run_append messages_accepted [OF assms(1)]) (simp add: app_run_def)
  moreover have "render ?w = ?w\<lparr>seen_event := av_events ?w, seen_event_for := selectedJobId ?w,
      fetching := fetching ?w @ batch_requests (selectedJobId ?w) g\<rparr>"
    unfolding batch_requests_def using render_after_messages [of ?w date_text "last g"] assms by simp
  ultimately show ?thesis using assms(3) by (simp add: Let_def)
qed

lemma batches_shown:
  assumes "[] \<notin> set gs" "seen_event v = av_events v" "seen_selected v = selectedJobId v"
  shows "fetching (app_run (shown_in_batches date_text gs) v) = fetching v @ concat (map (batch_requests (selectedJobId v)) gs)
     \<and> selectedJobId (app_run (shown_in_batches date_text gs) v) = selectedJobId v"
  using assms
proof (induction gs arbitrary: v)
  case Nil
  then show ?case by (simp add: app_run_def shown_in_batches_def)
next
  case (Cons g gs)
  let ?v = "app_run (shown_in_batches date_text [g]) v"
  have "shown_in_batches date_text (g # gs) = shown_in_batches date_text [g] @ shown_in_batches date_text gs"
    by (simp add: shown_in_batches_def)
  then have c: "app_run (shown_in_batches date_text (g # gs)) v = app_run (shown_in_batches date_text gs) ?v"
    by (simp only: app_run_append)
  have b: "fetching ?v = fetching v @ batch_requests (selectedJobId v) g" "selectedJobId ?v = selectedJobId v"
    "seen_event ?v = av_events ?v" "seen_selected ?v = selectedJobId ?v"
    using batch_shown [of g v date_text] Cons.prems unfolding Let_def by auto
  have "[] \<notin> set gs" using Cons.prems(1) by simp
  from Cons.IH [OF this b(3,4)] show ?case unfolding c b(1,2) by simp
qed

lemma changed_announced:
  assumes "poll_tick Io_ok cursor d = (evs, cursor')" "j \<in> set (jobs d)" "cursor * 1000 < updated_at j"
  shows "\<exists>ev \<in> set evs. je_jobId ev = jid j \<and> je_status ev = status j"
proof -
  have "event_of (change_of j) \<in> set evs" using assms by (auto simp: poll_tick_ok changes_set image_image)
  then show ?thesis by (force simp: event_of_def change_of_def)
qed

lemma get_job_found:
  assumes "parse_id (rq_id r) = Some i" "uin (Some (JStr i)) = Inr (Some i)" "aa_lookup a = Io_ok" "find_job d i = Some j"
  shows "get_job e uin parse_id show_job a r d = Response 200 None (show_job j)"
  using assms by (simp add: get_job_def api_getJobById_def find_job_first)

section \<open>Properties\<close>

text \<open>C27. A change reaches the screen, from the table to the component. The next tick of the poller after a change of a job broadcasts
  its status to every open client. However the messages that a dashboard gets are batched into renders, each batch makes it request the
  overview, whatever is selected and whatever job the messages are about, and the selected job exactly if the last message of the
  batch names it, so at any rate if every message is rendered on its own; nothing else is requested. When the answers come in, it
  shows the statistics, the recent jobs and the row as the database has them at that time, not what the message said.\<close>

theorem change_reaches_screen:
  assumes "poll_tick Io_ok cursor d = (evs, cursor')" and "j \<in> set (jobs d)" and "cursor * 1000 < updated_at j"
    and "distinct (map fst clients)" and "(c, OPEN) \<in> set clients"
    and "seen_event v = av_events v" and "seen_selected v = selectedJobId v"
    and "concat gs = map snd (filter (\<lambda>m. fst m = c) (tick_sends clients evs))" and "[] \<notin> set gs"
    and v1: "v1 = app_run (shown_in_batches date_text gs) v"
    and "parse_id (rq_id r) = Some i" and "uin (Some (JStr i)) = Inr (Some i)" and "aa_lookup a = Io_ok" and "aa_stats a = Io_ok"
  shows "(\<exists>g \<in> set gs. \<exists>ev \<in> set g. je_jobId ev = jid j \<and> je_status ev = status j)
     \<and> fetching v1 = fetching v @ concat (map (batch_requests (selectedJobId v)) gs)
     \<and> F_overview \<in> set (drop (length (fetching v)) (fetching v1))
     \<and> (selectedJobId v = Some (jid j) \<longrightarrow> jid j \<noteq> [] \<longrightarrow> (\<forall>g \<in> set gs. length g = 1) \<longrightarrow>
         F_job (jid j) \<in> set (drop (length (fetching v)) (fetching v1)))
     \<and> (\<forall>n < length (fetching v1). case fetching v1 ! n of
          F_overview \<Rightarrow> (let v2 = app_step (Overview_answer n (request (fetched_of (get_stats e a d2)))
                (request (fetched_of (get_jobs e show_recent a d3)))) v1
              in av_stats v2 = Some (stats_json (getStats d2)) \<and> av_jobs v2 = Some (JArr (map show_recent (listRecentJobs d3)))
                \<and> av_error v2 = None)
        | F_job i' \<Rightarrow> i' = i \<longrightarrow> (\<forall>j2. find_job d2 i = Some j2 \<longrightarrow>
              selectedJob (app_step (Job_answer n (request (fetched_of (get_job e uin parse_id show_job a r d2)))) v1) = Some (show_job j2)))"
proof -
  obtain ev where ev: "ev \<in> set evs" "je_jobId ev = jid j" "je_status ev = status j"
    using changed_announced [OF assms(1-3)] by blast
  have "concat gs = evs" using tick_client [OF assms(4,5)] assms(8) by simp
  with ev obtain g where g: "g \<in> set gs" "ev \<in> set g" by (metis UN_E set_concat)
  have f: "fetching v1 = fetching v @ concat (map (batch_requests (selectedJobId v)) gs)"
    using batches_shown [OF assms(9,6,7)] v1 by blast
  have o: "F_overview \<in> set (drop (length (fetching v)) (fetching v1))"
    using g(1) by (force simp: f batch_requests_def)
  have jb: "F_job (jid j) \<in> set (drop (length (fetching v)) (fetching v1))"
    if "selectedJobId v = Some (jid j)" "jid j \<noteq> []" "\<forall>g \<in> set gs. length g = 1"
  proof -
    have "last g = ev" using that(3) g by (auto simp: length_Suc_conv)
    with that(1,2) ev(2) have "F_job (jid j) \<in> set (batch_requests (selectedJobId v) g)" by (simp add: batch_requests_def)
    with g(1) show ?thesis unfolding f by auto
  qed
  have an: "get_job e uin parse_id show_job a r d2 = Response 200 None (show_job j2)" if "find_job d2 i = Some j2" for j2
    using get_job_found [where uin = uin and parse_id = parse_id, OF assms(11-13) that] .
  have ans: "case fetching v1 ! n of
      F_overview \<Rightarrow> (let v2 = app_step (Overview_answer n (request (fetched_of (get_stats e a d2)))
            (request (fetched_of (get_jobs e show_recent a d3)))) v1
          in av_stats v2 = Some (stats_json (getStats d2)) \<and> av_jobs v2 = Some (JArr (map show_recent (listRecentJobs d3)))
            \<and> av_error v2 = None)
    | F_job i' \<Rightarrow> i' = i \<longrightarrow> (\<forall>j2. find_job d2 i = Some j2 \<longrightarrow>
          selectedJob (app_step (Job_answer n (request (fetched_of (get_job e uin parse_id show_job a r d2)))) v1) = Some (show_job j2))"
    if n: "n < length (fetching v1)" for n
    using n assms(13,14)
    by (cases "fetching v1 ! n")
      (auto simp: an fetched_of_def request_def job_answered_def overview_answered_def get_stats_def get_jobs_def js_get_def Let_def)
  show ?thesis using ev g f o jb ans by blast
qed

text \<open>Two notifications in one render: the dashboard requests the overview and shows \<open>j1\<close>, selected, as it was.\<close>

lemma batched_notification_missed:
  "fetching (app_run (shown_in_batches date_text [[\<lparr>je_jobId = ''j1'', je_status = COMPLETED, je_updatedAt = t\<rparr>, \<lparr>je_jobId = ''j2'', je_status = QUEUED, je_updatedAt = t\<rparr>]])
     (app_mounted\<lparr>selectedJobId := Some ''j1'', seen_selected := Some ''j1''\<rparr>)) = [F_overview, F_overview]"
  using batches_shown [of "[[\<lparr>je_jobId = ''j1'', je_status = COMPLETED, je_updatedAt = t\<rparr>, \<lparr>je_jobId = ''j2'', je_status = QUEUED, je_updatedAt = t\<rparr>]]"
      "app_mounted\<lparr>selectedJobId := Some ''j1'', seen_selected := Some ''j1''\<rparr>" date_text]
  by (simp add: app_mounted_def refreshOverview_def batch_requests_def)

theorem change_reaches_screen_witness:
  "let j = (sample_job COMPLETED 1 [])\<lparr>updated_at := 5123\<rparr>;
       v = (app_mounted\<lparr>selectedJobId := Some ''j1'', seen_selected := Some ''j1''\<rparr>);
       evs = fst (poll_tick Io_ok 0 (sample_db j));
       v1 = app_run (shown_in_batches (\<lambda>_. []) (map (\<lambda>m. [m]) (map snd (filter (\<lambda>m. fst m = 7) (tick_sends [(7, OPEN)] evs))))) v
   in {F_overview, F_job ''j1''} \<subseteq> set (drop 1 (fetching v1))"
proof -
  let ?j = "(sample_job COMPLETED 1 [])\<lparr>updated_at := 5123\<rparr>"
  let ?v = "app_mounted\<lparr>selectedJobId := Some ''j1'', seen_selected := Some ''j1''\<rparr>"
  obtain evs cursor' where p: "poll_tick Io_ok 0 (sample_db ?j) = (evs, cursor')" by fastforce
  let ?ms = "map snd (filter (\<lambda>m. fst m = 7) (tick_sends [(7, OPEN)] evs))"
  let ?gs = "map (\<lambda>m. [m]) ?ms"
  let ?v1 = "app_run (shown_in_batches (\<lambda>_. []) ?gs) ?v"
  have h: "?j \<in> set (jobs (sample_db ?j))" "0 * 1000 < updated_at ?j" "distinct (map fst [(7::nat, OPEN)])" "(7::nat, OPEN) \<in> set [(7, OPEN)]"
    "seen_event ?v = av_events ?v" "seen_selected ?v = selectedJobId ?v" "concat ?gs = ?ms" "[] \<notin> set ?gs"
    "Some (rq_id (sample_request ''k'')) = Some ''j1''" "plain_uin (Some (JStr ''j1'')) = Inr (Some ''j1'')"
    "aa_lookup sample_awaits = Io_ok" "aa_stats sample_awaits = Io_ok"
    by (simp_all add: sample_db_def app_mounted_def refreshOverview_def sample_request_def sample_awaits_def image_iff concat_map_singleton del: map_map)
  have l: "\<forall>g \<in> set ?gs. length g = 1" "selectedJobId ?v = Some (jid ?j)" "jid ?j \<noteq> []" "length (fetching ?v) = 1"
    by (auto simp: app_mounted_def refreshOverview_def)
  note c = change_reaches_screen [where ?v1.0 = ?v1 and date_text = "\<lambda>_. []" and parse_id = Some and uin = plain_uin and r = "sample_request ''k''" and i = "''j1''" and a = sample_awaits,
      OF p h(1-8) refl h(9-12), of sample_env "sample_db ?j" "\<lambda>_. JNull" "sample_db ?j" "\<lambda>_. JNull"]
  have "F_overview \<in> set (drop 1 (fetching ?v1))" "F_job ''j1'' \<in> set (drop 1 (fetching ?v1))"
    using c [THEN conjunct2, THEN conjunct2, THEN conjunct1]
      c [THEN conjunct2, THEN conjunct2, THEN conjunct2, THEN conjunct1, rule_format, OF l(2,3)] l(1,4) by simp_all
  then show ?thesis using p by simp
qed

section \<open>What the detail view can miss\<close>

text \<open>The events of a dashboard whose user only watches: renders, the refresh interval, and answers to its overview requests.\<close>

fun watching :: "app_event \<Rightarrow> bool" where
  "watching Render \<longleftrightarrow> True"
| "watching Interval \<longleftrightarrow> True"
| "watching (Overview_answer n st jl) \<longleftrightarrow> True"
| "watching _ \<longleftrightarrow> False"

definition detail_settled :: "app_view \<Rightarrow> bool" where
  "detail_settled v \<longleftrightarrow> (\<forall>i. F_job i \<notin> set (fetching v)) \<and> seen_selected v = selectedJobId v
     \<and> seen_event v = av_events v \<and> seen_event_for v = selectedJobId v"

lemma set_without: "set (without n xs) \<subseteq> set xs"
  by (auto simp: without_def dest: in_set_takeD in_set_dropD)

lemma overview_answered_frame [simp]:
  "fetching (overview_answered st jl w) = fetching w" "selectedJob (overview_answered st jl w) = selectedJob w"
  "selectedJobId (overview_answered st jl w) = selectedJobId w" "seen_selected (overview_answered st jl w) = seen_selected w"
  "seen_event (overview_answered st jl w) = seen_event w" "seen_event_for (overview_answered st jl w) = seen_event_for w"
  "av_events (overview_answered st jl w) = av_events w"
  by (simp_all add: overview_answered_def Let_def split: sum.split json.split)

lemma watching_step:
  assumes "watching e" "detail_settled v"
  shows "detail_settled (app_step e v) \<and> selectedJob (app_step e v) = selectedJob v \<and> selectedJobId (app_step e v) = selectedJobId v"
proof (cases e)
  case (Overview_answer n st jl)
  with assms(2) set_without show ?thesis by (fastforce simp: detail_settled_def)
qed (use assms in \<open>auto simp: detail_settled_def render_def selected_effect_def event_effect_def refreshOverview_def\<close>)

interpretation detail_kept: machine_invariant app_step watching "\<lambda>v. detail_settled v \<and> selectedJob v = x" for x
  by unfold_locales (use watching_step in blast)

text \<open>The detail view depends on the notifications it is said not to depend on. Once its requests are answered, the periodic refresh
  goes on for ever without asking for the selected job again, whatever happens to it: a missed notification leaves the detail
  stale for good. And an answer is shown whatever has been selected meanwhile: after selecting a job, going back and selecting
  another, the late answer for the first replaces the detail of the second.\<close>

lemma detail_can_be_stale:
  "(list_all watching es \<longrightarrow> detail_settled v \<longrightarrow>
      selectedJob (app_run es v) = selectedJob v \<and> (\<forall>i. F_job i \<notin> set (fetching (app_run es v))))
   \<and> (let v0 = app_run [Select ''a'', Render, Back, Render, Select ''b'', Render] app_mounted;
          v1 = app_run [Job_answer 2 (Inr detail_b), Job_answer 1 (Inr detail_a)] v0
      in fetching v0 = [F_overview, F_job ''a'', F_job ''b''] \<and> selectedJobId v1 = Some ''b'' \<and> selectedJob v1 = Some detail_a
         \<and> detail_settled v1)"
proof (intro conjI impI)
  show "selectedJob (app_run es v) = selectedJob v" "\<forall>i. F_job i \<notin> set (fetching (app_run es v))"
    if "list_all watching es" "detail_settled v"
    using detail_kept.run [of v "selectedJob v" es] that by (simp_all add: app_run_def detail_settled_def)
qed (simp add: app_run_def app_mounted_def refreshOverview_def handleSelect_def handleBack_def render_def selected_effect_def
    event_effect_def refreshSelectedJob_def truthy_def job_answered_def without_def detail_settled_def)

lemma parsed_messages: "v \<in> set (List.map_filter JSON_parse ms) \<longleftrightarrow> (\<exists>m \<in> set ms. JSON_parse m = Some v)"
  by (induction ms) (auto simp: List.map_filter_def split: option.splits)

lemma parsed_null: "JSON_parse m = Some JNull \<longleftrightarrow> m = Json_text JNull"
  by (cases m) (auto simp: JSON_parse_def)

text \<open>The check of the WebSocket path checks the right thing. For a job that the creation route accepted, it exits with 0 exactly if
  a notification arrived in time that this very job is \<open>COMPLETED\<close> (and no \<open>null\<close> among the messages), and what the poller
  broadcasts for the completed job is such a notification; after any other answer of the route it exits with 1.\<close>

lemma ws_check_sound:
  assumes "post_jobs e parse_create a r s = (resp, s')"
  shows "(resp_status resp = 201 \<longrightarrow> aa_new_id a \<noteq> [] \<longrightarrow>
        (verify_ws True (fetched_of resp) arrived = 0 \<longleftrightarrow> Json_text JNull \<notin> set arrived
           \<and> (\<exists>m \<in> set arrived. \<exists>v. JSON_parse m = Some v \<and> completed_event (JStr (aa_new_id a)) v)))
     \<and> (resp_status resp \<noteq> 201 \<longrightarrow> verify_ws True (fetched_of resp) arrived = 1)
     \<and> (completed_event (JStr (aa_new_id a)) (event_json date_text ev) \<longleftrightarrow> je_jobId ev = aa_new_id a \<and> je_status ev = COMPLETED)"
proof (intro conjI impI)
  have st: "resp_status resp \<in> {201, 400, 401, 429, 500, 503}"
    and body: "resp_status resp = 201 \<Longrightarrow> resp_body resp = JObj [(''jobId'', JStr (aa_new_id a)), (''status'', JStr ''QUEUED'')]"
    using post_jobs_answers [OF assms] by auto
  show "verify_ws True (fetched_of resp) arrived = 1" if "resp_status resp \<noteq> 201"
    using st that by (auto simp: verify_ws_def request_def fetched_of_def)
  show "completed_event (JStr (aa_new_id a)) (event_json date_text ev) \<longleftrightarrow> je_jobId ev = aa_new_id a \<and> je_status ev = COMPLETED"
    by (cases "je_status ev") (auto simp: completed_event_def event_json_def js_get_def)
  assume c: "resp_status resp = 201" and i: "aa_new_id a \<noteq> []"
  have n: "JNull \<in> set (List.map_filter JSON_parse arrived) \<longleftrightarrow> Json_text JNull \<in> set arrived"
    by (simp add: parsed_messages parsed_null)
  have x: "list_ex P (List.map_filter JSON_parse arrived) \<longleftrightarrow> (\<exists>m \<in> set arrived. \<exists>v. JSON_parse m = Some v \<and> P v)" for P
    unfolding list_ex_iff Bex_def parsed_messages by blast
  show "verify_ws True (fetched_of resp) arrived = 0 \<longleftrightarrow> Json_text JNull \<notin> set arrived
           \<and> (\<exists>m \<in> set arrived. \<exists>v. JSON_parse m = Some v \<and> completed_event (JStr (aa_new_id a)) v)"
    using c body i by (simp add: verify_ws_def request_def fetched_of_def extractJobId_def js_get_def js_truthy_def n x Let_def)
qed

text \<open>The module passes only with a key, over a socket that opened at the address of the dashboard.\<close>

lemma ws_module_passes:
  "verify_ws_module key url opens created arrived = 0 \<longleftrightarrow> truthy key \<and> opens (ws_url url) \<and> verify_ws True created arrived = 0"
  "ws_url None = ''ws://localhost:8080/ws''" "ws_url (Some ''https://host/'') = ''wss://host/ws''"
  by (simp_all add: verify_ws_module_def verify_ws_def ws_url_def env_or_def truthy_def strip_slash_def)

end
