(* ===== verification/Views.thy ===== *)
theory Views
  imports LiveView Doubles
begin

text \<open>
  What the dashboard shows: the components Overview, JobList, StatusBadge and JobDetail of
  apps/dashboard/src/components, as functions from their properties to the texts, numbers and conditional
  sections they render. Markup and style names are left out; \<open>locale_text\<close> stands for the browser's rendering of a
  date. Numbers are JavaScript's doubles: a quotient and a product are rounded (theory \<open>Doubles\<close>).
\<close>

section \<open>Badges and bars\<close>

definition STATUS_COLORS :: "(string \<times> string) list" where
  "STATUS_COLORS = [(''QUEUED'', ''#6b7280''), (''PROCESSING'', ''#2563eb''), (''RETRYING'', ''#d97706''),
     (''COMPLETED'', ''#16a34a''), (''DEAD_LETTERED'', ''#dc2626''), (''FAILED'', ''#991b1b'')]"

definition StatusBadge :: "string \<Rightarrow> string \<times> string" where
  "StatusBadge st = (case map_of STATUS_COLORS st of None \<Rightarrow> ''#6b7280'' | Some c \<Rightarrow> c, st)"

definition STATUS_ORDER :: "string list" where
  "STATUS_ORDER = [''QUEUED'', ''PROCESSING'', ''RETRYING'', ''COMPLETED'', ''DEAD_LETTERED'', ''FAILED'']"

text \<open>The interface \<open>Stats\<close> of the client, read off the body of the statistics route.\<close>

record stats_view =
  sv_totalJobs :: rat
  sv_byStatus :: "(string \<times> rat) list"
  sv_totalReplays :: rat
  sv_totalAttempts :: rat
  sv_pendingOutboxEvents :: rat

fun js_number :: "json option \<Rightarrow> rat" where
  "js_number (Some (JNum x)) = x"
| "js_number _ = 0"

fun js_numbers :: "json option \<Rightarrow> (string \<times> rat) list" where
  "js_numbers (Some (JObj ps)) = map (\<lambda>p. (fst p, js_number (Some (snd p)))) ps"
| "js_numbers _ = []"

fun stats_of :: "json \<Rightarrow> stats_view" where
  "stats_of (JObj ps) = \<lparr>sv_totalJobs = js_number (js_get ''totalJobs'' ps), sv_byStatus = js_numbers (js_get ''byStatus'' ps),
     sv_totalReplays = js_number (js_get ''totalReplays'' ps), sv_totalAttempts = js_number (js_get ''totalAttempts'' ps),
     sv_pendingOutboxEvents = js_number (js_get ''pendingOutboxEvents'' ps)\<rparr>"
| "stats_of _ = \<lparr>sv_totalJobs = 0, sv_byStatus = [], sv_totalReplays = 0, sv_totalAttempts = 0, sv_pendingOutboxEvents = 0\<rparr>"

text \<open>The cards, and a row with its count and the width of its bar in percent for every status.\<close>

definition maxCount :: "stats_view \<Rightarrow> rat" where
  "maxCount st = fold max (map snd (sv_byStatus st)) 1"

definition status_row :: "stats_view \<Rightarrow> string \<Rightarrow> string \<times> rat \<times> rat" where
  "status_row st x = (let count = (case map_of (sv_byStatus st) x of None \<Rightarrow> 0 | Some n \<Rightarrow> n) in
     (x, count, fl (fl (count / maxCount st) * 100)))"

definition Overview :: "stats_view \<Rightarrow> (string \<times> rat) list \<times> (string \<times> rat \<times> rat) list" where
  "Overview st = ([(''Total Jobs'', sv_totalJobs st), (''Total Replays'', sv_totalReplays st), (''Total Attempts'', sv_totalAttempts st),
     (''Pending Outbox Events'', sv_pendingOutboxEvents st)], map (status_row st) STATUS_ORDER)"

section \<open>The list and the detail\<close>

text \<open>\<open>None\<close> is the text for an empty list.\<close>

definition JobList :: "(timestamp \<Rightarrow> string) \<Rightarrow> recent_job list \<Rightarrow> (uuid \<times> string list) list option" where
  "JobList locale_text js = (if js = [] then None
     else Some (map (\<lambda>j. (rj_id j, [take 8 (rj_id j) @ ''...'', rj_type j, snd (StatusBadge (status_text (rj_status j))),
       int_text (rj_attempt_count j) @ ''/'' @ int_text (rj_max_attempts j), locale_text (rj_created_at j), locale_text (rj_updated_at j)])) js))"

record detail_view =
  dv_title :: string
  dv_fields :: "(string \<times> string) list"
  dv_lifetime :: "(string \<times> string) list"
  dv_dead_letter :: "(string \<times> string) list option"
  dv_replay :: bool

definition JobDetail :: "(timestamp \<Rightarrow> string) \<Rightarrow> job \<Rightarrow> detail_view" where
  "JobDetail locale_text j =
     (let isDeadLettered = (status j = DEAD_LETTERED); or_na = case_option ''N/A'' id in
      \<lparr>dv_title = ''Job '' @ jid j,
       dv_fields = [(''Type'', jtype j), (''Attempt Count (current cycle)'', int_text (attempt_count j) @ '' / '' @ int_text (max_attempts j)),
         (''Created'', locale_text (created_at j)), (''Updated'', locale_text (updated_at j))],
       dv_lifetime = [(''Total Attempts (all replay cycles)'', int_text (total_attempt_count j)),
         (''Replay Count'', int_text (replay_count j))],
       dv_dead_letter = (if last_dead_lettered_at j \<noteq> None \<or> status j = DEAD_LETTERED
         then Some [(''Last Dead-Lettered At'', or_na (map_option locale_text (last_dead_lettered_at j))),
                    (''Last Dead-Letter Reason'', or_na (last_dead_letter_reason j)), (''Last Error'', or_na (last_error j))]
         else None),
       dv_replay = isDeadLettered\<rparr>)"

section \<open>The page\<close>

text \<open>What the main component shows for a state: the indicator of the connection, the messages, and the sections.\<close>

datatype page_section = Global_error string | Loading_page | Overview_and_list json "json option" | Detail json | Loading_job

definition connection_text :: "connection_state \<Rightarrow> string" where
  "connection_text c = (if c = Open then ''Live'' else if c = Connecting then ''Connecting...'' else ''Offline (REST fallback active)'')"

definition App_sections :: "app_view \<Rightarrow> page_section list" where
  "App_sections v =
     (if truthy (av_error v) then [Global_error (the (av_error v))] else [])
   @ (if loading v then [Loading_page] else [])
   @ (if \<not> loading v \<and> \<not> truthy (selectedJobId v) \<and> js_truthy (av_stats v)
      then [Overview_and_list (the (av_stats v)) (av_jobs v)] else [])
   @ (if truthy (selectedJobId v) \<and> js_truthy (selectedJob v) then [Detail (the (selectedJob v))] else [])
   @ (if truthy (selectedJobId v) \<and> \<not> js_truthy (selectedJob v) then [Loading_job] else [])"

section \<open>Facts\<close>

text \<open>
  While a job is selected exactly one of the detail and its loading text is shown, and never the overview; otherwise the
  overview is shown as soon as its data have come.
\<close>

lemma page_shows_one:
  "truthy (selectedJobId v) \<Longrightarrow> (Loading_job \<in> set (App_sections v)) \<noteq> (\<exists>j. Detail j \<in> set (App_sections v))"
  "truthy (selectedJobId v) \<Longrightarrow> Overview_and_list st js \<notin> set (App_sections v)"
  "\<not> truthy (selectedJobId v) \<Longrightarrow> \<not> loading v \<Longrightarrow> js_truthy (av_stats v) \<Longrightarrow>
     Overview_and_list (the (av_stats v)) (av_jobs v) \<in> set (App_sections v)"
  by (auto simp: App_sections_def)

lemma fold_max_base: "b \<le> fold max xs (b :: rat)"
  by (induction xs arbitrary: b) (simp, simp, meson max.cobounded2 order_trans)

lemma fold_max_ge: "x \<in> set xs \<Longrightarrow> x \<le> fold max xs (b :: rat)"
proof (induction xs arbitrary: b)
  case (Cons y ys)
  then show ?case using fold_max_base [of "max y b" ys] by auto
qed simp

lemma fold_max_in: "fold max xs (b :: rat) \<in> insert b (set xs)"
proof (induction xs arbitrary: b)
  case (Cons y ys)
  from Cons [of "max y b"] show ?case by (auto simp: max_def split: if_splits)
qed simp

lemma bar_bounds:
  assumes "0 \<le> c" and "c \<le> m" and "1 \<le> m"
  shows "0 \<le> fl (fl (c / m) * 100)" "fl (fl (c / m) * 100) \<le> 100" "c = m \<Longrightarrow> fl (fl (c / m) * 100) = 100"
proof -
  have one: "fl 1 = 1" and hundred: "fl 100 = 100" and zero: "fl 0 = 0"
    using fl_int [of 1] fl_int [of 100] fl_int [of 0] by simp_all
  have q: "0 \<le> c / m" "c / m \<le> 1" using assms by simp_all
  from fl_mono [OF q(1)] fl_mono [OF q(2)] have f: "0 \<le> fl (c / m)" "fl (c / m) \<le> 1" by (simp_all add: one zero)
  from f have "0 \<le> fl (c / m) * 100" "fl (c / m) * 100 \<le> 100" by simp_all
  from fl_mono [OF this(1)] fl_mono [OF this(2)] show "0 \<le> fl (fl (c / m) * 100)" "fl (fl (c / m) * 100) \<le> 100"
    by (simp_all add: zero hundred)
  show "fl (fl (c / m) * 100) = 100" if "c = m" using that assms(3) by (simp add: one hundred)
qed

lemma status_text_inj: "status_text x = status_text y \<longleftrightarrow> x = y"
  by (cases x; cases y) simp_all

lemma shown_status:
  "map_of (sv_byStatus (stats_of (stats_json (getStats d)))) (status_text x) = Some (of_int (count_status x d))"
  by (cases x) (simp_all add: stats_json_def Let_def js_get_def getStats_def)

lemma shown_counts:
  "set (map snd (sv_byStatus (stats_of (stats_json (getStats d))))) = {of_int (count_status x d) | x. True}"
proof -
  have "set (map snd (sv_byStatus (stats_of (stats_json (getStats d)))))
      = (\<lambda>x. of_int (count_status x d)) ` {QUEUED, PROCESSING, COMPLETED, FAILED, RETRYING, DEAD_LETTERED}"
    by (simp add: stats_json_def Let_def js_get_def getStats_def)
  also have "{QUEUED, PROCESSING, COMPLETED, FAILED, RETRYING, DEAD_LETTERED} = UNIV" by (auto intro: status.exhaust)
  finally show ?thesis by auto
qed

lemma STATUS_ORDER_texts:
  "STATUS_ORDER = map status_text [QUEUED, PROCESSING, RETRYING, COMPLETED, DEAD_LETTERED, FAILED]"
  by (simp add: STATUS_ORDER_def)

lemma some_status:
  assumes "jobs d \<noteq> []"
  shows "\<exists>x. 1 \<le> (of_int (count_status x d) :: rat)"
proof -
  from assms obtain j where "j \<in> set (jobs d)" by (cases "jobs d") auto
  then have "0 < length (filter (\<lambda>k. status k = status j) (jobs d))" by (auto simp: filter_empty_conv)
  then show ?thesis by (intro exI [of _ "status j"]) (simp add: count_status_def Suc_le_eq)
qed

section \<open>Properties\<close>

text \<open>The overview shows the tables as they are. From the answer of the statistics route it shows the four totals, and for each of the
  six statuses exactly one row with the number of jobs in it; the counts add up to the total; every bar is between 0 and 100 percent
  wide in the arithmetic of doubles, and if there is any job the longest bar fills its track exactly.\<close>

lemma overview_faithful:
  fixes d :: db
  defines "st \<equiv> stats_of (stats_json (getStats d))"
  shows "map snd (fst (Overview st)) = map of_int [totalJobs (getStats d), totalReplays (getStats d), totalAttempts (getStats d),
        countPendingOutboxEvents d]
     \<and> map fst (snd (Overview st)) = map status_text [QUEUED, PROCESSING, RETRYING, COMPLETED, DEAD_LETTERED, FAILED]
     \<and> (\<forall>x. \<exists>w. (status_text x, of_int (count_status x d), w) \<in> set (snd (Overview st)) \<and> 0 \<le> w \<and> w \<le> 100)
     \<and> (\<Sum>r \<leftarrow> snd (Overview st). fst (snd r)) = of_int (int (length (jobs d)))
     \<and> (jobs d \<noteq> [] \<longrightarrow> (\<exists>r \<in> set (snd (Overview st)). snd (snd r) = 100))"
proof (intro conjI allI impI)
  define w where "w x = fl (fl (of_int (count_status x d) / maxCount st) * 100)" for x
  have row: "status_row st (status_text x) = (status_text x, of_int (count_status x d), w x)" for x
    unfolding st_def by (simp add: status_row_def shown_status w_def Let_def st_def)
  have rows: "snd (Overview st) = map (\<lambda>x. (status_text x, of_int (count_status x d), w x))
      [QUEUED, PROCESSING, RETRYING, COMPLETED, DEAD_LETTERED, FAILED]"
    unfolding Overview_def STATUS_ORDER_texts by (simp add: row [symmetric])
  have m: "1 \<le> maxCount st" "of_int (count_status x d) \<le> maxCount st" for x
    unfolding maxCount_def by (rule fold_max_base, rule fold_max_ge) (use shown_counts [of d] in \<open>auto simp: st_def\<close>)
  have nn: "(0 :: rat) \<le> of_int (count_status x d)" for x by (simp add: count_status_def)
  note bars = bar_bounds [OF nn m(2) m(1), folded w_def]
  show "map snd (fst (Overview st)) = map of_int [totalJobs (getStats d), totalReplays (getStats d), totalAttempts (getStats d),
        countPendingOutboxEvents d]"
    by (simp add: Overview_def st_def stats_json_def Let_def js_get_def getStats_def countPendingOutboxEvents_def pending_def [abs_def])
  show "map fst (snd (Overview st)) = map status_text [QUEUED, PROCESSING, RETRYING, COMPLETED, DEAD_LETTERED, FAILED]"
    by (simp add: rows)
  show "\<exists>w. (status_text x, of_int (count_status x d), w) \<in> set (snd (Overview st)) \<and> 0 \<le> w \<and> w \<le> 100" for x
    using bars(1,2) [of x] by (intro exI [of _ "w x"]) (cases x, simp_all add: rows)
  have "(\<Sum>r \<leftarrow> snd (Overview st). fst (snd r)) = (of_int (\<Sum>x \<leftarrow> enum_class.enum. count_status x d) :: rat)" by (simp add: rows)
  also have "\<dots> = of_int (int (length (jobs d)))" unfolding count_status_def by (simp only: length_by_status [symmetric])
  finally show "(\<Sum>r \<leftarrow> snd (Overview st). fst (snd r)) = of_int (int (length (jobs d)))" .
  assume "jobs d \<noteq> []"
  then obtain y where "(1 :: rat) \<le> of_int (count_status y d)" using some_status by blast
  then have "maxCount st = 1 \<Longrightarrow> of_int (count_status y d) = maxCount st" using m(2) [of y] by simp
  moreover have "maxCount st = 1 \<or> (\<exists>x. maxCount st = of_int (count_status x d))"
    using fold_max_in [of "map snd (sv_byStatus st)" 1] shown_counts [of d] unfolding maxCount_def st_def by auto
  ultimately obtain x where "of_int (count_status x d) = maxCount st" by metis
  then have "w x = 100" using bars(3) by simp
  then show "\<exists>r \<in> set (snd (Overview st)). snd (snd r) = 100" by (cases x) (simp_all add: rows)
qed

end
