(* ===== verification/Validation.thy ===== *)
theory Validation
  imports ApiHttp
begin

text \<open>
  Request and configuration validation: the schemas of apps/api/src/validation/jobSchema.ts, apps/api/src/config/env.ts and
  apps/worker/src/config/env.ts, and what the code does with their outcome.

  The schemas are values built with the combinators of the zod package; \<open>schema\<close> has one constructor per combinator the sources
  use, and the schemas are translated term by term. The interpreter of the package is not part of the sources: it is the
  parameter \<open>sp\<close> (\<open>safeParse\<close>), of which \<open>zod_documented\<close> states the documented behaviour of those combinators, and
  nothing about the content of error reports or about which texts a coercion accepts.
\<close>

section \<open>Schemas\<close>

datatype schema =
    Z_string
  | Z_number_coerced
  | Z_unknown
  | Z_enum "string list"
  | Z_record schema schema
  | Z_object "(string \<times> schema) list"
  | Z_min_length nat string schema
  | Z_uuid string schema
  | Z_int schema
  | Z_positive schema
  | Z_min int schema
  | Z_optional schema
  | Z_default json schema

text \<open>\<open>undefined\<close> is \<open>None\<close>; a failed parse carries the formatted error.\<close>

type_synonym safeParse = "schema \<Rightarrow> json option \<Rightarrow> json + json option"

definition createJobSchema :: schema where
  "createJobSchema = Z_object
     [(''type'', Z_min_length 1 ''type is required'' Z_string),
      (''payload'', Z_record Z_string Z_unknown)]"

definition jobIdParamSchema :: schema where
  "jobIdParamSchema = Z_uuid ''Invalid job id format'' Z_string"

definition api_envSchema :: schema where
  "api_envSchema = Z_object
     [(''NODE_ENV'', Z_default (JStr ''development'') (Z_enum [''development'', ''test'', ''production''])),
      (''PORT'', Z_default (JNum 3000) (Z_positive (Z_int Z_number_coerced))),
      (''DATABASE_URL'', Z_min_length 1 ''DATABASE_URL is required'' Z_string),
      (''RABBITMQ_URL'', Z_min_length 1 ''RABBITMQ_URL is required'' Z_string),
      (''REPLAY_TEST_DELAY_MS'', Z_default (JNum 0) (Z_min 0 (Z_int Z_number_coerced))),
      (''RATE_LIMIT_CAPACITY'', Z_default (JNum 100) (Z_positive (Z_int Z_number_coerced))),
      (''RATE_LIMIT_WINDOW_SECONDS'', Z_default (JNum 60) (Z_positive (Z_int Z_number_coerced))),
      (''BACKPRESSURE_THRESHOLD'', Z_default (JNum 50) (Z_positive (Z_int Z_number_coerced))),
      (''API_KEY'', Z_optional (Z_min_length 1 [] Z_string)),
      (''CORS_ALLOWED_ORIGINS'', Z_optional (Z_min_length 1 [] Z_string)),
      (''JSON_BODY_LIMIT'', Z_default (JStr ''100kb'') (Z_min_length 1 [] Z_string))]"

definition worker_envSchema :: schema where
  "worker_envSchema = Z_object
     [(''NODE_ENV'', Z_default (JStr ''development'') (Z_enum [''development'', ''test'', ''production''])),
      (''DATABASE_URL'', Z_min_length 1 ''DATABASE_URL is required'' Z_string),
      (''RABBITMQ_URL'', Z_min_length 1 ''RABBITMQ_URL is required'' Z_string),
      (''CLAIM_TEST_SYNC_EPOCH_MS'', Z_default (JNum 0) (Z_min 0 (Z_int Z_number_coerced))),
      (''PORT'', Z_default (JNum 3001) (Z_positive (Z_int Z_number_coerced)))]"

section \<open>What the package documents\<close>

text \<open>A refinement of a schema accepts what the schema accepts and the condition allows, unchanged.\<close>

definition refines_by :: "(json \<Rightarrow> bool) \<Rightarrow> (json option \<Rightarrow> json + json option) \<Rightarrow> (json option \<Rightarrow> json + json option) \<Rightarrow> bool" where
  "refines_by ok p q \<longleftrightarrow> (\<forall>v w. p v = Inr w \<longleftrightarrow> q v = Inr w \<and> (\<exists>x. w = Some x \<and> ok x))"

fun string_of_length :: "nat \<Rightarrow> json \<Rightarrow> bool" where
  "string_of_length n (JStr s) \<longleftrightarrow> n \<le> length s"
| "string_of_length n _ \<longleftrightarrow> False"

fun number_such :: "(rat \<Rightarrow> bool) \<Rightarrow> json \<Rightarrow> bool" where
  "number_such P (JNum q) \<longleftrightarrow> P q"
| "number_such P _ \<longleftrightarrow> False"

text \<open>An object is parsed field by field; undeclared properties are dropped, and so are declared ones whose value is \<open>undefined\<close>.\<close>

definition parses_fields :: "safeParse \<Rightarrow> (string \<times> schema) list \<Rightarrow> (string \<times> json) list \<Rightarrow> (string \<times> json) list \<Rightarrow> bool" where
  "parses_fields sp fs ps qs \<longleftrightarrow> (\<forall>(k, s) \<in> set fs. sp s (js_get k ps) = Inr (js_get k qs)) \<and> map fst qs = filter (\<lambda>k. js_get k qs \<noteq> None) (map fst fs)"

text \<open>\<open>z.int()\<close> takes safe integers only, and a record drops an own property \<open>__proto__\<close>.\<close>

definition safe_integer :: "rat \<Rightarrow> bool" where
  "safe_integer q \<longleftrightarrow> q \<in> \<int> \<and> \<bar>q\<bar> \<le> 2 ^ 53 - 1"

definition without_proto :: "(string \<times> json) list \<Rightarrow> (string \<times> json) list" where
  "without_proto = filter (\<lambda>p. fst p \<noteq> ''__proto__'')"

definition zod_documented :: "safeParse \<Rightarrow> bool" where
  "zod_documented sp \<longleftrightarrow>
     (\<forall>v w. sp Z_string v = Inr w \<longleftrightarrow> (\<exists>s. v = Some (JStr s) \<and> w = v))
   \<and> (\<forall>v w. sp Z_number_coerced v = Inr w \<longrightarrow> (\<exists>q. w = Some (JNum q)))
   \<and> (\<forall>v. sp Z_unknown v = Inr v)
   \<and> (\<forall>ts v w. sp (Z_enum ts) v = Inr w \<longleftrightarrow> (\<exists>t \<in> set ts. v = Some (JStr t) \<and> w = v))
   \<and> (\<forall>v w. sp (Z_record Z_string Z_unknown) v = Inr w \<longleftrightarrow> (\<exists>ps. v = Some (JObj ps) \<and> w = Some (JObj (without_proto ps))))
   \<and> (\<forall>fs v w. distinct (map fst fs) \<longrightarrow>
        (sp (Z_object fs) v = Inr w \<longleftrightarrow> (\<exists>ps qs. v = Some (JObj ps) \<and> w = Some (JObj qs) \<and> parses_fields sp fs ps qs)))
   \<and> (\<forall>n m s. refines_by (string_of_length n) (sp (Z_min_length n m s)) (sp s))
   \<and> (\<forall>m s. \<exists>syntax. refines_by syntax (sp (Z_uuid m s)) (sp s))
   \<and> (\<forall>s. refines_by (number_such safe_integer) (sp (Z_int s)) (sp s))
   \<and> (\<forall>s. refines_by (number_such (\<lambda>q. 0 < q)) (sp (Z_positive s)) (sp s))
   \<and> (\<forall>n s. refines_by (number_such (\<lambda>q. of_int n \<le> q)) (sp (Z_min n s)) (sp s))
   \<and> (\<forall>s v. sp (Z_optional s) v = (if v = None then Inr None else sp s v))
   \<and> (\<forall>d s v. sp (Z_default d s) v = (if v = None then Inr (Some d) else sp s v))"

section \<open>The use of the schemas\<close>

text \<open>\<open>createJobSchema.safeParse(req.body)\<close>, and the two properties of \<open>parsed.data\<close> that the route uses.\<close>

definition field_string :: "string \<Rightarrow> (string \<times> json) list \<Rightarrow> string" where
  "field_string k ps = (case js_get k ps of Some (JStr s) \<Rightarrow> s | _ \<Rightarrow> [])"

definition field_object :: "string \<Rightarrow> (string \<times> json) list \<Rightarrow> (string \<times> json) list" where
  "field_object k ps = (case js_get k ps of Some (JObj o') \<Rightarrow> o' | _ \<Rightarrow> [])"

definition field_int :: "string \<Rightarrow> (string \<times> json) list \<Rightarrow> int" where
  "field_int k ps = (case js_get k ps of Some (JNum q) \<Rightarrow> \<lfloor>q\<rfloor> | _ \<Rightarrow> 0)"

definition field_optional :: "string \<Rightarrow> (string \<times> json) list \<Rightarrow> string option" where
  "field_optional k ps = (case js_get k ps of Some (JStr s) \<Rightarrow> Some s | _ \<Rightarrow> None)"

definition parse_create :: "safeParse \<Rightarrow> json option \<Rightarrow> json + (string \<times> (string \<times> json) list)" where
  "parse_create sp body = (case sp createJobSchema body of
      Inl details \<Rightarrow> Inl details
    | Inr (Some (JObj data)) \<Rightarrow> Inr (field_string ''type'' data, field_object ''payload'' data)
    | Inr _ \<Rightarrow> Inl JNull)"

definition parse_id :: "safeParse \<Rightarrow> string \<Rightarrow> string option" where
  "parse_id sp t = (case sp jobIdParamSchema (Some (JStr t)) of Inr (Some (JStr i)) \<Rightarrow> Some i | _ \<Rightarrow> None)"

definition process_env_json :: "(string \<times> string) list \<Rightarrow> json" where
  "process_env_json vars = JObj (map (\<lambda>(k, x). (k, JStr x)) vars)"

definition parse_api_env :: "safeParse \<Rightarrow> json \<Rightarrow> json + api_env" where
  "parse_api_env sp vars = (case sp api_envSchema (Some vars) of
      Inl err \<Rightarrow> Inl err
    | Inr (Some (JObj data)) \<Rightarrow> Inr \<lparr>NODE_ENV = field_string ''NODE_ENV'' data, PORT = field_int ''PORT'' data,
        DATABASE_URL = field_string ''DATABASE_URL'' data, RABBITMQ_URL = field_string ''RABBITMQ_URL'' data,
        REPLAY_TEST_DELAY_MS = field_int ''REPLAY_TEST_DELAY_MS'' data, RATE_LIMIT_CAPACITY = field_int ''RATE_LIMIT_CAPACITY'' data,
        RATE_LIMIT_WINDOW_SECONDS = field_int ''RATE_LIMIT_WINDOW_SECONDS'' data,
        BACKPRESSURE_THRESHOLD = field_int ''BACKPRESSURE_THRESHOLD'' data, API_KEY = field_optional ''API_KEY'' data,
        CORS_ALLOWED_ORIGINS = field_optional ''CORS_ALLOWED_ORIGINS'' data, JSON_BODY_LIMIT = field_string ''JSON_BODY_LIMIT'' data\<rparr>
    | Inr _ \<Rightarrow> Inl JNull)"

record worker_env =
  w_NODE_ENV :: string
  w_DATABASE_URL :: string
  w_RABBITMQ_URL :: string
  CLAIM_TEST_SYNC_EPOCH_MS :: int
  w_PORT :: int

text \<open>The worker exits with 1 (\<open>Inl\<close>) or runs with the parsed values.\<close>

definition load_worker_env :: "safeParse \<Rightarrow> json \<Rightarrow> int + worker_env" where
  "load_worker_env sp vars = (case sp worker_envSchema (Some vars) of
      Inr (Some (JObj data)) \<Rightarrow> Inr \<lparr>w_NODE_ENV = field_string ''NODE_ENV'' data, w_DATABASE_URL = field_string ''DATABASE_URL'' data,
        w_RABBITMQ_URL = field_string ''RABBITMQ_URL'' data, CLAIM_TEST_SYNC_EPOCH_MS = field_int ''CLAIM_TEST_SYNC_EPOCH_MS'' data,
        w_PORT = field_int ''PORT'' data\<rparr>
    | _ \<Rightarrow> Inl 1)"

text \<open>The configuration of the shared limiter of apps/api/src/routes/jobs.ts.\<close>

definition jobsRateLimiter :: "api_env \<Rightarrow> limiter result" where
  "jobsRateLimiter e = createRateLimiter (of_int (RATE_LIMIT_CAPACITY e)) (of_int (RATE_LIMIT_WINDOW_SECONDS e))"

section \<open>Reading the schemas by the documented behaviour\<close>

lemma zodD:
  assumes "zod_documented sp"
  shows "sp Z_string v = Inr w \<longleftrightarrow> (\<exists>s. v = Some (JStr s) \<and> w = v)"
    and "sp Z_number_coerced v = Inr w \<Longrightarrow> \<exists>q. w = Some (JNum q)"
    and "sp Z_unknown v = Inr v"
    and "sp (Z_enum ts) v = Inr w \<longleftrightarrow> (\<exists>t \<in> set ts. v = Some (JStr t) \<and> w = v)"
    and "sp (Z_record Z_string Z_unknown) v = Inr w \<longleftrightarrow> (\<exists>ps. v = Some (JObj ps) \<and> w = Some (JObj (without_proto ps)))"
    and "distinct (map fst fs) \<Longrightarrow>
      sp (Z_object fs) v = Inr w \<longleftrightarrow> (\<exists>ps qs. v = Some (JObj ps) \<and> w = Some (JObj qs) \<and> parses_fields sp fs ps qs)"
    and "refines_by (string_of_length n) (sp (Z_min_length n m s)) (sp s)"
    and "\<exists>syntax. refines_by syntax (sp (Z_uuid m s)) (sp s)"
    and "refines_by (number_such safe_integer) (sp (Z_int s)) (sp s)"
    and "refines_by (number_such (\<lambda>q. 0 < q)) (sp (Z_positive s)) (sp s)"
    and "refines_by (number_such (\<lambda>q. of_int z \<le> q)) (sp (Z_min z s)) (sp s)"
    and "sp (Z_optional s) v = (if v = None then Inr None else sp s v)"
    and "sp (Z_default d s) v = (if v = None then Inr (Some d) else sp s v)"
  using assms unfolding zod_documented_def by - (elim conjE, simp only: simp_thms)+

lemma zod_nonempty:
  assumes "zod_documented sp"
  shows "sp (Z_min_length 1 m Z_string) v = Inr w \<longleftrightarrow> (\<exists>s. v = Some (JStr s) \<and> s \<noteq> [] \<and> w = v)"
  using zodD(7) [OF assms, of 1 m Z_string] zodD(1) [OF assms] unfolding refines_by_def
  by (auto simp: Suc_le_eq)

lemma number_suchD: "number_such P x \<Longrightarrow> \<exists>q. x = JNum q \<and> P q"
  by (cases x) simp_all

lemma safe_bound: "\<bar>of_int n :: rat\<bar> \<le> 9007199254740991 \<Longrightarrow> n \<le> 9007199254740991"
  by (metis abs_le_D1 of_int_le_iff of_int_numeral)

text \<open>A coerced number that is a safe integer, is positive or has a minimum, with a default that is.\<close>

lemma zod_positive:
  assumes "zod_documented sp" and "sp (Z_default (JNum d) (Z_positive (Z_int Z_number_coerced))) v = Inr w" and "safe_integer d" "0 < d"
  shows "\<exists>n. w = Some (JNum (of_int n)) \<and> 0 < n \<and> n \<le> 2 ^ 53 - 1"
proof -
  have "\<exists>q. w = Some (JNum q) \<and> safe_integer q \<and> 0 < q"
    using assms zodD(13) [OF assms(1)] zodD(10) [OF assms(1)] zodD(9) [OF assms(1)]
    unfolding refines_by_def by (auto split: if_splits dest!: number_suchD)
  then show ?thesis by (auto simp: safe_integer_def elim!: Ints_cases dest: safe_bound)
qed

lemma zod_min_zero:
  assumes "zod_documented sp" and "sp (Z_default (JNum 0) (Z_min 0 (Z_int Z_number_coerced))) v = Inr w"
  shows "\<exists>n. w = Some (JNum (of_int n)) \<and> 0 \<le> n \<and> n \<le> 2 ^ 53 - 1"
proof -
  have "\<exists>q. w = Some (JNum q) \<and> safe_integer q \<and> 0 \<le> q"
    using assms zodD(13) [OF assms(1)] zodD(11) [OF assms(1), of 0] zodD(9) [OF assms(1)]
    unfolding refines_by_def by (auto simp: safe_integer_def split: if_splits dest!: number_suchD)
  then show ?thesis by (auto simp: safe_integer_def elim!: Ints_cases dest: safe_bound)
qed

lemma create_parsed:
  assumes "zod_documented sp"
  shows "parse_create sp body = Inr (ty, pl) \<longleftrightarrow>
    (\<exists>ps pl'. body = Some (JObj ps) \<and> js_get ''type'' ps = Some (JStr ty) \<and> ty \<noteq> [] \<and> js_get ''payload'' ps = Some (JObj pl')
       \<and> pl = without_proto pl')"
    (is "_ \<longleftrightarrow> ?valid")
proof
  assume "parse_create sp body = Inr (ty, pl)"
  then obtain qs where s: "sp createJobSchema body = Inr (Some (JObj qs))"
    and d: "ty = field_string ''type'' qs" "pl = field_object ''payload'' qs"
    by (auto simp: parse_create_def split: sum.splits option.splits json.splits)
  from s obtain ps where b: "body = Some (JObj ps)"
    and f: "sp (Z_min_length 1 ''type is required'' Z_string) (js_get ''type'' ps) = Inr (js_get ''type'' qs)"
      "sp (Z_record Z_string Z_unknown) (js_get ''payload'' ps) = Inr (js_get ''payload'' qs)"
    by (auto simp: createJobSchema_def zodD(6) [OF assms] parses_fields_def)
  from f b d show ?valid
    by (auto simp: zod_nonempty [OF assms, simplified One_nat_def] zodD(5) [OF assms] field_string_def field_object_def)
next
  assume ?valid
  then obtain ps pl' where ps: "body = Some (JObj ps)" "js_get ''type'' ps = Some (JStr ty)" "ty \<noteq> []" "js_get ''payload'' ps = Some (JObj pl')"
    "pl = without_proto pl'" by blast
  let ?qs = "[(''type'', JStr ty), (''payload'', JObj pl)]"
  have "parses_fields sp [(''type'', Z_min_length 1 ''type is required'' Z_string), (''payload'', Z_record Z_string Z_unknown)] ps ?qs"
    using ps zod_nonempty [OF assms, of "''type is required''"] zodD(5) [OF assms] by (auto simp: parses_fields_def js_get_def)
  then have "sp createJobSchema body = Inr (Some (JObj ?qs))" using ps(1) by (simp add: createJobSchema_def zodD(6) [OF assms])
  then show "parse_create sp body = Inr (ty, pl)" by (simp add: parse_create_def field_string_def field_object_def js_get_def)
qed

lemma parse_id_same: "zod_documented sp \<Longrightarrow> parse_id sp t = Some i \<Longrightarrow> i = t"
  using zodD(8) [of sp "''Invalid job id format''" Z_string] zodD(1) [of sp]
  by (auto simp: parse_id_def jobIdParamSchema_def refines_by_def split: sum.splits option.splits json.splits)

section \<open>An interpreter that behaves as documented\<close>

text \<open>The documented behaviour can be had: a direct interpreter, whose coercion accepts numbers and whose \<open>uuid\<close> accepts any text.\<close>

definition keep_if :: "(json \<Rightarrow> bool) \<Rightarrow> json + json option \<Rightarrow> json + json option" where
  "keep_if ok r = (case r of Inr (Some x) \<Rightarrow> (if ok x then r else Inl JNull) | _ \<Rightarrow> Inl JNull)"

fun collect_fields :: "(string \<times> (json + json option)) list \<Rightarrow> (string \<times> json) list option" where
  "collect_fields [] = Some []"
| "collect_fields ((k, r) # rs) = (case (r, collect_fields rs) of
      (Inr None, Some qs) \<Rightarrow> Some qs
    | (Inr (Some x), Some qs) \<Rightarrow> Some ((k, x) # qs)
    | _ \<Rightarrow> None)"

definition object_of :: "json option \<Rightarrow> (string \<times> json) list option" where
  "object_of v = (case v of Some (JObj ps) \<Rightarrow> Some ps | _ \<Rightarrow> None)"

primrec plain_zod :: "schema \<Rightarrow> json option \<Rightarrow> json + json option" where
  "plain_zod Z_string = (\<lambda>v. keep_if (string_of_length 0) (Inr v))"
| "plain_zod Z_number_coerced = (\<lambda>v. keep_if (number_such (\<lambda>_. True)) (Inr v))"
| "plain_zod Z_unknown = (\<lambda>v. Inr v)"
| "plain_zod (Z_enum ts) = (\<lambda>v. keep_if (\<lambda>x. x \<in> JStr ` set ts) (Inr v))"
| "plain_zod (Z_record k x) = (\<lambda>v. case object_of v of None \<Rightarrow> Inl JNull | Some ps \<Rightarrow> Inr (Some (JObj (without_proto ps))))"
| "plain_zod (Z_object fs) = (\<lambda>v. case object_of v of None \<Rightarrow> Inl JNull
     | Some ps \<Rightarrow> (case collect_fields (map (\<lambda>(k, p). (k, p (js_get k ps))) (map (map_prod id plain_zod) fs)) of
         None \<Rightarrow> Inl JNull | Some qs \<Rightarrow> Inr (Some (JObj qs))))"
| "plain_zod (Z_min_length n m s) = (\<lambda>v. keep_if (string_of_length n) (plain_zod s v))"
| "plain_zod (Z_uuid m s) = (\<lambda>v. keep_if (\<lambda>_. True) (plain_zod s v))"
| "plain_zod (Z_int s) = (\<lambda>v. keep_if (number_such (\<lambda>q. q = of_int \<lfloor>q\<rfloor> \<and> \<bar>q\<bar> \<le> 2 ^ 53 - 1)) (plain_zod s v))"
| "plain_zod (Z_positive s) = (\<lambda>v. keep_if (number_such (\<lambda>q. 0 < q)) (plain_zod s v))"
| "plain_zod (Z_min n s) = (\<lambda>v. keep_if (number_such (\<lambda>q. of_int n \<le> q)) (plain_zod s v))"
| "plain_zod (Z_optional s) = (\<lambda>v. if v = None then Inr None else plain_zod s v)"
| "plain_zod (Z_default d s) = (\<lambda>v. if v = None then Inr (Some d) else plain_zod s v)"

lemma keep_if_Inr: "keep_if ok r = Inr w \<longleftrightarrow> r = Inr w \<and> (\<exists>x. w = Some x \<and> ok x)"
  by (auto simp: keep_if_def split: sum.splits option.splits)

lemma object_of_Some: "object_of v = Some ps \<longleftrightarrow> v = Some (JObj ps)"
  by (auto simp: object_of_def split: option.splits json.splits)

lemma string_of_length_0: "string_of_length 0 x \<longleftrightarrow> (\<exists>s. x = JStr s)"
  by (cases x) simp_all

lemma collect_cons:
  "collect_fields ((k, r) # rs) = Some qs \<longleftrightarrow> r = Inr None \<and> collect_fields rs = Some qs
     \<or> (\<exists>x qs'. r = Inr (Some x) \<and> collect_fields rs = Some qs' \<and> qs = (k, x) # qs')"
  by (auto split: sum.splits option.splits)

lemma collect_fields_keys: "collect_fields rs = Some qs \<Longrightarrow> fst ` set qs \<subseteq> fst ` set rs"
proof (induction rs arbitrary: qs)
  case (Cons kr rs)
  obtain k r where kr: "kr = (k, r)" by fastforce
  from Cons.prems [unfolded kr collect_cons] obtain qs' where "collect_fields rs = Some qs'" "fst ` set qs \<subseteq> insert k (fst ` set qs')" by auto
  with Cons.IH [of qs'] have "fst ` set qs \<subseteq> insert k (fst ` set rs)" by blast
  then show ?case by (simp add: kr)
qed simp

lemma fields_cons:
  assumes "k \<notin> fst ` set rs"
  shows "(\<forall>(k', r') \<in> set rs. r' = Inr (js_get k' ((k, x) # qs))) \<longleftrightarrow> (\<forall>(k', r') \<in> set rs. r' = Inr (js_get k' qs))"
    and "filter (\<lambda>k'. js_get k' ((k, x) # qs) \<noteq> None) (map fst rs) = filter (\<lambda>k'. js_get k' qs \<noteq> None) (map fst rs)"
proof -
  have "js_get k' ((k, x) # qs) = js_get k' qs" if "k' \<in> fst ` set rs" for k' using assms that by (auto simp: js_get_def)
  then show "(\<forall>(k', r') \<in> set rs. r' = Inr (js_get k' ((k, x) # qs))) \<longleftrightarrow> (\<forall>(k', r') \<in> set rs. r' = Inr (js_get k' qs))"
    "filter (\<lambda>k'. js_get k' ((k, x) # qs) \<noteq> None) (map fst rs) = filter (\<lambda>k'. js_get k' qs \<noteq> None) (map fst rs)"
    by (fastforce, intro filter_cong) auto
qed

lemma collect_fields_iff:
  "distinct (map fst rs) \<Longrightarrow> collect_fields rs = Some qs \<longleftrightarrow>
     (\<forall>(k, r) \<in> set rs. r = Inr (js_get k qs)) \<and> map fst qs = filter (\<lambda>k. js_get k qs \<noteq> None) (map fst rs)"
proof (induction rs arbitrary: qs)
  case Nil
  show ?case by auto
next
  case (Cons kr rs)
  obtain k r where kr: "kr = (k, r)" by fastforce
  have k: "k \<notin> fst ` set rs" and IH: "collect_fields rs = Some qs' \<longleftrightarrow>
      (\<forall>(k, r) \<in> set rs. r = Inr (js_get k qs')) \<and> map fst qs' = filter (\<lambda>k. js_get k qs' \<noteq> None) (map fst rs)" for qs'
    using Cons by (auto simp: kr)
  have absent: "js_get k qs' = None" if "map fst qs' = filter Q (map fst rs)" for qs' Q
  proof -
    have "set (map fst qs') \<subseteq> fst ` set rs" unfolding that by auto
    with k show ?thesis by (auto simp: js_get_def map_of_eq_None_iff)
  qed
  show ?case
  proof (cases "js_get k qs")
    case None
    have "collect_fields (kr # rs) = Some qs \<longleftrightarrow> r = Inr None \<and> collect_fields rs = Some qs"
      unfolding kr collect_cons using None by (auto simp: js_get_def)
    then show ?thesis unfolding IH using None by (auto simp: kr)
  next
    case (Some x)
    show ?thesis
    proof (cases qs)
      case Nil
      with Some show ?thesis by (simp add: js_get_def)
    next
      case q: (Cons ky qs')
      obtain k' y where ky: "ky = (k', y)" by fastforce
      show ?thesis
      proof (cases "k' = k")
        case True
        with Some q ky have y: "y = x" by (simp add: js_get_def)
        have "collect_fields (kr # rs) = Some qs \<longleftrightarrow> r = Inr (Some x) \<and> collect_fields rs = Some qs'"
        proof -
          have "collect_fields rs \<noteq> Some ((k, x) # qs')" using collect_fields_keys k by fastforce
          then show ?thesis unfolding kr q ky True y collect_cons by blast
        qed
        moreover have "js_get k ((k, x) # qs') = Some x" by (simp add: js_get_def)
        ultimately show ?thesis unfolding IH q ky True y by (simp add: kr fields_cons(1) [OF k] fields_cons(2) [OF k, simplified] del: collect_fields.simps)
      next
        case False
        have "collect_fields (kr # rs) \<noteq> Some qs"
        proof
          assume c: "collect_fields (kr # rs) = Some qs"
          with False q ky have "collect_fields rs = Some qs" unfolding kr collect_cons by auto
          with IH absent Some show False by (metis option.distinct(1))
        qed
        moreover have "map fst qs \<noteq> filter (\<lambda>k. js_get k qs \<noteq> None) (map fst (kr # rs))" using Some q ky False by (simp add: kr)
        ultimately show ?thesis by blast
      qed
    qed
  qed
qed

lemma plain_zod_documented: "zod_documented plain_zod"
proof -
  have object: "plain_zod (Z_object fs) v = Inr w \<longleftrightarrow> (\<exists>ps qs. v = Some (JObj ps) \<and> w = Some (JObj qs) \<and> parses_fields plain_zod fs ps qs)"
    if d: "distinct (map fst fs)" for fs v w
  proof -
    have f: "map (\<lambda>(k, p). (k, p (js_get k ps))) (map (map_prod id plain_zod) fs) = map (\<lambda>(k, s). (k, plain_zod s (js_get k ps))) fs" for ps
      by (simp add: case_prod_unfold)
    have c: "collect_fields (map (\<lambda>(k, s). (k, plain_zod s (js_get k ps))) fs) = Some qs \<longleftrightarrow> parses_fields plain_zod fs ps qs" for ps qs
    proof (subst collect_fields_iff)
      have m: "map fst (map (\<lambda>(k, s). (k, plain_zod s (js_get k ps))) fs) = map fst fs" by (simp add: case_prod_unfold comp_def)
      then show "distinct (map fst (map (\<lambda>(k, s). (k, plain_zod s (js_get k ps))) fs))" using d by (simp only:)
      show "(\<forall>(k, r) \<in> set (map (\<lambda>(k, s). (k, plain_zod s (js_get k ps))) fs). r = Inr (js_get k qs))
          \<and> map fst qs = filter (\<lambda>k. js_get k qs \<noteq> None) (map fst (map (\<lambda>(k, s). (k, plain_zod s (js_get k ps))) fs))
          \<longleftrightarrow> parses_fields plain_zod fs ps qs"
        unfolding parses_fields_def m by (auto simp: case_prod_unfold)
    qed
    show ?thesis unfolding plain_zod.simps f by (auto simp: object_of_Some c [symmetric] object_of_def split: option.splits json.splits)
  qed
  have int: "number_such (\<lambda>q. q = of_int \<lfloor>q\<rfloor> \<and> \<bar>q\<bar> \<le> 9007199254740991) x \<longleftrightarrow> number_such safe_integer x" for x
    by (cases x) (auto simp: safe_integer_def elim: Ints_cases, metis Ints_of_int)
  have "(\<exists>q. x = JNum q) \<or> \<not> number_such P x" for x P by (cases x) simp_all
  then show ?thesis
    unfolding zod_documented_def
    by (intro conjI allI impI object; (simp add: object)?)
       (auto simp: int refines_by_def keep_if_Inr string_of_length_0 object_of_def split: option.splits json.splits)
qed

section \<open>The values of a configuration\<close>

lemma zod_mode:
  assumes "zod_documented sp" and "sp (Z_default (JStr ''development'') (Z_enum [''development'', ''test'', ''production''])) v = Inr w"
  shows "\<exists>m \<in> {''development'', ''test'', ''production''}. w = Some (JStr m)"
  using assms(2) zodD(13) [OF assms(1)] zodD(4) [OF assms(1)] by (auto split: if_splits)

lemma field_simps_of:
  "js_get k qs = Some (JStr s) \<Longrightarrow> field_string k qs = s" "js_get k qs = Some (JNum (of_int n)) \<Longrightarrow> field_int k qs = n"
  by (simp_all add: field_string_def field_int_def)

lemma zod_field_positive:
  assumes "zod_documented sp" and "\<exists>v. sp (Z_default (JNum d) (Z_positive (Z_int Z_number_coerced))) v = Inr (js_get k qs)"
    and "d \<in> {3000, 3001, 100, 60, 50}"
  shows "field_int k qs \<in> {1..2 ^ 53 - 1}"
proof -
  from assms(2) obtain v where "sp (Z_default (JNum d) (Z_positive (Z_int Z_number_coerced))) v = Inr (js_get k qs)" by blast
  from zod_positive [OF assms(1) this] assms(3) show ?thesis by (auto simp: field_simps_of(2) safe_integer_def)
qed

lemma zod_field_not_negative:
  assumes "zod_documented sp" and "\<exists>v. sp (Z_default (JNum 0) (Z_min 0 (Z_int Z_number_coerced))) v = Inr (js_get k qs)"
  shows "field_int k qs \<in> {0..2 ^ 53 - 1}"
proof -
  from assms(2) obtain v where "sp (Z_default (JNum 0) (Z_min 0 (Z_int Z_number_coerced))) v = Inr (js_get k qs)" by blast
  from zod_min_zero [OF assms(1) this] show ?thesis by (auto simp: field_simps_of(2))
qed

lemma zod_field_nonempty:
  assumes "zod_documented sp" and "\<exists>v. sp (Z_min_length 1 m Z_string) v = Inr (js_get k qs)"
  shows "field_string k qs \<noteq> []"
  using assms(2) zod_nonempty [OF assms(1), of m _ "js_get k qs"] field_simps_of(1) [of k qs] by auto

lemma zod_field_mode:
  assumes "zod_documented sp"
    and "\<exists>v. sp (Z_default (JStr ''development'') (Z_enum [''development'', ''test'', ''production''])) v = Inr (js_get k qs)"
  shows "field_string k qs \<in> {''development'', ''test'', ''production''}"
  using zod_mode [OF assms(1)] assms(2) field_simps_of(1) [of k qs] by auto

lemma zod_object_field:
  assumes "zod_documented sp" and "sp (Z_object fs) v = Inr (Some (JObj qs))" and "distinct (map fst fs)" and "(k, s) \<in> set fs"
  shows "\<exists>v. sp s v = Inr (js_get k qs)"
  using assms by (fastforce simp: zodD(6) [OF assms(1)] parses_fields_def)

lemma parse_api_env_valid:
  assumes z: "zod_documented sp" and p: "parse_api_env sp vars = Inr e"
  shows "NODE_ENV e \<in> {''development'', ''test'', ''production''}" "PORT e \<in> {1..2 ^ 53 - 1}" "DATABASE_URL e \<noteq> []" "RABBITMQ_URL e \<noteq> []"
    "REPLAY_TEST_DELAY_MS e \<in> {0..2 ^ 53 - 1}" "RATE_LIMIT_CAPACITY e \<in> {1..2 ^ 53 - 1}" "RATE_LIMIT_WINDOW_SECONDS e \<in> {1..2 ^ 53 - 1}" "BACKPRESSURE_THRESHOLD e \<in> {1..2 ^ 53 - 1}"
proof -
  from p obtain qs where s: "sp api_envSchema (Some vars) = Inr (Some (JObj qs))"
    and e: "NODE_ENV e = field_string ''NODE_ENV'' qs" "PORT e = field_int ''PORT'' qs"
      "DATABASE_URL e = field_string ''DATABASE_URL'' qs" "RABBITMQ_URL e = field_string ''RABBITMQ_URL'' qs"
      "REPLAY_TEST_DELAY_MS e = field_int ''REPLAY_TEST_DELAY_MS'' qs" "RATE_LIMIT_CAPACITY e = field_int ''RATE_LIMIT_CAPACITY'' qs"
      "RATE_LIMIT_WINDOW_SECONDS e = field_int ''RATE_LIMIT_WINDOW_SECONDS'' qs" "BACKPRESSURE_THRESHOLD e = field_int ''BACKPRESSURE_THRESHOLD'' qs"
    by (auto simp: parse_api_env_def split: sum.splits option.splits json.splits)
  note f = zod_object_field [OF z s [unfolded api_envSchema_def]]
  show "NODE_ENV e \<in> {''development'', ''test'', ''production''}" unfolding e by (rule zod_field_mode [OF z f]) simp_all
  show "PORT e \<in> {1..2 ^ 53 - 1}" unfolding e by (rule zod_field_positive [OF z f, of _ 3000]) simp_all
  show "DATABASE_URL e \<noteq> []" "RABBITMQ_URL e \<noteq> []" unfolding e by (rule zod_field_nonempty [OF z f]; simp)+
  show "REPLAY_TEST_DELAY_MS e \<in> {0..2 ^ 53 - 1}" unfolding e by (rule zod_field_not_negative [OF z f]) simp_all
  show "RATE_LIMIT_CAPACITY e \<in> {1..2 ^ 53 - 1}" unfolding e by (rule zod_field_positive [OF z f, of _ 100]) simp_all
  show "RATE_LIMIT_WINDOW_SECONDS e \<in> {1..2 ^ 53 - 1}" unfolding e by (rule zod_field_positive [OF z f, of _ 60]) simp_all
  show "BACKPRESSURE_THRESHOLD e \<in> {1..2 ^ 53 - 1}" unfolding e by (rule zod_field_positive [OF z f, of _ 50]) simp_all
qed

lemma load_worker_env_valid:
  assumes z: "zod_documented sp" and p: "load_worker_env sp vars = Inr w"
  shows "w_NODE_ENV w \<in> {''development'', ''test'', ''production''}" "w_DATABASE_URL w \<noteq> []" "w_RABBITMQ_URL w \<noteq> []"
    "CLAIM_TEST_SYNC_EPOCH_MS w \<in> {0..2 ^ 53 - 1}" "w_PORT w \<in> {1..2 ^ 53 - 1}"
proof -
  from p obtain qs where s: "sp worker_envSchema (Some vars) = Inr (Some (JObj qs))"
    and e: "w_NODE_ENV w = field_string ''NODE_ENV'' qs" "w_PORT w = field_int ''PORT'' qs"
      "w_DATABASE_URL w = field_string ''DATABASE_URL'' qs" "w_RABBITMQ_URL w = field_string ''RABBITMQ_URL'' qs"
      "CLAIM_TEST_SYNC_EPOCH_MS w = field_int ''CLAIM_TEST_SYNC_EPOCH_MS'' qs"
    by (auto simp: load_worker_env_def split: sum.splits option.splits json.splits)
  note f = zod_object_field [OF z s [unfolded worker_envSchema_def]]
  show "w_NODE_ENV w \<in> {''development'', ''test'', ''production''}" unfolding e by (rule zod_field_mode [OF z f]) simp_all
  show "w_DATABASE_URL w \<noteq> []" "w_RABBITMQ_URL w \<noteq> []" unfolding e by (rule zod_field_nonempty [OF z f]; simp)+
  show "CLAIM_TEST_SYNC_EPOCH_MS w \<in> {0..2 ^ 53 - 1}" unfolding e by (rule zod_field_not_negative [OF z f]) simp_all
  show "w_PORT w \<in> {1..2 ^ 53 - 1}" unfolding e by (rule zod_field_positive [OF z f, of _ 3001]) simp_all
qed

section \<open>Properties\<close>

text \<open>C30. A job is created from a valid request and from no other. Past the key, the rate limiter and the backlog check, and without faults, the
  creation route answers 201 exactly if the body is an object with a non-empty text \<open>type\<close> and an object \<open>payload\<close> that the database can
  store, that is, without NUL characters; the new row has exactly these, without a property \<open>__proto__\<close> of the payload; undeclared properties are
  ignored. A valid body with a NUL character is answered with 500, any other body, and the lack of one, with 400, and nothing is written.\<close>

theorem create_validated:
  assumes "zod_documented sp" and "admit e a r s = (None, s1)" and "aa_stats a = Io_ok" and "aa_tx a = tx_fine"
    and "aa_new_id a \<notin> set (map jid (jobs (a_db s)))" and "aa_new_ev a \<notin> set (map ev_id (outbox_events (a_db s)))"
    and "countPendingOutboxEvents (a_db s) \<le> BACKPRESSURE_THRESHOLD e"
    and "x = post_jobs e (parse_create sp) a r s"
  shows "if \<exists>ps ty pl. rq_body r = Some (JObj ps) \<and> js_get ''type'' ps = Some (JStr ty) \<and> ty \<noteq> [] \<and> js_get ''payload'' ps = Some (JObj pl)
     then \<exists>ps ty pl. rq_body r = Some (JObj ps) \<and> js_get ''type'' ps = Some (JStr ty) \<and> js_get ''payload'' ps = Some (JObj pl)
        \<and> (if storable ty (without_proto pl)
           then resp_status (fst x) = 201
             \<and> find_job (a_db (snd x)) = (find_job (a_db s))(aa_new_id a \<mapsto> new_job (aa_new_id a) (aa_now a) ty (without_proto pl))
           else resp_status (fst x) = 500 \<and> a_db (snd x) = a_db s)
     else resp_status (fst x) = 400 \<and> a_db (snd x) = a_db s"
    (is "if ?valid then ?created else ?refused")
proof (cases ?valid)
  case True
  then obtain ps ty pl where b: "rq_body r = Some (JObj ps)" "js_get ''type'' ps = Some (JStr ty)" "js_get ''payload'' ps = Some (JObj pl)"
    and p: "parse_create sp (rq_body r) = Inr (ty, without_proto pl)" using create_parsed [OF assms(1)] by metis
  have c: "if storable ty (without_proto pl) then resp_status (fst x) = 201 else resp_status (fst x) = 500 \<and> a_db (snd x) = a_db s"
    using backpressure_gate [OF assms(2-6), of "parse_create sp" ty "without_proto pl"] assms(7,8) p by blast
  moreover have "find_job (a_db (snd x)) = (find_job (a_db s))(aa_new_id a \<mapsto> new_job (aa_new_id a) (aa_now a) ty (without_proto pl))"
    if st: "resp_status (fst x) = 201"
  proof (rule create_effect_find)
    show "create_effect (aa_new_id a) (aa_new_ev a) (aa_now a) ty (without_proto pl) (a_db s) (a_db (snd x))"
      using post_jobs_answers [of e "parse_create sp" a r s "fst x" "snd x"] st assms(8) p by auto
  qed
  ultimately have ?created using b by (intro exI [of _ ps] exI [of _ ty] exI [of _ pl]) simp
  with True show ?thesis by (simp only: if_True)
next
  case False
  have "\<nexists>y. parse_create sp (rq_body r) = Inr y" using False create_parsed [OF assms(1), of "rq_body r"] by (metis surj_pair)
  then obtain d where "parse_create sp (rq_body r) = Inl d" by (cases "parse_create sp (rq_body r)") auto
  then have "resp_status (fst x) = 400 \<and> a_db (snd x) = a_db s"
    using assms(2,3,7,8) admit_db [OF assms(2)] by (simp add: post_jobs_def backpressure_ok)
  with False show ?thesis by (simp only: if_False)
qed

lemma admit_body: "admit e a (r\<lparr>rq_body := b\<rparr>) s = admit e a r s"
proof -
  have "http_request.truncate (r\<lparr>rq_body := b\<rparr>) = http_request.truncate r" by (cases r) (simp add: http_request.defs)
  moreover have "requireApiKey e (r\<lparr>rq_body := b\<rparr>) = requireApiKey e r" by (simp add: requireApiKey_def)
  ultimately show ?thesis unfolding admit_def by (simp only:)
qed

theorem create_validated_witness:
  "let r = (\<lambda>b. (sample_request ''k'')\<lparr>rq_body := b\<rparr>); x = (\<lambda>b. post_jobs sample_env (parse_create plain_zod) sample_awaits (r b) (sample_state (sample_job QUEUED 0 [])))
   in resp_status (fst (x (Some (JObj [(''type'', JStr ''email''), (''payload'', JObj []), (''extra'', JNull)])))) = 201
    \<and> resp_status (fst (x (Some (JObj [(''type'', JStr [CHR 0x00]), (''payload'', JObj [])])))) = 500
    \<and> resp_status (fst (x (Some (JObj [(''type'', JStr []), (''payload'', JObj [])])))) = 400 \<and> resp_status (fst (x None)) = 400"
proof -
  have c: "countPendingOutboxEvents (a_db (sample_state j)) \<le> BACKPRESSURE_THRESHOLD sample_env" for j
    by (simp add: countPendingOutboxEvents_def sample_state_def sample_db_def sample_env_def)
  have f: "aa_new_id sample_awaits \<notin> set (map jid (jobs (a_db (sample_state (sample_job QUEUED 0 [])))))"
    "aa_new_ev sample_awaits \<notin> set (map ev_id (outbox_events (a_db (sample_state (sample_job QUEUED 0 [])))))"
    by (simp_all add: sample_awaits_def sample_state_def sample_db_def sample_job_def)
  have i: "aa_stats sample_awaits = Io_ok" "aa_tx sample_awaits = tx_fine" by (simp_all add: sample_awaits_def)
  note v = create_validated [OF plain_zod_documented, of sample_env sample_awaits "(sample_request ''k'')\<lparr>rq_body := b\<rparr>" for b,
    unfolded admit_body, OF sample_admit i f c refl]
  show ?thesis
    using v [of "Some (JObj [(''type'', JStr ''email''), (''payload'', JObj []), (''extra'', JNull)])"]
      v [of "Some (JObj [(''type'', JStr [CHR 0x00]), (''payload'', JObj [])])"]
      v [of "Some (JObj [(''type'', JStr []), (''payload'', JObj [])])"] v [of None]
    by (simp add: js_get_def without_proto_def has_nul_def storable_def)
qed

text \<open>C33. A process that runs has a usable configuration. Whatever the environment variables, an API that starts has one of the three modes, positive safe integers as its
  port, rate-limit capacity, window and backlog threshold, non-empty addresses, and a safe integer that is not negative as its delay, so that the creation of
  its rate limiter cannot throw and gives full buckets of the configured capacity; a worker that starts has the same kind of values.\<close>

theorem configuration_usable:
  assumes "zod_documented sp"
  shows "(\<forall>e. load_env (parse_api_env sp) vars = Started e \<longrightarrow>
        NODE_ENV e \<in> {''development'', ''test'', ''production''} \<and> PORT e \<in> {1..2 ^ 53 - 1} \<and> DATABASE_URL e \<noteq> [] \<and> RABBITMQ_URL e \<noteq> []
      \<and> REPLAY_TEST_DELAY_MS e \<in> {0..2 ^ 53 - 1} \<and> BACKPRESSURE_THRESHOLD e \<in> {1..2 ^ 53 - 1}
      \<and> RATE_LIMIT_CAPACITY e \<in> {1..2 ^ 53 - 1} \<and> RATE_LIMIT_WINDOW_SECONDS e \<in> {1..2 ^ 53 - 1}
      \<and> (\<exists>l. jobsRateLimiter e = Inr l \<and> lm_capacity l = of_int (RATE_LIMIT_CAPACITY e) \<and> 1 \<le> lm_capacity l \<and> buckets l = Map.empty))
   \<and> (\<forall>w. load_worker_env sp vars = Inr w \<longrightarrow>
        w_NODE_ENV w \<in> {''development'', ''test'', ''production''} \<and> w_DATABASE_URL w \<noteq> [] \<and> w_RABBITMQ_URL w \<noteq> []
      \<and> CLAIM_TEST_SYNC_EPOCH_MS w \<in> {0..2 ^ 53 - 1} \<and> w_PORT w \<in> {1..2 ^ 53 - 1})"
proof (intro conjI allI impI)
  fix e
  assume "load_env (parse_api_env sp) vars = Started e"
  then have "parse_api_env sp vars = Inr e" by (auto simp: load_env_def split: sum.splits if_splits)
  from parse_api_env_valid [OF assms this]
  show "NODE_ENV e \<in> {''development'', ''test'', ''production''}" "PORT e \<in> {1..2 ^ 53 - 1}" "DATABASE_URL e \<noteq> []" "RABBITMQ_URL e \<noteq> []"
    "REPLAY_TEST_DELAY_MS e \<in> {0..2 ^ 53 - 1}" "BACKPRESSURE_THRESHOLD e \<in> {1..2 ^ 53 - 1}"
    "RATE_LIMIT_CAPACITY e \<in> {1..2 ^ 53 - 1}" "RATE_LIMIT_WINDOW_SECONDS e \<in> {1..2 ^ 53 - 1}"
    "\<exists>l. jobsRateLimiter e = Inr l \<and> lm_capacity l = of_int (RATE_LIMIT_CAPACITY e) \<and> 1 \<le> lm_capacity l \<and> buckets l = Map.empty"
    by (auto simp: jobsRateLimiter_def createRateLimiter_def)
next
  fix w
  assume "load_worker_env sp vars = Inr w"
  from load_worker_env_valid [OF assms this]
  show "w_NODE_ENV w \<in> {''development'', ''test'', ''production''}" "w_DATABASE_URL w \<noteq> []" "w_RABBITMQ_URL w \<noteq> []"
    "CLAIM_TEST_SYNC_EPOCH_MS w \<in> {0..2 ^ 53 - 1}" "w_PORT w \<in> {1..2 ^ 53 - 1}" by auto
qed

theorem configuration_usable_witness:
  "let vars = process_env_json [(''DATABASE_URL'', ''postgres://db''), (''RABBITMQ_URL'', ''amqp://mq'')] in
   (\<exists>e l. load_env (parse_api_env plain_zod) vars = Started e \<and> PORT e = 3000 \<and> jobsRateLimiter e = Inr l \<and> lm_capacity l = 100)
   \<and> (\<exists>w. load_worker_env plain_zod vars = Inr w \<and> 0 < w_PORT w)"
proof -
  let ?vars = "process_env_json [(''DATABASE_URL'', ''postgres://db''), (''RABBITMQ_URL'', ''amqp://mq'')]"
  obtain e where e: "load_env (parse_api_env plain_zod) ?vars = Started e" "PORT e = 3000" "RATE_LIMIT_CAPACITY e = 100"
    by (simp add: load_env_def parse_api_env_def api_envSchema_def process_env_json_def object_of_def js_get_def keep_if_def
        field_string_def field_int_def)
  obtain w where w: "load_worker_env plain_zod ?vars = Inr w"
    by (simp add: load_worker_env_def worker_envSchema_def process_env_json_def object_of_def js_get_def keep_if_def)
  from configuration_usable [OF plain_zod_documented, of ?vars] e w show ?thesis unfolding Let_def by fastforce
qed

end
