(* ===== verification/ExpressApp.thy ===== *)
theory ExpressApp
  imports Validation
begin

text \<open>
  The Express application as a whole (apps/api/src/app.ts): the trusted proxy hop, the order of the middlewares, the three routers and
  the error handler, around the routes of \<open>ApiHttp\<close> and the schemas of \<open>Validation\<close>; and the reverse proxy in front of it
  (apps/dashboard/nginx.conf.template).

  Third-party parts are parameters: \<open>json_body\<close> is what \<open>express.json\<close> makes of the body (an error that it passes on, or the value);
  \<open>proxyaddr\<close> is how the framework finds \<open>req.ip\<close>, with its documented behaviour as the predicate \<open>trusts_hops\<close>; a preflight
  request and a request that no router takes are answered by the packages (\<open>None\<close>). Logging and compression do not appear.
  A path is given as its segments, with the fixed ones in lower case, as the router matches them.
\<close>

section \<open>Requests as they arrive\<close>

datatype http_method = GET | HEAD | POST | OPTIONS | Other_method string

record raw_request =
  rw_method :: http_method
  rw_path :: "string list"
  rw_headers :: "(string \<times> string) list"
  rw_peer :: string
  rw_forwarded :: "string list"

text \<open>\<open>rw_forwarded\<close> are the entries of \<open>X-Forwarded-For\<close>, left to right.\<close>

definition TRUST_PROXY_HOPS :: nat where
  "TRUST_PROXY_HOPS = 1"

text \<open>The address at most so many hops away: the peer first, then the entries from right to left.\<close>

definition trusts_hops :: "(nat \<Rightarrow> string \<Rightarrow> string list \<Rightarrow> string) \<Rightarrow> bool" where
  "trusts_hops proxyaddr \<longleftrightarrow> (\<forall>n peer fwd. proxyaddr n peer fwd = (peer # rev fwd) ! min n (length fwd))"

definition seen_request :: "(nat \<Rightarrow> string \<Rightarrow> string list \<Rightarrow> string) \<Rightarrow> raw_request \<Rightarrow> json option \<Rightarrow> string \<Rightarrow> api_request" where
  "seen_request proxyaddr rw body i = \<lparr>rq_headers = rw_headers rw,
     rq_ip = Some (proxyaddr TRUST_PROXY_HOPS (rw_peer rw) (rw_forwarded rw)), rq_body = body, rq_id = i\<rparr>"

text \<open>The reverse proxy: \<open>X-Forwarded-For\<close> becomes \<open>$proxy_add_x_forwarded_for\<close>, the received entries and the client's address.\<close>

definition nginx_forward :: "string \<Rightarrow> raw_request \<Rightarrow> raw_request" where
  "nginx_forward nginx rw = rw\<lparr>rw_peer := nginx, rw_forwarded := rw_forwarded rw @ [rw_peer rw]\<rparr>"

section \<open>Routers\<close>

datatype endpoint = E_live | E_ready | E_create | E_recent | E_job string | E_replay string | E_stats

definition reads :: "http_method \<Rightarrow> bool" where
  "reads m \<longleftrightarrow> m = GET \<or> m = HEAD"

text \<open>\<open>healthRouter\<close>, \<open>jobsRouter\<close> and \<open>statsRouter\<close>, on the path below their mount point.\<close>

fun healthRouter :: "http_method \<Rightarrow> string list \<Rightarrow> endpoint option" where
  "healthRouter m [] = (if reads m then Some E_live else None)"
| "healthRouter m [x] = (if reads m \<and> x = ''ready'' then Some E_ready else None)"
| "healthRouter m _ = None"

fun jobsRouter :: "http_method \<Rightarrow> string list \<Rightarrow> endpoint option" where
  "jobsRouter m [] = (if m = POST then Some E_create else if reads m then Some E_recent else None)"
| "jobsRouter m [i] = (if reads m then Some (E_job i) else None)"
| "jobsRouter m [i, x] = (if m = POST \<and> x = ''replay'' then Some (E_replay i) else None)"
| "jobsRouter m _ = None"

fun statsRouter :: "http_method \<Rightarrow> string list \<Rightarrow> endpoint option" where
  "statsRouter m [] = (if reads m then Some E_stats else None)"
| "statsRouter m _ = None"

definition route_of :: "http_method \<Rightarrow> string list \<Rightarrow> endpoint option" where
  "route_of m path = (case path of
      p # q # rest \<Rightarrow>
        (if p \<noteq> ''api'' then None
         else if q = ''health'' then healthRouter m rest
         else if q = ''jobs'' then jobsRouter m rest
         else if q = ''stats'' then statsRouter m rest
         else None)
    | _ \<Rightarrow> None)"

section \<open>The application\<close>

text \<open>The last middleware: once the headers are sent nothing more is.\<close>

definition error_middleware :: "api_env \<Rightarrow> bool \<Rightarrow> js_error \<Rightarrow> http_response option" where
  "error_middleware e headersSent err = (if headersSent then None else Some (errorHandler e err))"

record app_config =
  ap_env :: api_env
  ap_safeParse :: safeParse
  ap_uin :: uuid_input
  ap_proxyaddr :: "nat \<Rightarrow> string \<Rightarrow> string list \<Rightarrow> string"
  ap_json_body :: "raw_request \<Rightarrow> js_error + json option"
  ap_show_job :: "job \<Rightarrow> json"
  ap_show_recent :: "recent_job \<Rightarrow> json"

definition answer ::
  "app_config \<Rightarrow> unit result \<times> unit result \<Rightarrow> api_awaits \<Rightarrow> (string \<Rightarrow> api_request) \<Rightarrow> endpoint \<Rightarrow> api_state \<Rightarrow> http_response \<times> api_state" where
  "answer c probes a req ep s = (case ep of
      E_live \<Rightarrow> (health_live, s)
    | E_ready \<Rightarrow> (health_ready (fst probes) (snd probes), s)
    | E_create \<Rightarrow> post_jobs (ap_env c) (parse_create (ap_safeParse c)) a (req []) s
    | E_recent \<Rightarrow> (get_jobs (ap_env c) (ap_show_recent c) a (a_db s), s)
    | E_job i \<Rightarrow> (get_job (ap_env c) (ap_uin c) (parse_id (ap_safeParse c)) (ap_show_job c) a (req i) (a_db s), s)
    | E_replay i \<Rightarrow> post_replay (ap_env c) (ap_uin c) (parse_id (ap_safeParse c)) a (req i) s
    | E_stats \<Rightarrow> (get_stats (ap_env c) a (a_db s), s))"

definition app_handle ::
  "app_config \<Rightarrow> unit result \<times> unit result \<Rightarrow> api_awaits \<Rightarrow> raw_request \<Rightarrow> api_state \<Rightarrow> http_response option \<times> api_state" where
  "app_handle c probes a rw s =
     (if rw_method rw = OPTIONS then (None, s)
      else (case ap_json_body c rw of
          Inl err \<Rightarrow> (error_middleware (ap_env c) False err, s)
        | Inr body \<Rightarrow> (case route_of (rw_method rw) (rw_path rw) of
              None \<Rightarrow> (None, s)
            | Some ep \<Rightarrow> (let (resp, s') = answer c probes a (seen_request (ap_proxyaddr c) rw body) ep s in (Some resp, s')))))"

section \<open>Facts\<close>

lemma route_of_writes: "route_of m path = Some ep \<Longrightarrow> ep = E_create \<or> (\<exists>i. ep = E_replay i) \<Longrightarrow> m = POST"
  by (cases "(m, drop 2 path)" rule: jobsRouter.cases)
     (auto simp: route_of_def reads_def split: list.splits if_splits elim!: healthRouter.elims statsRouter.elims)

text \<open>What the two mutating routes leave alone.\<close>

lemma admit_needs_key:
  assumes "admit e a r s = (v, s1)" and "\<not> (truthy (API_KEY e) \<longrightarrow> map_of (rq_headers r) API_KEY_HEADER = API_KEY e)"
  shows "v \<noteq> None \<and> s1 = s"
  using assms by (auto simp: admit_def requireApiKey_def Let_def split: option.splits if_splits)

lemma post_limiter:
  "a_limiter (snd (post_jobs e parse_body a r s)) = a_limiter (snd (admit e a r s))"
  "a_limiter (snd (post_replay e uin prs a r s)) = a_limiter (snd (admit e a r s))"
  by (auto simp: post_jobs_def post_replay_def split: option.splits sum.splits prod.splits)

lemma post_refused:
  assumes "admit e a r s = (Some resp, s1)"
  shows "post_jobs e parse_body a r s = (resp, s1)" "post_replay e uin prs a r s = (resp, s1)"
  using assms by (simp_all add: post_jobs_def post_replay_def)

lemma post_replay_statuses:
  assumes "post_replay e uin prs a r s = (resp, s')"
  shows "resp_status resp = 500 \<longrightarrow> (\<exists>err. resp = errorHandler e err)"
    and "resp_status resp \<in> {400, 401, 429} \<longrightarrow> a_db s' = a_db s"
proof -
  obtain v s1 where a: "admit e a r s = (v, s1)" by fastforce
  note d = admit_db [OF a]
  show "resp_status resp = 500 \<longrightarrow> (\<exists>err. resp = errorHandler e err)"
    using assms a admit_status [of e a r s _ s1]
    by (cases v) (auto simp: post_replay_def split: option.splits sum.splits prod.splits)
  show "resp_status resp \<in> {400, 401, 429} \<longrightarrow> a_db s' = a_db s"
    using assms a d by (cases v) (auto simp: post_replay_def errorHandler_def split: option.splits sum.splits prod.splits)
qed

lemma post_jobs_500:
  assumes "post_jobs e prs a r s = (resp, s')" and "resp_status resp = 500"
  shows "\<exists>err. resp = errorHandler e err"
proof -
  obtain v s1 where a: "admit e a r s = (v, s1)" by fastforce
  show ?thesis
  proof (cases v)
    case (Some x)
    with assms a admit_status [of e a r s x s1] show ?thesis by (auto simp: post_jobs_def)
  next
    case None
    show ?thesis
    proof (cases "backpressure e (aa_stats a) (a_db s1)")
      case (Inr b)
      with assms a None backpressure_status [of e "aa_stats a" "a_db s1"] show ?thesis
        by (cases b) (auto simp: post_jobs_def split: sum.splits prod.splits)
    qed (use assms a None in \<open>auto simp: post_jobs_def\<close>)
  qed
qed

lemma answer_500:
  assumes "answer c probes a req ep s = (resp, s')" and "resp_status resp = 500"
  shows "\<exists>err. resp = errorHandler (ap_env c) err"
proof (cases ep)
  case E_create
  with assms post_jobs_500 show ?thesis by (simp add: answer_def)
next
  case (E_replay i)
  with assms post_replay_statuses(1) show ?thesis by (fastforce simp: answer_def)
qed (use assms in \<open>auto simp: answer_def health_live_def health_ready_def get_jobs_def get_job_def get_stats_def Let_def
      split: if_splits prod.splits sum.splits option.splits\<close>)

lemma post_replay_writes:
  assumes "post_replay e uin prs a r s = (resp, s')" and "schema_ok (a_db s)" and "a_db s' \<noteq> a_db s"
  shows "resp_status resp \<in> {200, 500}"
proof -
  obtain v s1 where a: "admit e a r s = (v, s1)" by fastforce
  note d = admit_db [OF a]
  have "d' = a_db s" if "claimReplay uin (aa_tx a) (aa_new_ev a) (aa_now a) i (a_db s) = (Inr None, d')" for i d'
    using that by (rule claimReplay_cases [OF assms(2)]) auto
  then show ?thesis
    using assms a d by (cases v) (auto simp: post_replay_def errorHandler_def split: option.splits sum.splits prod.splits)
qed

text \<open>A request that reached a route.\<close>

lemma app_handle_cases:
  assumes "app_handle c probes a rw s = (resp, s')"
  obtains (package) "resp = None" "s' = s"
  | (body) err where "ap_json_body c rw = Inl err" "resp = Some (errorHandler (ap_env c) err)" "s' = s"
  | (route) body ep x where "ap_json_body c rw = Inr body" "route_of (rw_method rw) (rw_path rw) = Some ep" "resp = Some x"
      "answer c probes a (seen_request (ap_proxyaddr c) rw body) ep s = (x, s')"
  using assms by (auto simp: app_handle_def error_middleware_def split: if_splits sum.splits option.splits prod.splits)

lemma answer_posts:
  assumes "answer c probes a req ep s = (x, s')"
  obtains (reading) "s' = s"
  | (create) "ep = E_create" "post_jobs (ap_env c) (parse_create (ap_safeParse c)) a (req []) s = (x, s')"
  | (replay) i where "ep = E_replay i" "post_replay (ap_env c) (ap_uin c) (parse_id (ap_safeParse c)) a (req i) s = (x, s')"
  using assms by (cases ep) (auto simp: answer_def)

lemma admit_limiter:
  assumes "NODE_ENV e = ''production''"
  shows "a_limiter (snd (admit e a (seen_request f rw body i) s)) \<in>
    {a_limiter s, snd (rateLimiter (f TRUST_PROXY_HOPS (rw_peer rw) (rw_forwarded rw)) (aa_nowMs a) (a_limiter s))}"
  using assms
  by (auto simp: admit_def defaultIdentify_def seen_request_def http_request.defs split: option.splits prod.splits verdict.splits)

lemma answer_limiter:
  assumes "answer c probes a (seen_request f rw body) ep s = (x, s')" and "NODE_ENV (ap_env c) = ''production''"
  shows "a_limiter s' \<in> {a_limiter s, snd (rateLimiter (f TRUST_PROXY_HOPS (rw_peer rw) (rw_forwarded rw)) (aa_nowMs a) (a_limiter s))}"
  using assms(1)
proof (cases rule: answer_posts)
  case create
  from post_limiter(1) [of "ap_env c" "parse_create (ap_safeParse c)" a "seen_request f rw body []" s] create(2)
    admit_limiter [OF assms(2), of a f rw body "[]" s] show ?thesis by simp
next
  case (replay i)
  from post_limiter(2) [of "ap_env c" "ap_uin c" "parse_id (ap_safeParse c)" a "seen_request f rw body i" s] replay(2)
    admit_limiter [OF assms(2), of a f rw body i s] show ?thesis by simp
qed simp

lemma no_key_no_effect:
  assumes "answer c probes a req ep s = (x, s')"
    and "\<And>i. \<not> (truthy (API_KEY (ap_env c)) \<longrightarrow> map_of (rq_headers (req i)) API_KEY_HEADER = API_KEY (ap_env c))"
  shows "s' = s"
proof -
  have r: "\<exists>y. admit (ap_env c) a (req i) s = (Some y, s)" for i
    using admit_needs_key [OF _ assms(2) [of i], of a s] by (cases "admit (ap_env c) a (req i) s") auto
  from assms(1) show ?thesis
  proof (cases rule: answer_posts)
    case create
    from r [of "[]"] obtain y where "admit (ap_env c) a (req []) s = (Some y, s)" by blast
    from post_refused(1) [OF this] create(2) show ?thesis by simp
  next
    case (replay i)
    from r [of i] obtain y where "admit (ap_env c) a (req i) s = (Some y, s)" by blast
    from post_refused(2) [OF this] replay(2) show ?thesis by simp
  qed simp
qed

lemma answer_writes:
  assumes "answer c probes a req ep s = (x, s')" and "schema_ok (a_db s)" and "a_db s' \<noteq> a_db s"
  shows "(ep = E_create \<or> (\<exists>i. ep = E_replay i)) \<and> resp_status x \<in> {200, 201, 500}"
  using assms(1)
proof (cases rule: answer_posts)
  case create
  with post_jobs_answers [OF create(2)] assms(3) show ?thesis by auto
next
  case (replay i)
  with post_replay_writes [OF replay(2) assms(2,3)] show ?thesis by auto
qed (use assms(3) in simp)

section \<open>Properties\<close>

text \<open>C29. Only two requests of the whole API can change a row, and only with the key: whatever arrives, if the database is not as it was, then a
  \<open>POST\<close> reached the creation or the replay route, it carried exactly the configured key if there is one, and it was answered with 200, 201
  or 500. Every other method, path, body and key leaves the tables untouched. And in production there is a key: without one the process
  does not start.\<close>

theorem api_writes_authorised:
  assumes "app_handle c probes a rw s = (resp, s')" and "schema_ok (a_db s)" and "a_db s' \<noteq> a_db s"
  shows "rw_method rw = POST \<and> (\<exists>ep. route_of POST (rw_path rw) = Some ep \<and> (ep = E_create \<or> (\<exists>i. ep = E_replay i)))
     \<and> (truthy (API_KEY (ap_env c)) \<longrightarrow> map_of (rw_headers rw) API_KEY_HEADER = API_KEY (ap_env c))
     \<and> (load_env (parse_api_env (ap_safeParse c)) vars = Started (ap_env c) \<longrightarrow> NODE_ENV (ap_env c) = ''production'' \<longrightarrow>
          truthy (API_KEY (ap_env c)))
     \<and> (\<exists>x. resp = Some x \<and> resp_status x \<in> {200, 201, 500})"
  using assms(1)
proof (cases rule: app_handle_cases)
  case (route body ep x)
  note w = answer_writes [OF route(4) assms(2,3)]
  have "truthy (API_KEY (ap_env c)) \<longrightarrow> map_of (rw_headers rw) API_KEY_HEADER = API_KEY (ap_env c)"
  proof (rule ccontr)
    assume "\<not> ?thesis"
    then have "s' = s" by (intro no_key_no_effect [OF route(4)]) (simp add: seen_request_def)
    with assms(3) show False by simp
  qed
  moreover have "truthy (API_KEY (ap_env c))"
    if "load_env (parse_api_env (ap_safeParse c)) vars = Started (ap_env c)" "NODE_ENV (ap_env c) = ''production''"
    using production_has_key [OF that] by (auto simp: truthy_def)
  moreover have "rw_method rw = POST" using route_of_writes [OF route(2)] w by blast
  ultimately show ?thesis using w route(2,3) by auto
qed (use assms(3) in auto)

text \<open>C31. In production a client spends its own rate-limit budget and nobody else's: through the reverse proxy, whatever path, headers and
  \<open>X-Forwarded-For\<close> entries a client sends, the limiter is untouched or has charged the bucket of the client's own address.\<close>

theorem limiter_charges_client:
  assumes "trusts_hops (ap_proxyaddr c)" and "NODE_ENV (ap_env c) = ''production''"
    and "app_handle c probes a (nginx_forward nginx rw) s = (resp, s')"
  shows "(a_limiter s' = a_limiter s \<or> a_limiter s' = snd (rateLimiter (rw_peer rw) (aa_nowMs a) (a_limiter s)))
     \<and> (\<forall>k. k \<noteq> rw_peer rw \<longrightarrow> buckets (a_limiter s') k = buckets (a_limiter s) k)"
proof -
  have ip: "ap_proxyaddr c TRUST_PROXY_HOPS (rw_peer (nginx_forward nginx rw)) (rw_forwarded (nginx_forward nginx rw)) = rw_peer rw"
    using assms(1) by (simp add: trusts_hops_def TRUST_PROXY_HOPS_def nginx_forward_def)
  have "a_limiter s' = a_limiter s \<or> a_limiter s' = snd (rateLimiter (rw_peer rw) (aa_nowMs a) (a_limiter s))"
    using assms(3)
  proof (cases rule: app_handle_cases)
    case (route body ep x)
    from answer_limiter [OF route(4) assms(2)] ip show ?thesis by simp
  qed auto
  moreover have "buckets (snd (rateLimiter (rw_peer rw) n l)) k = buckets l k" if "k \<noteq> rw_peer rw" for n l k
    using that by (simp add: rateLimiter_def Let_def)
  ultimately show ?thesis by auto
qed

text \<open>C32. A failure tells a client of a production deployment nothing: every answer with 500, whatever was thrown where, is the same
  response without detail; and a body that \<open>express.json\<close> rejects is answered with it on every method and path but a preflight, although
  the fault is the client's, without any effect.\<close>

theorem production_errors_opaque:
  assumes "NODE_ENV (ap_env c) = ''production''"
  shows "(\<forall>x s'. app_handle c probes a rw s = (Some x, s') \<longrightarrow> resp_status x = 500 \<longrightarrow>
        x = Response 500 None (JObj [(''error'', JStr ''Internal server error'')]))
     \<and> (\<forall>err. ap_json_body c rw = Inl err \<longrightarrow> rw_method rw \<noteq> OPTIONS \<longrightarrow>
        app_handle c probes a rw s = (Some (Response 500 None (JObj [(''error'', JStr ''Internal server error'')])), s))"
proof -
  have h: "errorHandler (ap_env c) err = Response 500 None (JObj [(''error'', JStr ''Internal server error'')])" for err
    using assms by (simp add: errorHandler_def jerror_def)
  have "x = Response 500 None (JObj [(''error'', JStr ''Internal server error'')])"
    if "app_handle c probes a rw s = (Some x, s')" "resp_status x = 500" for x s'
    using that(1)
  proof (cases rule: app_handle_cases)
    case (route body ep y)
    from answer_500 [OF route(4)] route(3) that(2) h show ?thesis by auto
  qed (use h in auto)
  moreover have "app_handle c probes a rw s = (Some (Response 500 None (JObj [(''error'', JStr ''Internal server error'')])), s)"
    if "ap_json_body c rw = Inl err" "rw_method rw \<noteq> OPTIONS" for err
    using that by (simp add: app_handle_def error_middleware_def h)
  ultimately show ?thesis by blast
qed

lemma app_handle_create:
  assumes "rw_method rw = POST" and "rw_path rw = [''api'', ''jobs'']" and "ap_json_body c rw = Inr body"
    and "post_jobs (ap_env c) (parse_create (ap_safeParse c)) a (seen_request (ap_proxyaddr c) rw body []) s = (x, s')"
  shows "app_handle c probes a rw s = (Some x, s')"
proof -
  have "route_of POST [''api'', ''jobs''] = Some E_create" by (simp add: route_of_def)
  with assms show ?thesis by (simp add: app_handle_def answer_def)
qed

text \<open>A client that connects without the proxy names its own bucket: the last entry of its \<open>X-Forwarded-For\<close>.\<close>

lemma direct_client_chooses_bucket:
  assumes "trusts_hops (ap_proxyaddr c)" and "NODE_ENV (ap_env c) = ''production''"
    and "rw_method rw = POST" and "rw_path rw = [''api'', ''jobs'']" and "ap_json_body c rw = Inr body"
    and "truthy (API_KEY (ap_env c)) \<longrightarrow> map_of (rw_headers rw) API_KEY_HEADER = API_KEY (ap_env c)"
    and "rw_forwarded rw = xs @ [forged]"
  shows "a_limiter (snd (app_handle c probes a rw s)) = snd (rateLimiter forged (aa_nowMs a) (a_limiter s))"
proof -
  let ?r = "seen_request (ap_proxyaddr c) rw body []"
  have "ap_proxyaddr c TRUST_PROXY_HOPS (rw_peer rw) (rw_forwarded rw) = forged"
    using assms(1,7) by (simp add: trusts_hops_def TRUST_PROXY_HOPS_def)
  then have k: "requireApiKey (ap_env c) ?r = None" "defaultIdentify (NODE_ENV (ap_env c)) (http_request.truncate ?r) = forged"
    using assms(2,6) by (auto simp: requireApiKey_def seen_request_def defaultIdentify_def http_request.defs Let_def)
  have "a_limiter (snd (admit (ap_env c) a ?r s)) = snd (rateLimiter forged (aa_nowMs a) (a_limiter s))"
    unfolding admit_def k by (simp split: prod.splits verdict.splits)
  moreover obtain x s' where p: "post_jobs (ap_env c) (parse_create (ap_safeParse c)) a ?r s = (x, s')" by fastforce
  ultimately have "a_limiter s' = snd (rateLimiter forged (aa_nowMs a) (a_limiter s))"
    using post_limiter(1) [of "ap_env c" "parse_create (ap_safeParse c)" a ?r s] by simp
  with app_handle_create [OF assms(3-5) p] show ?thesis by simp
qed

section \<open>Concrete requests\<close>

definition sample_proxyaddr :: "nat \<Rightarrow> string \<Rightarrow> string list \<Rightarrow> string" where
  "sample_proxyaddr n peer fwd = (peer # rev fwd) ! min n (length fwd)"

definition sample_config :: app_config where
  "sample_config = \<lparr>ap_env = sample_env, ap_safeParse = plain_zod, ap_uin = plain_uin, ap_proxyaddr = sample_proxyaddr,
     ap_json_body = (\<lambda>rw. if rw_method rw = GET then Inr None else if rw_headers rw = [] then Inl (JsError ''SyntaxError'' ''Unexpected token'' None)
        else Inr (Some (JObj [(''type'', JStr ''email''), (''payload'', JObj [])]))),
     ap_show_job = (\<lambda>_. JNull), ap_show_recent = (\<lambda>_. JNull)\<rparr>"

definition sample_post :: "string \<Rightarrow> raw_request" where
  "sample_post key = \<lparr>rw_method = POST, rw_path = [''api'', ''jobs''], rw_headers = [(API_KEY_HEADER, key)],
     rw_peer = ''10.0.0.1'', rw_forwarded = [''1.2.3.4'']\<rparr>"

abbreviation "sample_probes \<equiv> (Inr (), Inr ()) :: unit result \<times> unit result"
abbreviation "sample_start \<equiv> sample_state (sample_job QUEUED 0 [])"

lemma sample_trusts: "trusts_hops (ap_proxyaddr sample_config)"
  by (simp add: trusts_hops_def sample_config_def sample_proxyaddr_def)

lemma sample_config_simps [simp]:
  "ap_env sample_config = sample_env" "ap_safeParse sample_config = plain_zod" "ap_proxyaddr sample_config = sample_proxyaddr"
  "NODE_ENV sample_env = ''production''" "API_KEY sample_env = Some ''k''"
  by (simp_all add: sample_config_def sample_env_def)

lemma sample_parse: "parse_create plain_zod (Some (JObj [(''type'', JStr ''email''), (''payload'', JObj [])])) = Inr (''email'', [])"
  using create_parsed [OF plain_zod_documented, of _ "''email''" "[]"] by (simp add: js_get_def without_proto_def)

text \<open>A creation through the proxy, by a client that pretends to be \<open>1.2.3.4\<close>.\<close>

lemma sample_created_as:
  fixes t :: timestamp
  assumes "i \<notin> set (map jid (jobs d))" and "ev \<notin> set (map ev_id (outbox_events d))" and "countPendingOutboxEvents d \<le> 50"
  defines "aw \<equiv> sample_awaits\<lparr>aa_new_id := i, aa_new_ev := ev, aa_now := t\<rparr>"
  shows "\<exists>x s'. app_handle sample_config sample_probes aw (nginx_forward ''172.18.0.2'' (sample_post ''k'')) (sample_start\<lparr>a_db := d\<rparr>) = (Some x, s')
     \<and> resp_status x = 201 \<and> create_effect i ev t ''email'' [] d (a_db s')"
proof -
  let ?s = "sample_start\<lparr>a_db := d\<rparr>"
  let ?rw = "nginx_forward ''172.18.0.2'' (sample_post ''k'')"
  let ?body = "Some (JObj [(''type'', JStr ''email''), (''payload'', JObj [])])"
  let ?r = "seen_request sample_proxyaddr ?rw ?body []"
  have r: "?r = (sample_request ''k'')\<lparr>rq_body := ?body, rq_id := []\<rparr>"
    by (simp add: seen_request_def nginx_forward_def sample_post_def sample_request_def sample_proxyaddr_def TRUST_PROXY_HOPS_def)
  have "requireApiKey sample_env ?r = None" "defaultIdentify (NODE_ENV sample_env) (http_request.truncate ?r) = ''10.0.0.1''"
    unfolding r by (simp_all add: requireApiKey_def sample_request_def truthy_def defaultIdentify_def http_request.defs)
  then obtain s1 where ad: "admit sample_env aw ?r ?s = (None, s1)"
    by (simp add: admit_def sample_state_def rateLimiter_def getOrRefillBucket_def aw_def)
  have w: "aa_stats aw = Io_ok" "aa_tx aw = tx_fine" "aa_new_id aw = i" "aa_new_ev aw = ev"
    "aa_now aw = t" "BACKPRESSURE_THRESHOLD sample_env = 50" by (simp_all add: aw_def sample_awaits_def sample_env_def)
  obtain x s' where p: "post_jobs sample_env (parse_create plain_zod) aw ?r ?s = (x, s')" by fastforce
  have b: "parse_create plain_zod (rq_body ?r) = Inr (''email'', [])" using sample_parse by (simp add: seen_request_def)
  from backpressure_gate [OF ad w(1,2), of "parse_create plain_zod" "''email''" "[]"] assms(1-3) b p w have x: "resp_status x = 201" by simp
  from post_jobs_answers [OF p] x b w have "create_effect i ev t ''email'' [] d (a_db s')" by auto
  moreover have "app_handle sample_config sample_probes aw ?rw ?s = (Some x, s')"
  proof (rule app_handle_create)
    show "ap_json_body sample_config ?rw = Inr ?body" by (simp add: sample_config_def nginx_forward_def sample_post_def)
  qed (use p in \<open>simp_all add: nginx_forward_def sample_post_def\<close>)
  ultimately show ?thesis using x by blast
qed

lemma sample_created:
  assumes "''j2'' \<notin> set (map jid (jobs d))" and "''e2'' \<notin> set (map ev_id (outbox_events d))" and "countPendingOutboxEvents d \<le> 50"
  shows "\<exists>x s'. app_handle sample_config sample_probes sample_awaits (nginx_forward ''172.18.0.2'' (sample_post ''k'')) (sample_start\<lparr>a_db := d\<rparr>) = (Some x, s')
     \<and> resp_status x = 201 \<and> create_effect ''j2'' ''e2'' 9 ''email'' [] d (a_db s')"
  using sample_created_as [OF assms, of 9] by (simp add: sample_awaits_def)

lemma sample_start_db: "sample_start = sample_start\<lparr>a_db := sample_db (sample_job QUEUED 0 [])\<rparr>"
  by (simp add: sample_state_def)

theorem api_writes_authorised_witness:
  "truthy (API_KEY (ap_env sample_config)) \<and> map_of (rw_headers (nginx_forward ''172.18.0.2'' (sample_post ''k''))) API_KEY_HEADER = Some ''k''"
proof -
  from sample_created [of "sample_db (sample_job QUEUED 0 [])", folded sample_start_db] obtain x s' where
    h: "app_handle sample_config sample_probes sample_awaits (nginx_forward ''172.18.0.2'' (sample_post ''k'')) sample_start = (Some x, s')"
    and "create_effect ''j2'' ''e2'' 9 ''email'' [] (sample_db (sample_job QUEUED 0 [])) (a_db s')"
    by (auto simp: sample_db_def sample_job_def countPendingOutboxEvents_def)
  then have "a_db s' \<noteq> a_db sample_start" by (auto simp: create_effect_def sample_state_def)
  have "schema_ok (a_db sample_start)" by (simp add: sample_state_def int4_max_def)
  from api_writes_authorised [OF h this \<open>a_db s' \<noteq> a_db sample_start\<close>] show ?thesis by (simp add: truthy_def)
qed

theorem limiter_charges_client_witness:
  "\<exists>s'. snd (app_handle sample_config sample_probes sample_awaits (nginx_forward ''172.18.0.2'' (sample_post ''k'')) sample_start) = s'
     \<and> buckets (a_limiter s') ''1.2.3.4'' = None"
proof -
  let ?x = "app_handle sample_config sample_probes sample_awaits (nginx_forward ''172.18.0.2'' (sample_post ''k'')) sample_start"
  have "rw_peer (sample_post ''k'') \<noteq> ''1.2.3.4''" by (simp add: sample_post_def)
  with limiter_charges_client [OF sample_trusts, of sample_probes sample_awaits "''172.18.0.2''" "sample_post ''k''" sample_start "fst ?x" "snd ?x"]
  have "buckets (a_limiter (snd ?x)) ''1.2.3.4'' = buckets (a_limiter sample_start) ''1.2.3.4''" by simp
  then show ?thesis by (simp add: sample_state_def)
qed

theorem production_errors_opaque_witness:
  "app_handle sample_config sample_probes sample_awaits ((sample_post ''k'')\<lparr>rw_headers := [], rw_path := []\<rparr>) sample_start
     = (Some (Response 500 None (JObj [(''error'', JStr ''Internal server error'')])), sample_start)"
proof -
  let ?rw = "(sample_post ''k'')\<lparr>rw_headers := [], rw_path := []\<rparr>"
  have "ap_json_body sample_config ?rw = Inl (JsError ''SyntaxError'' ''Unexpected token'' None)" "rw_method ?rw \<noteq> OPTIONS"
    by (simp_all add: sample_config_def sample_post_def)
  with production_errors_opaque [of sample_config sample_probes sample_awaits ?rw sample_start] show ?thesis
    using sample_config_simps(1,4) by metis
qed

end
