(* ===== verification/Refresh.thy ===== *)
theory Refresh
  imports Views ExpressApp
begin

text \<open>
  A refresh of the dashboard from end to end: the functions \<open>getStats\<close>, \<open>getRecentJobs\<close> and \<open>getJob\<close> of
  apps/dashboard/src/api/client.ts, the Express application that answers them, the rows as they travel, and the main component
  that shows them. A row travels as the JSON object of its columns; \<open>date_text\<close> is the text of a \<open>Date\<close>. What a browser adds
  to a request (headers, addresses) is the argument \<open>base\<close>.
\<close>

section \<open>Rows on the wire\<close>

definition json_or_null :: "string option \<Rightarrow> json" where
  "json_or_null v = (case v of None \<Rightarrow> JNull | Some s \<Rightarrow> JStr s)"

definition recent_json :: "(timestamp \<Rightarrow> string) \<Rightarrow> recent_job \<Rightarrow> json" where
  "recent_json date_text r = JObj [(''id'', JStr (rj_id r)), (''type'', JStr (rj_type r)), (''status'', JStr (status_text (rj_status r))),
     (''attempt_count'', JNum (of_int (rj_attempt_count r))), (''max_attempts'', JNum (of_int (rj_max_attempts r))),
     (''created_at'', JStr (date_text (rj_created_at r))), (''updated_at'', JStr (date_text (rj_updated_at r)))]"

definition job_json :: "(timestamp \<Rightarrow> string) \<Rightarrow> job \<Rightarrow> json" where
  "job_json date_text j = JObj [(''id'', JStr (jid j)), (''type'', JStr (jtype j)), (''payload'', JObj (payload j)),
     (''status'', JStr (status_text (status j))), (''attempt_count'', JNum (of_int (attempt_count j))),
     (''max_attempts'', JNum (of_int (max_attempts j))), (''last_error'', json_or_null (last_error j)),
     (''created_at'', JStr (date_text (created_at j))), (''updated_at'', JStr (date_text (updated_at j))),
     (''total_attempt_count'', JNum (of_int (total_attempt_count j))), (''replay_count'', JNum (of_int (replay_count j))),
     (''last_dead_lettered_at'', json_or_null (map_option date_text (last_dead_lettered_at j))),
     (''last_dead_letter_reason'', json_or_null (last_dead_letter_reason j))]"

section \<open>The client\<close>

text \<open>A response as \<open>fetch\<close> gives it; what the packages answer themselves is a 404 without JSON.\<close>

definition fetched_of :: "http_response option \<Rightarrow> fetched" where
  "fetched_of r = (case r of None \<Rightarrow> Fetched 404 None | Some x \<Rightarrow> Fetched (resp_status x) (Some (resp_body x)))"

definition client_call ::
  "app_config \<Rightarrow> unit result \<times> unit result \<Rightarrow> api_awaits \<Rightarrow> raw_request \<Rightarrow> string list \<Rightarrow> api_state \<Rightarrow> client_error + json" where
  "client_call c probes a base path s =
     request (fetched_of (fst (app_handle c probes a (base\<lparr>rw_method := GET, rw_path := path\<rparr>) s)))"

definition client_getStats where
  "client_getStats c probes a base s = client_call c probes a base [''api'', ''stats''] s"

definition client_getRecentJobs where
  "client_getRecentJobs c probes a base s = client_call c probes a base [''api'', ''jobs''] s"

definition client_getJob where
  "client_getJob c probes a base i s = client_call c probes a base [''api'', ''jobs'', i] s"

text \<open>\<open>express.json\<close> passes on a request that has no body.\<close>

definition bodiless_pass :: "app_config \<Rightarrow> bool" where
  "bodiless_pass c \<longleftrightarrow> (\<forall>rw. rw_method rw = GET \<longrightarrow> ap_json_body c rw = Inr None)"

section \<open>What the client gets\<close>

lemma client_call_route:
  assumes "bodiless_pass c" and "route_of GET path = Some ep"
  shows "client_call c probes a base path s = (let x = fst (answer c probes a
      (seen_request (ap_proxyaddr c) (base\<lparr>rw_method := GET, rw_path := path\<rparr>) None) ep s)
    in request (Fetched (resp_status x) (Some (resp_body x))))"
  using assms by (simp add: client_call_def app_handle_def bodiless_pass_def fetched_of_def split: prod.splits)

lemma request_ok: "request (Fetched 200 (Some v)) = Inr v"
  by (simp add: request_def)

lemma request_error: "resp_status (errorHandler e err) = 500 \<and> request (Fetched 500 (Some v)) = Inl (ApiError 500 v)"
  by (simp add: request_def errorHandler_def)

lemma getStats_gets:
  assumes "bodiless_pass c"
  shows "aa_stats a = Io_ok \<Longrightarrow> client_getStats c probes a base s = Inr (stats_json (getStats (a_db s)))"
    and "aa_stats a \<noteq> Io_ok \<Longrightarrow> \<exists>b. client_getStats c probes a base s = Inl (ApiError 500 b)"
proof -
  have r: "client_getStats c probes a base s
      = (let x = get_stats (ap_env c) a (a_db s) in request (Fetched (resp_status x) (Some (resp_body x))))"
  proof -
    have rt: "route_of GET [''api'', ''stats''] = Some E_stats" by (simp add: route_of_def reads_def)
    show ?thesis unfolding client_getStats_def client_call_route [OF assms rt] by (simp add: answer_def)
  qed
  show "aa_stats a = Io_ok \<Longrightarrow> client_getStats c probes a base s = Inr (stats_json (getStats (a_db s)))"
    unfolding r by (simp add: get_stats_def request_ok)
  assume "aa_stats a \<noteq> Io_ok"
  then obtain err where "get_stats (ap_env c) a (a_db s) = errorHandler (ap_env c) err"
    by (cases "aa_stats a") (auto simp: get_stats_def query_def)
  then show "\<exists>b. client_getStats c probes a base s = Inl (ApiError 500 b)" unfolding r using request_error by (simp add: Let_def)
qed

lemma getRecentJobs_gets:
  assumes "bodiless_pass c"
  shows "aa_lookup a = Io_ok \<Longrightarrow> client_getRecentJobs c probes a base s
      = Inr (JObj [(''jobs'', JArr (map (ap_show_recent c) (listRecentJobs (a_db s))))])"
    and "aa_lookup a \<noteq> Io_ok \<Longrightarrow> \<exists>b. client_getRecentJobs c probes a base s = Inl (ApiError 500 b)"
proof -
  have r: "client_getRecentJobs c probes a base s
      = (let x = get_jobs (ap_env c) (ap_show_recent c) a (a_db s) in request (Fetched (resp_status x) (Some (resp_body x))))"
  proof -
    have rt: "route_of GET [''api'', ''jobs''] = Some E_recent" by (simp add: route_of_def reads_def)
    show ?thesis unfolding client_getRecentJobs_def client_call_route [OF assms rt] by (simp add: answer_def)
  qed
  show "aa_lookup a = Io_ok \<Longrightarrow> client_getRecentJobs c probes a base s
      = Inr (JObj [(''jobs'', JArr (map (ap_show_recent c) (listRecentJobs (a_db s))))])"
    unfolding r by (simp add: get_jobs_def request_ok)
  assume "aa_lookup a \<noteq> Io_ok"
  then obtain err where "get_jobs (ap_env c) (ap_show_recent c) a (a_db s) = errorHandler (ap_env c) err"
    by (cases "aa_lookup a") (auto simp: get_jobs_def query_def)
  then show "\<exists>b. client_getRecentJobs c probes a base s = Inl (ApiError 500 b)" unfolding r using request_error by (simp add: Let_def)
qed

lemma getJob_gets:
  assumes "bodiless_pass c" and "parse_id (ap_safeParse c) i = Some i" and "ap_uin c (Some (JStr i)) = Inr (Some i)" and "aa_lookup a = Io_ok"
  shows "client_getJob c probes a base i s = (case find_job (a_db s) i of
      None \<Rightarrow> Inl (ApiError 404 (jerror ''Job not found'' [])) | Some j \<Rightarrow> Inr (ap_show_job c j))"
proof -
  have look: "api_getJobById (ap_uin c) Io_ok (Some (JStr i)) (a_db s) = (Inr (find_job (a_db s) i), a_db s)"
    using assms(3) by (simp add: api_getJobById_def find_job_first)
  have rt: "route_of GET [''api'', ''jobs'', i] = Some (E_job i)" by (simp add: route_of_def reads_def)
  show ?thesis
    unfolding client_getJob_def client_call_route [OF assms(1) rt]
    by (simp add: answer_def get_job_def seen_request_def assms(2,4) look request_def Let_def split: option.splits)
qed

section \<open>Properties\<close>

text \<open>C28. A refresh shows the tables. When the answers to the two requests of \<open>refreshOverview\<close> come in, and no job is selected, the page
  shows exactly the overview: the statistics of the database at the time the first was answered and the recent jobs at the time the second
  was, and no error. If one of the queries failed, what was shown before stays, with the error above it.\<close>

theorem refresh_shows_database:
  assumes "bodiless_pass c" and "n < length (fetching v)" and "fetching v ! n = F_overview" and "\<not> truthy (selectedJobId v)"
    and v': "v' = app_step (Overview_answer n (client_getStats c probes a base s1) (client_getRecentJobs c probes a base s2)) v"
  shows "if aa_stats a = Io_ok \<and> aa_lookup a = Io_ok
    then App_sections v' = [Overview_and_list (stats_json (getStats (a_db s1)))
           (Some (JArr (map (ap_show_recent c) (listRecentJobs (a_db s2)))))]
    else App_sections v' = Global_error ''Unable to load dashboard data. Retrying...''
           # (if js_truthy (av_stats v) then [Overview_and_list (the (av_stats v)) (av_jobs v)] else [])"
proof (cases "aa_stats a = Io_ok \<and> aa_lookup a = Io_ok")
  case True
  then have "client_getStats c probes a base s1 = Inr (stats_json (getStats (a_db s1)))"
    "client_getRecentJobs c probes a base s2 = Inr (JObj [(''jobs'', JArr (map (ap_show_recent c) (listRecentJobs (a_db s2))))])"
    using getStats_gets(1) [OF assms(1)] getRecentJobs_gets(1) [OF assms(1)] by blast+
  then have "av_stats v' = Some (stats_json (getStats (a_db s1)))" "av_jobs v' = Some (JArr (map (ap_show_recent c) (listRecentJobs (a_db s2))))"
    "av_error v' = None" "\<not> loading v'" "selectedJobId v' = selectedJobId v"
    unfolding v' using assms(2,3) by (simp_all add: overview_answered_def js_get_def)
  with True assms(4) show ?thesis by (simp add: App_sections_def js_truthy_def stats_json_def Let_def truthy_def)
next
  case False
  then consider b where "client_getStats c probes a base s1 = Inl (ApiError 500 b)"
    | b where "client_getRecentJobs c probes a base s2 = Inl (ApiError 500 b)"
    using getStats_gets(2) [OF assms(1)] getRecentJobs_gets(2) [OF assms(1)] by blast
  then have "v' = v\<lparr>fetching := without n (fetching v), av_error := Some ''Unable to load dashboard data. Retrying...'', loading := False\<rparr>"
    unfolding v' using assms(2,3)
    by (cases, simp_all add: overview_answered_def Let_def) (cases "client_getStats c probes a base s1"; simp)
  with False assms(4) show ?thesis by (simp add: App_sections_def truthy_def)
qed

lemma sample_bodiless: "bodiless_pass (sample_config\<lparr>ap_json_body := (\<lambda>_. Inr None), ap_show_job := job_json (\<lambda>_. [])\<rparr>)"
  by (simp add: bodiless_pass_def)

theorem refresh_shows_database_witness:
  "\<exists>js. App_sections (app_step (Overview_answer 0
       (client_getStats (sample_config\<lparr>ap_json_body := (\<lambda>_. Inr None), ap_show_job := job_json (\<lambda>_. [])\<rparr>) sample_probes sample_awaits (sample_post ''k'') sample_start)
       (client_getRecentJobs (sample_config\<lparr>ap_json_body := (\<lambda>_. Inr None), ap_show_job := job_json (\<lambda>_. [])\<rparr>) sample_probes sample_awaits (sample_post ''k'') sample_start))
       app_mounted) = [Overview_and_list (stats_json (getStats (sample_db (sample_job QUEUED 0 [])))) js]"
proof -
  have v: "0 < length (fetching app_mounted)" "fetching app_mounted ! 0 = F_overview" "\<not> truthy (selectedJobId app_mounted)"
    by (simp_all add: app_mounted_def refreshOverview_def truthy_def)
  have "aa_stats sample_awaits = Io_ok \<and> aa_lookup sample_awaits = Io_ok" "a_db sample_start = sample_db (sample_job QUEUED 0 [])"
    by (simp_all add: sample_awaits_def sample_state_def)
  with refresh_shows_database [where probes = sample_probes and a = sample_awaits and base = "sample_post ''k''" and ?s1.0 = sample_start and ?s2.0 = sample_start, OF sample_bodiless v refl]
  show ?thesis by simp
qed

text \<open>The detail shows the row. When the answer to the request for the selected job comes in, the page shows the row as the database has
  it, with every column of the interface; if there is no such job the selection is given up.\<close>

lemma detail_shows_row:
  assumes "bodiless_pass c" and "ap_show_job c = job_json date_text" and "parse_id (ap_safeParse c) i = Some i"
    and "ap_uin c (Some (JStr i)) = Inr (Some i)" and "aa_lookup a = Io_ok"
    and "n < length (fetching v)" and "fetching v ! n = F_job i" and "selectedJobId v = Some i" and "i \<noteq> []"
    and v': "v' = app_step (Job_answer n (client_getJob c probes a base i s)) v"
  shows "case find_job (a_db s) i of
      Some j \<Rightarrow> Detail (job_json date_text j) \<in> set (App_sections v') \<and> Loading_job \<notin> set (App_sections v')
    | None \<Rightarrow> selectedJobId v' = None \<and> selectedJob v' = None"
proof -
  note g = getJob_gets [OF assms(1,3-5), of probes base s]
  show ?thesis
  proof (cases "find_job (a_db s) i")
    case None
    with g assms(6,7) show ?thesis by (simp add: v' job_answered_def)
  next
    case (Some j)
    then have "v' = v\<lparr>fetching := without n (fetching v), selectedJob := Some (job_json date_text j)\<rparr>"
      using g assms(2,6,7) by (simp add: v' job_answered_def)
    with Some assms(8,9) show ?thesis by (auto simp: App_sections_def truthy_def js_truthy_def job_json_def)
  qed
qed

end
