(* ===== verification/EndToEnd.thy ===== *)
theory EndToEnd
  imports FairRuns Refresh
begin

text \<open>
  The HTTP surface and the platform together. A request that the Express application handles is at most one step of the platform, the
  creation or the replay of a job; so whatever is shown of all runs of the platform holds with requests as they arrive over HTTP. And
  an accepted creation has its end: in every fair run that follows, the job that was announced to the client reaches its final status, and the client can read it.
\<close>

section \<open>Requests as steps of the platform\<close>

lemma post_jobs_db:
  "a_db (snd (post_jobs e prs a r s)) = a_db s
   \<or> (\<exists>ty pl. a_db (snd (post_jobs e prs a r s)) = snd (createJob (aa_tx a) (aa_new_id a) (aa_new_ev a) (aa_now a) ty pl (a_db s)))"
proof -
  obtain v s1 where a: "admit e a r s = (v, s1)" by fastforce
  with admit_db [OF a] show ?thesis
    by (cases v) (auto simp: post_jobs_def split: option.splits sum.splits prod.splits, (metis snd_conv)+)
qed

lemma post_replay_db:
  "a_db (snd (post_replay e uin prs a r s)) = a_db s
   \<or> (\<exists>i. a_db (snd (post_replay e uin prs a r s)) = snd (claimReplay uin (aa_tx a) (aa_new_ev a) (aa_now a) (Some (JStr i)) (a_db s)))"
proof -
  obtain v s1 where a: "admit e a r s = (v, s1)" by fastforce
  with admit_db [OF a] show ?thesis
    by (cases v) (auto simp: post_replay_def split: option.splits sum.splits prod.splits, (metis snd_conv)+)
qed

lemma request_is_step:
  assumes run: "app_handle c probes a rw s = (resp, s')" and db: "a_db s = s_db z"
    and can: "ap_uin c (Some (JStr (aa_new_id a))) = Inr (Some (aa_new_id a))"
  shows "a_db s' = s_db z \<or> sys_step (ap_uin c) drops z (z\<lparr>s_db := a_db s'\<rparr>)"
  using run
proof (cases rule: app_handle_cases)
  case (route body ep x)
  let ?r = "seen_request (ap_proxyaddr c) rw body"
  from route(4) show ?thesis
  proof (cases rule: answer_posts)
    case create
    from post_jobs_db [of "ap_env c" "parse_create (ap_safeParse c)" a "?r []" s] create(2) db
    consider "a_db s' = s_db z" | ty pl where "a_db s' = snd (createJob (aa_tx a) (aa_new_id a) (aa_new_ev a) (aa_now a) ty pl (s_db z))" by auto
    then show ?thesis
    proof cases
      case (2 ty pl)
      then have "createJob (aa_tx a) (aa_new_id a) (aa_new_ev a) (aa_now a) ty pl (s_db z)
          = (fst (createJob (aa_tx a) (aa_new_id a) (aa_new_ev a) (aa_now a) ty pl (s_db z)), a_db s')" by simp
      from sys_step.create [where uin = "ap_uin c", OF this can] show ?thesis by blast
    qed simp
  next
    case (replay i)
    from post_replay_db [of "ap_env c" "ap_uin c" "parse_id (ap_safeParse c)" a "?r i" s] replay(2) db
    consider "a_db s' = s_db z" | v where "a_db s' = snd (claimReplay (ap_uin c) (aa_tx a) (aa_new_ev a) (aa_now a) (Some (JStr v)) (s_db z))" by auto
    then show ?thesis
    proof cases
      case (2 v)
      then have "claimReplay (ap_uin c) (aa_tx a) (aa_new_ev a) (aa_now a) (Some (JStr v)) (s_db z)
          = (fst (claimReplay (ap_uin c) (aa_tx a) (aa_new_ev a) (aa_now a) (Some (JStr v)) (s_db z)), a_db s')" by simp
      from sys_step.replay [where uin = "ap_uin c", OF this] show ?thesis by blast
    qed simp
  qed (use db in simp)
qed (use db in auto)

text \<open>An answer of 201 comes from the creation route, with a valid body.\<close>

lemma answer_201:
  assumes run: "answer c probes a req ep s = (x, s')" and st: "resp_status x = 201"
  shows "ep = E_create"
proof (cases ep)
  case (E_replay i)
  obtain v s1 where ad: "admit (ap_env c) a (req i) s = (v, s1)" by fastforce
  with E_replay run st admit_status [of "ap_env c" a "req i" s _ s1] show ?thesis
    by (cases v) (auto simp: answer_def post_replay_def errorHandler_def split: option.splits sum.splits prod.splits)
qed (use run st in \<open>auto simp: answer_def health_live_def health_ready_def get_jobs_def get_job_def get_stats_def errorHandler_def Let_def
      split: if_splits prod.splits sum.splits option.splits\<close>)

lemma accepted_creation:
  assumes z: "zod_documented (ap_safeParse c)" and run: "app_handle c probes a rw s = (Some x, s')" and st: "resp_status x = 201"
  obtains ps ty pl where "ap_json_body c rw = Inr (Some (JObj ps))" "js_get ''type'' ps = Some (JStr ty)" "js_get ''payload'' ps = Some (JObj pl)"
    "create_effect (aa_new_id a) (aa_new_ev a) (aa_now a) ty (without_proto pl) (a_db s) (a_db s')"
    "resp_body x = JObj [(''jobId'', JStr (aa_new_id a)), (''status'', JStr ''QUEUED'')]"
  using run
proof (cases rule: app_handle_cases)
  case (route body ep y)
  let ?r = "seen_request (ap_proxyaddr c) rw body []"
  from route(3,4) st answer_201 have "ep = E_create" "y = x" by auto
  with route(4) have p: "post_jobs (ap_env c) (parse_create (ap_safeParse c)) a ?r s = (x, s')" by (simp add: answer_def)
  from post_jobs_answers [OF p] st obtain ty pl where b: "parse_create (ap_safeParse c) body = Inr (ty, pl)"
    and e: "create_effect (aa_new_id a) (aa_new_ev a) (aa_now a) ty pl (a_db s) (a_db s')"
      "resp_body x = JObj [(''jobId'', JStr (aa_new_id a)), (''status'', JStr ''QUEUED'')]" by (auto simp: seen_request_def)
  from b [unfolded create_parsed [OF z]] obtain ps pl' where "body = Some (JObj ps)" "js_get ''type'' ps = Some (JStr ty)"
    "js_get ''payload'' ps = Some (JObj pl')" "pl = without_proto pl'" by blast
  with that [of ps ty pl'] route(1) e show thesis by simp
qed (use st in \<open>auto simp: errorHandler_def\<close>)

section \<open>Properties\<close>

text \<open>C3. The API refines the platform. Whatever request arrives in a reachable state, and whatever fails while it is handled, the database
  afterwards is as it was or as one step of the platform, the creation or the replay of a job, makes it: the state is reachable again,
  so that all invariants of the platform hold after any sequence of HTTP requests among the steps of workers and dispatchers.\<close>

theorem requests_refine_platform:
  assumes "sys_reach (ap_uin c) drops z" and "a_db s = s_db z" and "app_handle c probes a rw s = (resp, s')"
    and "ap_uin c (Some (JStr (aa_new_id a))) = Inr (Some (aa_new_id a))"
  shows "sys_reach (ap_uin c) drops (z\<lparr>s_db := a_db s'\<rparr>)
     \<and> (a_db s' = s_db z \<or> sys_step (ap_uin c) drops z (z\<lparr>s_db := a_db s'\<rparr>))"
  using request_is_step [OF assms(3,2,4), of drops] assms(1) by (auto intro: sys_reach.step)

text \<open>C6. An accepted job has its end. When the API answers a request with 201, in whatever reachable state of the platform, channels lost under living
  workers included, then the body was valid,
  the answer announces a queued job, and in every fair run that follows there is a time at which that job, with the type and payload of
  the request (less a key \<open>__proto__\<close>, which the validation drops), is \<open>COMPLETED\<close> if its processor succeeds and \<open>DEAD_LETTERED\<close> otherwise; a client
  that then asks for the announced identifier
  gets this row. The condition is that the lifetime counter of the row stays below the end of its \<open>INT\<close> column throughout the run.\<close>

theorem accepted_job_finishes:
  assumes "zod_documented (ap_safeParse c)" and "bodiless_pass c"
    and "sys_reach (ap_uin c) drops z" and "a_db s = s_db z" and "app_handle c probes a rw s = (Some x, s')" and "resp_status x = 201"
    and "ap_uin c (Some (JStr (aa_new_id a))) = Inr (Some (aa_new_id a))"
    and "\<sigma> 0 = z\<lparr>s_db := a_db s'\<rparr>" and "fair_run (ap_uin c) \<tau> \<sigma>"
    and "\<forall>n k. find_job (s_db (\<sigma> n)) (aa_new_id a) = Some k \<longrightarrow> total_attempt_count k < int4_max"
  shows "\<exists>ps ty pl n j. ap_json_body c rw = Inr (Some (JObj ps)) \<and> js_get ''type'' ps = Some (JStr ty) \<and> js_get ''payload'' ps = Some (JObj pl)
     \<and> resp_body x = JObj [(''jobId'', JStr (aa_new_id a)), (''status'', JStr ''QUEUED'')]
     \<and> find_job (s_db (\<sigma> n)) (aa_new_id a) = Some j \<and> jtype j = ty \<and> payload j = without_proto pl
     \<and> status j = (if processJob (new_job (aa_new_id a) (aa_now a) ty (without_proto pl)) = None then COMPLETED else DEAD_LETTERED)
     \<and> (\<forall>a' base t. aa_lookup a' = Io_ok \<longrightarrow> parse_id (ap_safeParse c) (aa_new_id a) = Some (aa_new_id a) \<longrightarrow> a_db t = s_db (\<sigma> n) \<longrightarrow>
          client_getJob c probes a' base (aa_new_id a) t = Inr (ap_show_job c j))"
proof -
  let ?u = "aa_new_id a"
  from accepted_creation [OF assms(1,5,6)] obtain ps ty pl where
    b: "ap_json_body c rw = Inr (Some (JObj ps))" "js_get ''type'' ps = Some (JStr ty)" "js_get ''payload'' ps = Some (JObj pl)"
    and e: "create_effect ?u (aa_new_ev a) (aa_now a) ty (without_proto pl) (a_db s) (a_db s')"
    and x: "resp_body x = JObj [(''jobId'', JStr ?u), (''status'', JStr ''QUEUED'')]" .
  let ?j = "new_job ?u (aa_now a) ty (without_proto pl)"
  have r: "sys_reach (ap_uin c) drops (\<sigma> 0)"
    using request_is_step [OF assms(5,4,7), of drops] assms(3,8) by (auto intro: sys_reach.step)
  have f: "find_job (s_db (\<sigma> 0)) ?u = Some ?j" using create_effect_find [OF e] assms(8) by simp
  have w: "waits ?j" "status ?j = QUEUED" by (simp_all add: waits_def new_job_def)
  have "followed (ap_uin c) (\<sigma> 0) ?u"
    using plat_invD(7) [OF sys_reach_inv [OF r]] f w(2) by (simp add: nothing_lost_def waiting_def followed_def)
  from platform_run.waiting_job_ends [OF platform_run.intro [OF r assms(9)] f w(1) this] assms(10) obtain n j where
    n: "find_job (s_db (\<sigma> n)) ?u = Some j" "same_identity ?j j" "status j = (if processJob ?j = None then COMPLETED else DEAD_LETTERED)" by blast
  have j: "payload j = without_proto pl" "jtype j = ty" using n(2) by (simp_all add: same_identity_def new_job_def)
  have "client_getJob c probes a' base ?u t = Inr (ap_show_job c j)"
    if "aa_lookup a' = Io_ok" "parse_id (ap_safeParse c) ?u = Some ?u" "a_db t = s_db (\<sigma> n)" for a' base t
    using getJob_gets [OF assms(2) that(2) assms(7) that(1), of probes base t] that(3) n(1) by simp
  with b x n j show ?thesis by blast
qed

text \<open>The first request to a fresh platform.\<close>

lemma sample_first:
  "\<exists>x s'. app_handle sample_config sample_probes sample_awaits (nginx_forward ''172.18.0.2'' (sample_post ''k'')) (sample_start\<lparr>a_db := s_db sys_init\<rparr>) = (Some x, s')
     \<and> resp_status x = 201 \<and> create_effect ''j2'' ''e2'' 9 ''email'' [] (s_db sys_init) (a_db s')"
  by (rule sample_created) (simp_all add: sys_init_def countPendingOutboxEvents_def)

lemma sample_canonical: "ap_uin sample_config (Some (JStr (aa_new_id sample_awaits))) = Inr (Some (aa_new_id sample_awaits))"
  by (simp add: sample_config_def plain_uin_def)

theorem requests_refine_platform_witness:
  "\<exists>s' :: api_state. sys_reach plain_uin False (sys_init\<lparr>s_db := a_db s'\<rparr>) \<and> find_job (a_db s') ''j2'' \<noteq> None"
proof -
  from sample_first obtain x s' where
    h: "app_handle sample_config sample_probes sample_awaits (nginx_forward ''172.18.0.2'' (sample_post ''k'')) (sample_start\<lparr>a_db := s_db sys_init\<rparr>) = (Some x, s')"
    and e: "create_effect ''j2'' ''e2'' 9 ''email'' [] (s_db sys_init) (a_db s')" by blast
  have "ap_uin sample_config = plain_uin" by (simp add: sample_config_def)
  with requests_refine_platform [OF sys_reach.start _ h sample_canonical, of False] have "sys_reach plain_uin False (sys_init\<lparr>s_db := a_db s'\<rparr>)" by simp
  moreover have "find_job (a_db s') ''j2'' \<noteq> None" using create_effect_find [OF e] by simp
  ultimately show ?thesis by blast
qed

theorem accepted_job_finishes_witness:
  "\<exists>(s' :: api_state) n j. tape_whole_run 0 = sys_init\<lparr>s_db := a_db s'\<rparr> \<and> find_job (s_db (tape_whole_run n)) ''j1'' = Some j \<and> status j = COMPLETED"
proof -
  let ?a = "sample_awaits\<lparr>aa_new_id := ''j1'', aa_new_ev := ''e1'', aa_now := 0\<rparr>"
  let ?rw = "nginx_forward ''172.18.0.2'' (sample_post ''k'')"
  from sample_created_as [of "''j1''" "s_db sys_init" "''e1''" 0] obtain x s' where
    h: "app_handle sample_config sample_probes ?a ?rw (sample_start\<lparr>a_db := s_db sys_init\<rparr>) = (Some x, s')" "resp_status x = 201"
    and e: "create_effect ''j1'' ''e1'' 0 ''email'' [] (s_db sys_init) (a_db s')"
    by (auto simp: sys_init_def countPendingOutboxEvents_def)
  have "a_db s' = \<lparr>jobs = [tape_job], outbox_events = [tape_event]\<rparr>" using e by (cases "a_db s'") (simp add: create_effect_def sys_init_def)
  then have z: "tape_whole_run 0 = sys_init\<lparr>s_db := a_db s'\<rparr>"
    by (simp add: tape_whole_run_def Let_def tape_state_def sys_init_def tape_broker_empty)
  have c: "ap_uin sample_config = plain_uin" "zod_documented (ap_safeParse sample_config)" "bodiless_pass sample_config"
    by (simp_all add: sample_config_def plain_zod_documented bodiless_pass_def)
  have can: "ap_uin sample_config (Some (JStr (aa_new_id ?a))) = Inr (Some (aa_new_id ?a))" by (simp add: c(1) plain_uin_def)
  have body: "ap_json_body sample_config ?rw = Inr (Some (JObj [(''type'', JStr ''email''), (''payload'', JObj [])]))"
    by (simp add: sample_config_def nginx_forward_def sample_post_def)
  have p: "processJob (new_job i t ''email'' []) = None" for i t by (simp add: processJob_def js_get_def new_job_def)
  from accepted_job_finishes [where drops = True, OF c(2,3) sys_reach.start _ h can z tape_whole_fair [folded c(1)]] tape_whole_room obtain ps ty pl n j where
    b: "ap_json_body sample_config ?rw = Inr (Some (JObj ps))" "js_get ''type'' ps = Some (JStr ty)" "js_get ''payload'' ps = Some (JObj pl)"
    and n: "find_job (s_db (tape_whole_run n)) ''j1'' = Some j"
      "status j = (if processJob (new_job ''j1'' 0 ty (without_proto pl)) = None then COMPLETED else DEAD_LETTERED)" by auto
  have "ty = ''email''" "without_proto pl = []" using b body by (auto simp: js_get_def without_proto_def)
  with z n p show ?thesis by auto
qed

end
