(* ===== verification/Connection.thy ===== *)
theory Connection
  imports Broker
begin

text \<open>
  The cached connection of both processes (apps/api/src/queue/connection.ts and
  apps/worker/src/queue/connection.ts): \<open>getChannel\<close>, the \<open>invalidate\<close> closure each attempt registers
  for the events of its connection and its channel, and \<open>closeConnection\<close>.

  An attempt to connect is a number; its connection and its channel carry that number as identity.
  \<open>getChannel\<close> is split at its \<open>await\<close>s: the check of the cache, the failure of an attempt (which
  leaves the cache alone) and the assignment of the new pair after the topology is declared.
\<close>

section \<open>Definitions\<close>

record conn_state =
  connection :: "nat option"
  channel :: "nat option"
  closingIntentionally :: bool
  invalidated_events :: nat

definition conn_init :: conn_state where
  "conn_init = \<lparr>connection = None, channel = None, closingIntentionally = False, invalidated_events = 0\<rparr>"

text \<open>The synchronous beginning: the cached channel, or the start of an attempt.\<close>

definition getChannel_begin :: "conn_state \<Rightarrow> nat option \<times> conn_state" where
  "getChannel_begin s = (case channel s of
      Some c \<Rightarrow> (Some c, s)
    | None \<Rightarrow> (None, s\<lparr>closingIntentionally := False\<rparr>))"

definition getChannel_install :: "nat \<Rightarrow> conn_state \<Rightarrow> conn_state" where
  "getChannel_install n s = s\<lparr>connection := Some n, channel := Some n\<rparr>"

definition invalidate :: "nat \<Rightarrow> conn_state \<Rightarrow> conn_state" where
  "invalidate n s =
     (if connection s \<noteq> Some n \<and> channel s \<noteq> Some n then s
      else if closingIntentionally s then s
      else (let s1 = (if connection s = Some n then s\<lparr>connection := None\<rparr> else s);
                s2 = (if channel s1 = Some n then s1\<lparr>channel := None\<rparr> else s1)
            in s2\<lparr>invalidated_events := invalidated_events s2 + 1\<rparr>))"

definition closeConnection_begin :: "conn_state \<Rightarrow> conn_state" where
  "closeConnection_begin s = s\<lparr>closingIntentionally := True\<rparr>"

definition closeConnection_end :: "conn_state \<Rightarrow> conn_state" where
  "closeConnection_end s = s\<lparr>channel := None, connection := None\<rparr>"

section \<open>Interleavings\<close>

text \<open>Whatever can happen between two \<open>await\<close>s, in any order and from any number of callers.\<close>

datatype conn_op = Get_begin | Get_install nat | Event nat | Close_begin | Close_end

fun conn_op_step :: "conn_op \<Rightarrow> conn_state \<Rightarrow> conn_state" where
  "conn_op_step Get_begin s = snd (getChannel_begin s)"
| "conn_op_step (Get_install n) s = getChannel_install n s"
| "conn_op_step (Event n) s = invalidate n s"
| "conn_op_step Close_begin s = closeConnection_begin s"
| "conn_op_step Close_end s = closeConnection_end s"

definition conn_run :: "conn_op list \<Rightarrow> conn_state" where
  "conn_run ops = fold conn_op_step ops conn_init"

text \<open>Connection and channel in the cache always belong to the same attempt.\<close>

definition paired :: "conn_state \<Rightarrow> bool" where
  "paired s \<longleftrightarrow> connection s = channel s"

lemma paired_step: "paired s \<Longrightarrow> paired (conn_op_step op s)"
  by (cases op) (auto simp: paired_def getChannel_begin_def getChannel_install_def invalidate_def Let_def
      closeConnection_begin_def closeConnection_end_def split: option.splits)

interpretation conn_pairs: machine_invariant conn_op_step "\<lambda>_. True" paired
  by unfold_locales (rule paired_step)

lemma invalidate_stale: "connection s \<noteq> Some n \<Longrightarrow> channel s \<noteq> Some n \<Longrightarrow> invalidate n s = s"
  by (simp add: invalidate_def)

lemma invalidate_current:
  "paired s \<Longrightarrow> channel s = Some n \<Longrightarrow> \<not> closingIntentionally s \<Longrightarrow>
     invalidate n s = s\<lparr>connection := None, channel := None, invalidated_events := invalidated_events s + 1\<rparr>"
  by (simp add: invalidate_def paired_def Let_def)

lemma invalidate_closing: "closingIntentionally s \<Longrightarrow> invalidate n s = s"
  by (simp add: invalidate_def)

section \<open>Properties\<close>

text \<open>A disconnect is noticed exactly once. In every interleaving of callers, events and shutdowns the cached connection and
  channel belong to the same attempt; of all the events its connection and channel fire when they go down, the first
  clears the cache and announces one invalidation and the rest do nothing, after which the next \<open>getChannel\<close> connects
  anew; events of an attempt that has been replaced never touch its successor, and a shutdown announces nothing.\<close>

lemma disconnect_noticed_once:
  fixes ops :: "conn_op list"
  defines "s \<equiv> conn_run ops"
  shows "connection s = channel s
     \<and> (channel s = Some n \<longrightarrow> \<not> closingIntentionally s \<longrightarrow>
          fold conn_op_step (replicate (Suc k) (Event n)) s
            = s\<lparr>connection := None, channel := None, invalidated_events := invalidated_events s + 1\<rparr>
        \<and> fst (getChannel_begin (fold conn_op_step (replicate (Suc k) (Event n)) s)) = None)
     \<and> (channel s \<noteq> Some n \<longrightarrow> invalidate n s = s)
     \<and> invalidated_events (fold conn_op_step [Close_begin, Event n, Event m, Close_end] s) = invalidated_events s"
proof (intro conjI impI)
  have p: "paired s" unfolding s_def conn_run_def by (rule conn_pairs.run_each) (simp_all add: paired_def conn_init_def)
  then show "connection s = channel s" by (simp add: paired_def)
  show "invalidate n s = s" if "channel s \<noteq> Some n" using that p by (simp add: invalidate_stale paired_def)
  show "invalidated_events (fold conn_op_step [Close_begin, Event n, Event m, Close_end] s) = invalidated_events s"
    by (simp add: closeConnection_begin_def closeConnection_end_def invalidate_closing)
  assume c: "channel s = Some n" and o1: "\<not> closingIntentionally s"
  let ?s1 = "s\<lparr>connection := None, channel := None, invalidated_events := invalidated_events s + 1\<rparr>"
  have "fold conn_op_step (replicate k (Event n)) ?s1 = ?s1" by (induction k) (simp_all add: invalidate_stale)
  then show f: "fold conn_op_step (replicate (Suc k) (Event n)) s = ?s1"
    using invalidate_current [OF p c o1] by simp
  show "fst (getChannel_begin (fold conn_op_step (replicate (Suc k) (Event n)) s)) = None"
    unfolding f by (simp add: getChannel_begin_def)
qed

end
