(* ===== verification/ApiProcess.thy ===== *)
theory ApiProcess
  imports ApiHttp Connection LiveUpdates
begin

text \<open>
  The API as a process: its broker connection with the readiness probe (apps/api/src/queue/connection.ts,
  apps/api/src/routes/health.ts) and its start, its two timers and its shutdown (apps/api/src/index.ts,
  \<open>startChangePoller\<close>, \<open>startOutboxDispatcher\<close>).

  The cache of \<open>getChannel\<close> is the one of theory \<open>Connection\<close>; here all its \<open>await\<close>s are spelled out, each
  with its outcome, together with the connections that are open at the broker.
\<close>

section \<open>The broker connection\<close>

record api_broker =
  ab_conn :: conn_state
  ab_open :: "nat list"
  ab_next :: nat
  ab_broker :: broker

record channel_awaits =
  ca_connect :: "js_error option"
  ca_createChannel :: "js_error option"
  ca_assertExchange :: "js_error option"
  ca_assertQueue :: "js_error option"
  ca_bindQueue :: "js_error option"

text \<open>Everything after the check of the cache; \<open>None\<close> is a fulfilled promise.\<close>

definition open_channel :: "channel_awaits \<Rightarrow> api_broker \<Rightarrow> (api_broker, nat) outcome" where
  "open_channel a s = (case ca_connect a of Some e \<Rightarrow> (Inl e, s) | None \<Rightarrow>
     (let n = ab_next s; s1 = s\<lparr>ab_open := n # ab_open s, ab_next := n + 1\<rparr> in
      case ca_createChannel a of Some e \<Rightarrow> (Inl e, s1) | None \<Rightarrow>
     (case ca_assertExchange a of Some e \<Rightarrow> (Inl e, s1) | None \<Rightarrow>
     (let s2 = s1\<lparr>ab_broker := assertExchange EXCHANGE_NAME (ab_broker s1)\<rparr> in
      case ca_assertQueue a of Some e \<Rightarrow> (Inl e, s2) | None \<Rightarrow>
     (let s3 = s2\<lparr>ab_broker := assertQueue QUEUE_NAME None (ab_broker s2)\<rparr> in
      case ca_bindQueue a of Some e \<Rightarrow> (Inl e, s3) | None \<Rightarrow>
        (Inr n, s3\<lparr>ab_broker := bindQueue QUEUE_NAME EXCHANGE_NAME ROUTING_KEY (ab_broker s3),
                   ab_conn := getChannel_install n (ab_conn s3)\<rparr>))))))"

definition api_getChannel :: "channel_awaits \<Rightarrow> api_broker \<Rightarrow> (api_broker, nat) outcome" where
  "api_getChannel a s = (case getChannel_begin (ab_conn s) of
      (Some c, cs) \<Rightarrow> (Inr c, s\<lparr>ab_conn := cs\<rparr>)
    | (None, cs) \<Rightarrow> open_channel a (s\<lparr>ab_conn := cs\<rparr>))"

text \<open>
  The probe. \<open>checkQueue\<close> on a channel whose connection is gone is rejected; on a live one the broker answers
  (\<open>cq\<close>).
\<close>

definition checkRabbitMQHealth :: "channel_awaits \<Rightarrow> js_error option \<Rightarrow> api_broker \<Rightarrow> (api_broker, unit) outcome" where
  "checkRabbitMQHealth a cq s = (case api_getChannel a s of
      (Inl e, s') \<Rightarrow> (Inl e, s')
    | (Inr ch, s') \<Rightarrow>
        (if \<not> List.member (ab_open s') ch then (Inl (JsError ''IllegalOperationError'' ''Channel closed'' None), s')
         else (case cq of Some e \<Rightarrow> (Inl e, s') | None \<Rightarrow> (Inr (), s'))))"

text \<open>\<open>GET /api/health/ready\<close> with the probes it runs.\<close>

definition get_ready :: "io \<Rightarrow> channel_awaits \<Rightarrow> js_error option \<Rightarrow> api_broker \<Rightarrow> http_response \<times> api_broker" where
  "get_ready i a cq s =
     (let postgres = (case i of Io_ok \<Rightarrow> Inr () | Io_fail e \<Rightarrow> Inl e | Io_lost e \<Rightarrow> Inl e);
          (rabbitmq, s') = checkRabbitMQHealth a cq s
      in (health_ready postgres rabbitmq, s'))"

text \<open>The connection of attempt \<open>n\<close> goes down at the broker; its events reach the process later.\<close>

definition broker_lost :: "nat \<Rightarrow> api_broker \<Rightarrow> api_broker" where
  "broker_lost n s = s\<lparr>ab_open := removeAll n (ab_open s)\<rparr>"

definition events_delivered :: "nat \<Rightarrow> api_broker \<Rightarrow> api_broker" where
  "events_delivered n s = s\<lparr>ab_conn := invalidate n (ab_conn s)\<rparr>"

definition fine_channel :: channel_awaits where
  "fine_channel = \<lparr>ca_connect = None, ca_createChannel = None, ca_assertExchange = None, ca_assertQueue = None, ca_bindQueue = None\<rparr>"

section \<open>The process\<close>

text \<open>
  \<open>ap_poller\<close> is the interval of the change poller with its cursor, \<open>ap_dispatcher\<close> tells whether the interval of
  the dispatcher runs, \<open>pollerHandle\<close> whether the handle of the poller has been stored. \<open>ap_sent\<close> collects the
  events given to the broadcaster, \<open>ap_batches\<close> counts the batches started.
\<close>

record aproc =
  ap_listening :: bool
  ap_wss :: bool
  ap_starting :: bool
  ap_poller :: "int option"
  pollerHandle :: bool
  ap_dispatcher :: bool
  ap_batches :: nat
  ap_sent :: "job_updated_event list"
  ap_shuttingDown :: bool
  ap_exited :: "int option"

definition api_loaded :: aproc where
  "api_loaded = \<lparr>ap_listening = True, ap_wss = True, ap_starting = True, ap_poller = None, pollerHandle = False, ap_dispatcher = True,
     ap_batches = 0, ap_sent = [], ap_shuttingDown = False, ap_exited = None\<rparr>"

text \<open>The startup query of the poller settles: the server's time, or an error that is only logged.\<close>

definition poller_started :: "js_error + timestamp \<Rightarrow> aproc \<Rightarrow> aproc" where
  "poller_started r s = (if \<not> ap_starting s then s else case r of
      Inl err \<Rightarrow> s\<lparr>ap_starting := False\<rparr>
    | Inr now \<Rightarrow> s\<lparr>ap_starting := False, ap_poller := Some (getStartupCursor now), pollerHandle := True\<rparr>)"

definition poller_fires :: "io \<Rightarrow> db \<Rightarrow> aproc \<Rightarrow> aproc" where
  "poller_fires i d s = (case ap_poller s of
      None \<Rightarrow> s
    | Some cursor \<Rightarrow> (let (evs, cursor') = poll_tick i cursor d in s\<lparr>ap_poller := Some cursor', ap_sent := ap_sent s @ evs\<rparr>))"

definition dispatcher_fires :: "aproc \<Rightarrow> aproc" where
  "dispatcher_fires s = (if ap_dispatcher s then s\<lparr>ap_batches := ap_batches s + 1\<rparr> else s)"

text \<open>\<open>shutdown\<close> up to \<open>pool.end()\<close>, and after it, whether it was fulfilled or rejected.\<close>

definition api_shutdown_begin :: "aproc \<Rightarrow> aproc" where
  "api_shutdown_begin s = (if ap_shuttingDown s then s
     else s\<lparr>ap_shuttingDown := True, ap_poller := (if pollerHandle s then None else ap_poller s), ap_dispatcher := False,
            ap_wss := False, ap_listening := False\<rparr>)"

definition api_shutdown_end :: "unit result \<Rightarrow> aproc \<Rightarrow> aproc" where
  "api_shutdown_end r s = (if ap_shuttingDown s then s\<lparr>ap_exited := Some 0\<rparr> else s)"

datatype ap_event = Cursor_settles "js_error + timestamp" | Poller_timer io db | Dispatcher_timer | Stop_signal
  | Pool_ended "unit result"

fun ap_apply :: "ap_event \<Rightarrow> aproc \<Rightarrow> aproc" where
  "ap_apply (Cursor_settles r) s = poller_started r s"
| "ap_apply (Poller_timer i d) s = poller_fires i d s"
| "ap_apply Dispatcher_timer s = dispatcher_fires s"
| "ap_apply Stop_signal s = api_shutdown_begin s"
| "ap_apply (Pool_ended r) s = api_shutdown_end r s"

definition ap_step :: "ap_event \<Rightarrow> aproc \<Rightarrow> aproc" where
  "ap_step e s = (if ap_exited s = None then ap_apply e s else s)"

definition ap_run :: "ap_event list \<Rightarrow> aproc" where
  "ap_run evs = fold ap_step evs api_loaded"

section \<open>Facts\<close>

lemmas ab_eval = open_channel_def api_getChannel_def checkRabbitMQHealth_def get_ready_def health_ready_def getChannel_begin_def
  getChannel_install_def fine_channel_def

text \<open>A channel handed out is the one in the cache, and a new one is on an open connection.\<close>

lemma open_channel_ok:
  assumes "open_channel a s = (Inr n, s')"
  shows "channel (ab_conn s') = Some n \<and> n \<in> set (ab_open s') \<and> a = fine_channel
    \<and> ab_broker s' = api_topology (ab_broker s)"
  using assms by (cases a) (auto simp: ab_eval api_topology_def Let_def split: option.splits)

lemma api_getChannel_ok:
  "api_getChannel a s = (Inr n, s') \<Longrightarrow> channel (ab_conn s') = Some n \<and> (channel (ab_conn s) = Some n \<or> a = fine_channel)"
  using open_channel_ok [of a "s\<lparr>ab_conn := snd (getChannel_begin (ab_conn s))\<rparr>" n s']
  by (auto simp: api_getChannel_def getChannel_begin_def split: option.splits)

lemma checkRabbitMQHealth_ok:
  assumes "checkRabbitMQHealth a cq s = (r, s')"
  shows "\<not> isl r \<longleftrightarrow> cq = None \<and> (\<exists>n. channel (ab_conn s') = Some n \<and> n \<in> set (ab_open s'))"
proof -
  obtain g s1 where g: "api_getChannel a s = (g, s1)" by fastforce
  show ?thesis
  proof (cases g)
    case (Inl e)
    then have "channel (ab_conn s1) = None"
      using g by (auto simp: ab_eval Let_def split: option.splits)
    with assms g Inl show ?thesis by (auto simp: checkRabbitMQHealth_def)
  next
    case (Inr n)
    with g have "channel (ab_conn s1) = Some n" using api_getChannel_ok by blast
    with assms g Inr show ?thesis by (auto simp: checkRabbitMQHealth_def split: if_splits option.splits)
  qed
qed

text \<open>An attempt that gets a connection and fails later leaves the connection open and the cache empty.\<close>

lemma failed_attempt:
  assumes "channel (ab_conn s) = None" and "ca_connect a = None" and "a \<noteq> fine_channel"
  defines "s' \<equiv> snd (api_getChannel a s)"
  shows "isl (fst (api_getChannel a s))" "channel (ab_conn s') = None" "ab_open s' = ab_next s # ab_open s" "ab_next s' = Suc (ab_next s)"
  using assms(1-3) unfolding s'_def by (cases a; auto simp: ab_eval Let_def split: option.splits)+

definition ap_ok :: "aproc \<Rightarrow> bool" where
  "ap_ok s \<longleftrightarrow> (ap_exited s = None \<or> ap_exited s = Some 0 \<and> ap_shuttingDown s)
     \<and> (ap_shuttingDown s \<longrightarrow> \<not> ap_listening s \<and> \<not> ap_wss s \<and> \<not> ap_dispatcher s)
     \<and> (\<not> ap_shuttingDown s \<longrightarrow> ap_listening s \<and> ap_wss s \<and> ap_dispatcher s)"

lemmas ap_defs = ap_step_def poller_started_def poller_fires_def dispatcher_fires_def api_shutdown_begin_def api_shutdown_end_def

lemma ap_ok_step: "ap_ok s \<Longrightarrow> ap_ok (ap_step e s)"
  by (cases e) (auto simp: ap_ok_def ap_defs split: prod.splits option.splits sum.splits)

interpretation ap_life: machine_invariant ap_step "\<lambda>_. True" ap_ok
  by unfold_locales (rule ap_ok_step)

lemma ap_ok_run: "ap_ok (ap_run evs)"
  unfolding ap_run_def by (rule ap_life.run_each) (simp_all add: ap_ok_def api_loaded_def)

interpretation ap_stop: machine_invariant ap_step "\<lambda>_. True" "\<lambda>s. ap_ok s \<and> ap_shuttingDown s \<and> ap_batches s = n" for n
proof
  fix s e assume a: "ap_ok s \<and> ap_shuttingDown s \<and> ap_batches s = n"
  then have "ap_shuttingDown (ap_step e s) \<and> ap_batches (ap_step e s) = n"
    by (cases e) (auto simp: ap_ok_def ap_defs split: prod.splits option.splits sum.splits)
  with a ap_ok_step show "ap_ok (ap_step e s) \<and> ap_shuttingDown (ap_step e s) \<and> ap_batches (ap_step e s) = n" by blast
qed

text \<open>A poller that did not start.\<close>

definition updates_off :: "aproc \<Rightarrow> bool" where
  "updates_off s \<longleftrightarrow> \<not> ap_starting s \<and> ap_poller s = None \<and> ap_sent s = []"

interpretation ap_off: machine_invariant ap_step "\<lambda>_. True" updates_off
proof
  show "updates_off s \<Longrightarrow> updates_off (ap_step e s)" for s e by (cases e) (auto simp: updates_off_def ap_defs)
qed

section \<open>Properties\<close>

text \<open>C36. The readiness probe tells the truth. It answers 200 exactly if the database answered, the broker confirmed the queue, and the
  process now holds a channel on an open connection, ready for the dispatcher; otherwise 503. When that connection is lost the probe
  reports it at once, and once the events of the loss have been delivered and the broker is back it reports readiness again.\<close>

theorem readiness_truthful:
  assumes "get_ready i a cq s = (resp, s')"
  shows "(resp_status resp = 200 \<longleftrightarrow> i = Io_ok \<and> cq = None \<and> (\<exists>n. channel (ab_conn s') = Some n \<and> n \<in> set (ab_open s')))
     \<and> (resp_status resp \<noteq> 200 \<longrightarrow> resp_status resp = 503)
     \<and> (resp_status resp = 200 \<longrightarrow> paired (ab_conn s') \<longrightarrow> \<not> closingIntentionally (ab_conn s') \<longrightarrow>
         (\<exists>n. channel (ab_conn s') = Some n
            \<and> resp_status (fst (get_ready Io_ok a' None (broker_lost n s'))) = 503
            \<and> resp_status (fst (get_ready Io_ok fine_channel None (events_delivered n (broker_lost n s')))) = 200))"
proof -
  obtain r where c: "checkRabbitMQHealth a cq s = (r, s')" and resp: "resp = health_ready (case i of Io_ok \<Rightarrow> Inr () | Io_fail e \<Rightarrow> Inl e | Io_lost e \<Rightarrow> Inl e) r"
    using assms by (auto simp: get_ready_def Let_def split: prod.splits)
  have st: "resp_status resp = (if i = Io_ok \<and> \<not> isl r then 200 else 503)"
    unfolding resp by (auto simp: health_ready_def Let_def split: io.splits)
  have lost: "resp_status (fst (get_ready Io_ok a' None (broker_lost n s'))) = 503" if "channel (ab_conn s') = Some n" for n
    using that by (simp add: ab_eval broker_lost_def Let_def)
  have again: "resp_status (fst (get_ready Io_ok fine_channel None (events_delivered n (broker_lost n s')))) = 200"
    if "channel (ab_conn s') = Some n" "paired (ab_conn s')" "\<not> closingIntentionally (ab_conn s')" for n
    using invalidate_current [OF that(2,1,3)] by (simp add: ab_eval broker_lost_def events_delivered_def Let_def)
  show ?thesis using st checkRabbitMQHealth_ok [OF c] lost again by auto
qed

theorem readiness_truthful_witness:
  "let s' = snd (get_ready Io_ok fine_channel None \<lparr>ab_conn = conn_init, ab_open = [], ab_next = 0, ab_broker = empty_broker\<rparr>) in
   resp_status (fst (get_ready Io_ok fine_channel None (broker_lost 0 s'))) = 503"
proof -
  let ?x = "get_ready Io_ok fine_channel None \<lparr>ab_conn = conn_init, ab_open = [], ab_next = 0, ab_broker = empty_broker\<rparr>"
  have e: "channel (ab_conn (snd ?x)) = Some 0" "paired (ab_conn (snd ?x))" "\<not> closingIntentionally (ab_conn (snd ?x))"
    "resp_status (fst ?x) = 200"
    by (simp_all add: ab_eval conn_init_def Let_def paired_def)
  from readiness_truthful [of Io_ok fine_channel None _ "fst ?x" "snd ?x" fine_channel] e show ?thesis by (simp add: Let_def)
qed

text \<open>A connection whose channel or topology cannot be set up is never closed. Each call of \<open>getChannel\<close> that gets a connection and
  fails afterwards leaves one more connection open at the broker, which the cache does not refer to and nothing will ever close.\<close>

lemma connections_leak:
  assumes "channel (ab_conn s) = None" and "ca_connect a = None" and "a \<noteq> fine_channel"
  shows "let s' = ((\<lambda>s. snd (api_getChannel a s)) ^^ k) s in
     isl (fst (api_getChannel a s')) \<and> channel (ab_conn s') = None \<and> length (ab_open s') = length (ab_open s) + k"
proof -
  have "channel (ab_conn (((\<lambda>s. snd (api_getChannel a s)) ^^ k) s)) = None
      \<and> length (ab_open (((\<lambda>s. snd (api_getChannel a s)) ^^ k) s)) = length (ab_open s) + k"
  proof (induction k)
    case (Suc k)
    then show ?case using failed_attempt(2,3) [OF _ assms(2,3)] by simp
  qed (simp add: assms(1))
  with failed_attempt(1) [OF _ assms(2,3)] show ?thesis by (simp add: Let_def)
qed

text \<open>Start and stop of the API. Until a signal comes the process serves, and its dispatcher's timer runs, whatever fails; from the
  signal on it serves nothing and starts no batch, further signals change nothing, and it exits with 0 when the pool has been closed,
  also when closing it failed; it exits in no other way. If the startup query of the poller fails, no event is ever broadcast by this
  process, however healthy the database becomes: nothing starts the poller again.\<close>

lemma api_process_lifecycle:
  fixes evs :: "ap_event list"
  defines "s \<equiv> ap_run evs"
  shows "(\<not> ap_shuttingDown s \<longrightarrow> ap_exited s = None \<and> ap_listening s \<and> ap_dispatcher s)
     \<and> (ap_shuttingDown s \<longrightarrow> \<not> ap_listening s \<and> \<not> ap_wss s \<and> ap_step Stop_signal s = s \<and> ap_batches (fold ap_step es s) = ap_batches s)
     \<and> ap_exited (fold ap_step [Stop_signal, Pool_ended r] s) = Some 0
     \<and> ap_sent (ap_run (Cursor_settles (Inl err) # evs)) = []"
proof (intro conjI impI)
  have ok: "ap_ok s" unfolding s_def by (rule ap_ok_run)
  show "ap_exited s = None" "ap_listening s" "ap_dispatcher s" if "\<not> ap_shuttingDown s" using ok that by (auto simp: ap_ok_def)
  show "\<not> ap_listening s" "\<not> ap_wss s" if "ap_shuttingDown s" using ok that by (auto simp: ap_ok_def)
  show "ap_step Stop_signal s = s" if "ap_shuttingDown s" using that by (simp add: ap_defs)
  show "ap_batches (fold ap_step es s) = ap_batches s" if "ap_shuttingDown s" using ap_stop.run_each [of s "ap_batches s" es] ok that by simp
  show "ap_exited (fold ap_step [Stop_signal, Pool_ended r] s) = Some 0" using ok by (auto simp: ap_ok_def ap_defs)
  have "updates_off (ap_step (Cursor_settles (Inl err)) api_loaded)" by (simp add: updates_off_def ap_defs api_loaded_def)
  from ap_off.run_each [OF this, of evs] show "ap_sent (ap_run (Cursor_settles (Inl err) # evs)) = []"
    by (simp add: ap_run_def updates_off_def)
qed

end
