(* ===== verification/WorkerProcess.thy ===== *)
theory WorkerProcess
  imports Connection
begin

text \<open>
  The worker as a process: start, subscription, reconnection and shutdown (apps/worker/src/index.ts, the
  functions \<open>subscribe\<close>, \<open>resubscribeWithBackoff\<close> and \<open>startConsumer\<close> of apps/worker/src/consumer.ts, on
  the cached connection of apps/worker/src/queue/connection.ts).

  Two tasks may be subscribing: the one of \<open>startConsumer\<close> and the one of \<open>resubscribeWithBackoff\<close>. Both
  proceed from \<open>await\<close> to \<open>await\<close>, in any interleaving with losses of connections, with the channel
  requests of message handlers that publish, and with a shutdown. An attempt to connect is a number, as in
  theory \<open>Connection\<close>; \<open>wp_up\<close> holds the attempts whose connection is alive, \<open>wp_consumers\<close> those with a
  consumer attached.
\<close>

section \<open>Definitions\<close>

datatype sub_pc = Sub_connect nat | Sub_prefetch nat | Sub_consume nat | Sub_sleep

record wproc =
  wp_conn :: conn_state
  wp_up :: "nat list"
  wp_consumers :: "nat list"
  wp_next :: nat
  wp_start :: "sub_pc option"
  wp_loop :: "(sub_pc \<times> int) option"
  wp_pubs :: "nat list"
  reconnecting :: bool
  shuttingDown :: bool
  exited :: "int option"

text \<open>\<open>subscribe\<close> up to its first \<open>await\<close>: the cached channel, or a new attempt.\<close>

definition subscribe_begin :: "wproc \<Rightarrow> sub_pc \<times> wproc" where
  "subscribe_begin s = (case getChannel_begin (wp_conn s) of
      (Some c, cs) \<Rightarrow> (Sub_prefetch c, s\<lparr>wp_conn := cs\<rparr>)
    | (None, cs) \<Rightarrow> (Sub_connect (wp_next s), s\<lparr>wp_conn := cs, wp_next := wp_next s + 1\<rparr>))"

text \<open>
  One \<open>await\<close> of \<open>subscribe\<close> settled: the connection with its topology, \<open>prefetch\<close>, \<open>consume\<close>. A call on a
  channel whose connection is gone is rejected.
\<close>

datatype sub_result = Sub_at sub_pc | Sub_done | Sub_rejected

fun sub_await :: "bool \<Rightarrow> sub_pc \<Rightarrow> wproc \<Rightarrow> sub_result \<times> wproc" where
  "sub_await ok (Sub_connect n) s =
     (if ok then (Sub_at (Sub_prefetch n), s\<lparr>wp_conn := getChannel_install n (wp_conn s), wp_up := n # wp_up s\<rparr>)
      else (Sub_rejected, s))"
| "sub_await ok (Sub_prefetch n) s =
     (if ok \<and> List.member (wp_up s) n then (Sub_at (Sub_consume n), s) else (Sub_rejected, s))"
| "sub_await ok (Sub_consume n) s =
     (if ok \<and> List.member (wp_up s) n then (Sub_done, s\<lparr>wp_consumers := n # wp_consumers s\<rparr>) else (Sub_rejected, s))"
| "sub_await ok Sub_sleep s = (Sub_rejected, s)"

text \<open>The task of \<open>startConsumer\<close>: a rejection reaches the \<open>catch\<close> of index.ts, which exits.\<close>

definition start_await :: "bool \<Rightarrow> wproc \<Rightarrow> wproc" where
  "start_await ok s = (case wp_start s of
      None \<Rightarrow> s
    | Some p \<Rightarrow> (case sub_await ok p s of
          (Sub_at p', s') \<Rightarrow> s'\<lparr>wp_start := Some p'\<rparr>
        | (Sub_done, s') \<Rightarrow> s'\<lparr>wp_start := None\<rparr>
        | (Sub_rejected, s') \<Rightarrow> s'\<lparr>exited := Some 1\<rparr>))"

text \<open>\<open>resubscribeWithBackoff\<close> up to its first \<open>await\<close>, and one \<open>await\<close> of its loop settled.\<close>

definition resubscribe_begin :: "wproc \<Rightarrow> wproc" where
  "resubscribe_begin s =
     (if reconnecting s then s
      else (let (p, s1) = subscribe_begin (s\<lparr>reconnecting := True\<rparr>) in s1\<lparr>wp_loop := Some (p, RECONNECT_BASE_DELAY_MS)\<rparr>))"

definition resubscribe_await :: "bool \<Rightarrow> wproc \<Rightarrow> wproc" where
  "resubscribe_await ok s = (case wp_loop s of
      None \<Rightarrow> s
    | Some (p, delayMs) \<Rightarrow>
        (if p = Sub_sleep
         then (let (p', s1) = subscribe_begin s in s1\<lparr>wp_loop := Some (p', min (delayMs * 2) RECONNECT_MAX_DELAY_MS)\<rparr>)
         else (case sub_await ok p s of
             (Sub_at p', s') \<Rightarrow> s'\<lparr>wp_loop := Some (p', delayMs)\<rparr>
           | (Sub_done, s') \<Rightarrow> s'\<lparr>wp_loop := None, reconnecting := False\<rparr>
           | (Sub_rejected, s') \<Rightarrow> s'\<lparr>wp_loop := Some (Sub_sleep, delayMs)\<rparr>)))"

text \<open>
  The connection of attempt \<open>n\<close> is lost and its events are delivered; \<open>invalidate\<close> announces it or not, and
  the listener for the announcement starts the loop. Loss and delivery are one step here: the moment between them, in which the
  program still takes the dead channel for the cached one, is not modelled.
\<close>

definition connection_lost :: "nat \<Rightarrow> wproc \<Rightarrow> wproc" where
  "connection_lost n s =
     (let cs = invalidate n (wp_conn s);
          s1 = s\<lparr>wp_conn := cs, wp_up := removeAll n (wp_up s), wp_consumers := removeAll n (wp_consumers s)\<rparr>
      in if invalidated_events cs > invalidated_events (wp_conn s) then resubscribe_begin s1 else s1)"

text \<open>\<open>getChannel\<close> as the publishers of a message handler call it.\<close>

definition publisher_begin :: "wproc \<Rightarrow> wproc" where
  "publisher_begin s = (case getChannel_begin (wp_conn s) of
      (Some c, cs) \<Rightarrow> s
    | (None, cs) \<Rightarrow> s\<lparr>wp_conn := cs, wp_pubs := wp_next s # wp_pubs s, wp_next := wp_next s + 1\<rparr>)"

definition publisher_await :: "nat \<Rightarrow> bool \<Rightarrow> wproc \<Rightarrow> wproc" where
  "publisher_await n ok s =
     (if List.member (wp_pubs s) n
      then (let s1 = s\<lparr>wp_pubs := removeAll n (wp_pubs s)\<rparr> in
            if ok then s1\<lparr>wp_conn := getChannel_install n (wp_conn s1), wp_up := n # wp_up s1\<rparr> else s1)
      else s)"

text \<open>A broker that cancels a consumer delivers \<open>null\<close>, on which the handler returns.\<close>

definition consumer_cancelled :: "nat \<Rightarrow> wproc \<Rightarrow> wproc" where
  "consumer_cancelled n s = s\<lparr>wp_consumers := removeAll n (wp_consumers s)\<rparr>"

text \<open>\<open>shutdown\<close> of index.ts; a failing \<open>closeConnection\<close> is caught.\<close>

definition shutdown_begin :: "wproc \<Rightarrow> wproc" where
  "shutdown_begin s = (if shuttingDown s then s
     else s\<lparr>shuttingDown := True, wp_conn := closeConnection_begin (wp_conn s)\<rparr>)"

definition shutdown_await :: "bool \<Rightarrow> wproc \<Rightarrow> wproc" where
  "shutdown_await ok s = (if shuttingDown s
     then s\<lparr>wp_conn := (if ok then closeConnection_end (wp_conn s) else wp_conn s), exited := Some 0\<rparr> else s)"

definition worker_loaded :: wproc where
  "worker_loaded = (let (p, s) = subscribe_begin \<lparr>wp_conn = conn_init, wp_up = [], wp_consumers = [], wp_next = 0, wp_start = None,
       wp_loop = None, wp_pubs = [], reconnecting = False, shuttingDown = False, exited = None\<rparr>
     in s\<lparr>wp_start := Some p\<rparr>)"

text \<open>
  The health server, started before the consumer: it answers every request with 200 and \<open>ok\<close> until the shutdown closes
  it (\<open>None\<close>: the connection is refused).
\<close>

definition startHealthServer :: "wproc \<Rightarrow> (int \<times> string) option" where
  "startHealthServer s = (if shuttingDown s \<or> exited s \<noteq> None then None else Some (200, ''ok''))"

section \<open>Runs\<close>

datatype wp_event = Start_settles bool | Loop_settles bool | Lost nat | Publisher_asks | Publisher_settles nat bool
  | Cancelled nat | Signal | Shutdown_settles bool

fun wp_apply :: "wp_event \<Rightarrow> wproc \<Rightarrow> wproc" where
  "wp_apply (Start_settles ok) s = start_await ok s"
| "wp_apply (Loop_settles ok) s = resubscribe_await ok s"
| "wp_apply (Lost n) s = connection_lost n s"
| "wp_apply Publisher_asks s = publisher_begin s"
| "wp_apply (Publisher_settles n ok) s = publisher_await n ok s"
| "wp_apply (Cancelled n) s = consumer_cancelled n s"
| "wp_apply Signal s = shutdown_begin s"
| "wp_apply (Shutdown_settles ok) s = shutdown_await ok s"

definition wp_step :: "wp_event \<Rightarrow> wproc \<Rightarrow> wproc" where
  "wp_step e s = (if exited s = None then wp_apply e s else s)"

definition wp_run :: "wp_event list \<Rightarrow> wproc" where
  "wp_run evs = fold wp_step evs worker_loaded"

text \<open>
  A calm run: no handler asks for a channel while there is none in the cache, and the broker cancels no
  consumer. Losses of connections, failures of every call and signals are still arbitrary.
\<close>

fun calm_run :: "wp_event list \<Rightarrow> wproc \<Rightarrow> bool" where
  "calm_run [] s \<longleftrightarrow> True"
| "calm_run (e # es) s \<longleftrightarrow>
     (case e of Publisher_asks \<Rightarrow> channel (wp_conn s) \<noteq> None | Cancelled n \<Rightarrow> False | _ \<Rightarrow> True) \<and> calm_run es (wp_step e s)"

section \<open>The worker stays subscribed\<close>

definition listening :: "wproc \<Rightarrow> bool" where
  "listening s \<longleftrightarrow> (case channel (wp_conn s) of None \<Rightarrow> False | Some n \<Rightarrow> n \<in> set (wp_up s) \<and> n \<in> set (wp_consumers s))"

text \<open>
  What the two tasks rely on. A task that waits for its connection runs while the cache is empty; after
  that its channel, while alive, is the cached one; and the start has no channel left once the loop runs.
\<close>

definition delay_ok :: "int \<Rightarrow> bool" where
  "delay_ok d \<longleftrightarrow> RECONNECT_BASE_DELAY_MS \<le> d \<and> d \<le> RECONNECT_MAX_DELAY_MS"

fun loop_knows :: "(sub_pc \<times> int) option \<Rightarrow> nat option \<Rightarrow> nat list \<Rightarrow> nat \<Rightarrow> bool" where
  "loop_knows None ch up nx \<longleftrightarrow> True"
| "loop_knows (Some (Sub_connect n, d)) ch up nx \<longleftrightarrow> delay_ok d \<and> ch = None \<and> n < nx"
| "loop_knows (Some (Sub_prefetch n, d)) ch up nx \<longleftrightarrow> delay_ok d \<and> (n \<in> set up \<longrightarrow> ch = Some n)"
| "loop_knows (Some (Sub_consume n, d)) ch up nx \<longleftrightarrow> delay_ok d \<and> (n \<in> set up \<longrightarrow> ch = Some n)"
| "loop_knows (Some (Sub_sleep, d)) ch up nx \<longleftrightarrow> delay_ok d"

fun start_alone :: "sub_pc option \<Rightarrow> nat option \<Rightarrow> nat list \<Rightarrow> nat \<Rightarrow> bool" where
  "start_alone None ch up nx \<longleftrightarrow> True"
| "start_alone (Some (Sub_connect n)) ch up nx \<longleftrightarrow> ch = None \<and> n < nx"
| "start_alone (Some (Sub_prefetch n)) ch up nx \<longleftrightarrow> n < nx \<and> (n \<in> set up \<longrightarrow> ch = Some n)"
| "start_alone (Some (Sub_consume n)) ch up nx \<longleftrightarrow> n < nx \<and> (n \<in> set up \<longrightarrow> ch = Some n)"
| "start_alone (Some Sub_sleep) ch up nx \<longleftrightarrow> False"

definition start_hopeless :: "sub_pc option \<Rightarrow> sub_pc \<Rightarrow> nat list \<Rightarrow> nat \<Rightarrow> bool" where
  "start_hopeless st p up nx \<longleftrightarrow> (case st of
      None \<Rightarrow> True
    | Some (Sub_prefetch n) \<Rightarrow> n \<notin> set up \<and> n < nx \<and> p \<noteq> Sub_connect n
    | Some (Sub_consume n) \<Rightarrow> n \<notin> set up \<and> n < nx \<and> p \<noteq> Sub_connect n
    | _ \<Rightarrow> False)"

definition start_knows :: "sub_pc option \<Rightarrow> (sub_pc \<times> int) option \<Rightarrow> nat option \<Rightarrow> nat list \<Rightarrow> nat \<Rightarrow> bool" where
  "start_knows st lp ch up nx \<longleftrightarrow> (case lp of None \<Rightarrow> start_alone st ch up nx | Some (p, d) \<Rightarrow> start_hopeless st p up nx)"

definition wp_ok :: "wproc \<Rightarrow> bool" where
  "wp_ok s \<longleftrightarrow> paired (wp_conn s) \<and> \<not> closingIntentionally (wp_conn s) \<and> wp_pubs s = []
     \<and> (reconnecting s \<longleftrightarrow> wp_loop s \<noteq> None)
     \<and> (\<forall>n. channel (wp_conn s) = Some n \<longrightarrow> n \<in> set (wp_up s) \<and> n < wp_next s)
     \<and> (wp_start s = None \<longrightarrow> wp_loop s = None \<longrightarrow> listening s)
     \<and> loop_knows (wp_loop s) (channel (wp_conn s)) (wp_up s) (wp_next s)
     \<and> start_knows (wp_start s) (wp_loop s) (channel (wp_conn s)) (wp_up s) (wp_next s)"

lemma wp_ok_loaded: "wp_ok worker_loaded"
  by (simp add: wp_ok_def worker_loaded_def subscribe_begin_def getChannel_begin_def conn_init_def paired_def start_knows_def)

lemma subscribe_begin_eq:
  assumes "\<not> closingIntentionally (wp_conn s)"
  shows "subscribe_begin s = (case channel (wp_conn s) of
     Some c \<Rightarrow> (Sub_prefetch c, s) | None \<Rightarrow> (Sub_connect (wp_next s), s\<lparr>wp_next := wp_next s + 1\<rparr>))"
proof -
  have "(wp_conn s)\<lparr>closingIntentionally := False\<rparr> = wp_conn s" using assms by simp
  then show ?thesis by (simp add: subscribe_begin_def getChannel_begin_def split: option.split)
qed

lemma delay_ok_simps [simp]:
  "delay_ok RECONNECT_BASE_DELAY_MS"
  "delay_ok d \<Longrightarrow> delay_ok (min (d * 2) RECONNECT_MAX_DELAY_MS)"
  by (simp_all add: delay_ok_def RECONNECT_BASE_DELAY_MS_def RECONNECT_MAX_DELAY_MS_def)

text \<open>What keeps the start hopeless.\<close>

lemma hopeless_keep:
  "start_hopeless st p up nx \<Longrightarrow> (\<And>n. p' \<noteq> Sub_connect n) \<Longrightarrow> start_hopeless st p' up nx"
  "start_hopeless st p up nx \<Longrightarrow> start_hopeless st (Sub_connect nx) up (Suc nx)"
  "start_hopeless st (Sub_connect m) up nx \<Longrightarrow> (\<And>n. p' \<noteq> Sub_connect n) \<Longrightarrow> start_hopeless st p' (m # up) nx"
  "start_hopeless st p up nx \<Longrightarrow> start_hopeless st p (removeAll k up) nx"
  by (auto simp: start_hopeless_def split: option.splits sub_pc.splits)

lemma start_await_ok:
  assumes "wp_ok s" and "exited (start_await ok s) = None"
  shows "wp_ok (start_await ok s)"
proof (cases "wp_start s")
  case None
  with assms show ?thesis by (simp add: start_await_def)
next
  case (Some p)
  show ?thesis
  proof (cases "wp_loop s")
    case None
    with Some assms show ?thesis
      by (cases p) (auto simp: start_await_def wp_ok_def start_knows_def getChannel_install_def paired_def listening_def
          split: if_splits)
  next
    case l: (Some pd)
    with Some assms show ?thesis
      by (cases p) (auto simp: start_await_def wp_ok_def start_knows_def start_hopeless_def split: if_splits)
  qed
qed

lemma resubscribe_await_ok:
  assumes "wp_ok s"
  shows "wp_ok (resubscribe_await ok s)"
proof (cases "wp_loop s")
  case None
  with assms show ?thesis by (simp add: resubscribe_await_def)
next
  case (Some pd)
  obtain p d where pd: "pd = (p, d)" by fastforce
  show ?thesis
  proof (cases p)
    case (Sub_connect n)
    with assms Some pd show ?thesis
      by (auto simp: resubscribe_await_def wp_ok_def start_knows_def getChannel_install_def paired_def intro: hopeless_keep)
  next
    case (Sub_prefetch n)
    with assms Some pd show ?thesis
      by (auto simp: resubscribe_await_def wp_ok_def start_knows_def intro: hopeless_keep)
  next
    case (Sub_consume n)
    with assms Some pd show ?thesis
      by (cases "wp_start s")
        (auto simp: resubscribe_await_def wp_ok_def start_knows_def listening_def start_hopeless_def split: sub_pc.splits)
  next
    case Sub_sleep
    with assms Some pd show ?thesis
      by (cases "channel (wp_conn s)")
        (auto simp: resubscribe_await_def subscribe_begin_eq wp_ok_def start_knows_def listening_def intro: hopeless_keep)
  qed
qed

lemma connection_lost_ok:
  assumes "wp_ok s"
  shows "wp_ok (connection_lost n s)"
proof (cases "channel (wp_conn s) = Some n")
  case False
  then have i: "invalidate n (wp_conn s) = wp_conn s"
    using assms by (intro invalidate_stale) (auto simp: wp_ok_def paired_def)
  have k: "loop_knows lp ch (removeAll n up) nx" if "loop_knows lp ch up nx" for lp ch up nx
    using that by (cases "(lp, ch, up, nx)" rule: loop_knows.cases) auto
  have a: "start_alone st ch (removeAll n up) nx" if "start_alone st ch up nx" for st ch up nx
    using that by (cases "(st, ch, up, nx)" rule: start_alone.cases) auto
  from assms False i show ?thesis
    by (cases "wp_loop s") (auto simp: connection_lost_def wp_ok_def start_knows_def listening_def intro: k a hopeless_keep split: option.splits)
next
  case True
  let ?cs = "(wp_conn s)\<lparr>connection := None, channel := None, invalidated_events := invalidated_events (wp_conn s) + 1\<rparr>"
  let ?s1 = "s\<lparr>wp_conn := ?cs, wp_up := removeAll n (wp_up s), wp_consumers := removeAll n (wp_consumers s)\<rparr>"
  have "invalidate n (wp_conn s) = ?cs" using assms True by (intro invalidate_current) (auto simp: wp_ok_def)
  then have l: "connection_lost n s = resubscribe_begin ?s1" by (simp add: connection_lost_def)
  show ?thesis
  proof (cases "wp_loop s")
    case (Some pd)
    obtain p d where pd: "pd = (p, d)" by fastforce
    with l Some assms have "connection_lost n s = ?s1" by (simp add: resubscribe_begin_def wp_ok_def)
    with assms True Some pd show ?thesis
      by (cases p) (auto simp: wp_ok_def start_knows_def paired_def intro: hopeless_keep)
  next
    case None
    have "start_hopeless (wp_start s) (Sub_connect (wp_next s)) (removeAll n (wp_up s)) (Suc (wp_next s))"
      using assms True None by (cases "wp_start s") (auto simp: wp_ok_def start_knows_def start_hopeless_def split: sub_pc.splits)
    with l None assms show ?thesis
      by (simp add: resubscribe_begin_def subscribe_begin_eq wp_ok_def start_knows_def paired_def)
  qed
qed

section \<open>Runs keep the invariant\<close>

text \<open>Once a signal has come, nothing is claimed any more.\<close>

definition wp_alive :: "wproc \<Rightarrow> bool" where
  "wp_alive s \<longleftrightarrow> exited s = None \<and> \<not> shuttingDown s"

lemma flags_kept:
  "shuttingDown (start_await ok s) = shuttingDown s" "shuttingDown (resubscribe_await ok s) = shuttingDown s"
  "shuttingDown (connection_lost n s) = shuttingDown s" "shuttingDown (publisher_begin s) = shuttingDown s"
  "shuttingDown (publisher_await n ok s) = shuttingDown s" "shuttingDown (consumer_cancelled n s) = shuttingDown s"
proof -
  have sub: "shuttingDown (snd (subscribe_begin s)) = shuttingDown s" for s
    by (simp add: subscribe_begin_def split: prod.splits option.splits)
  have aw: "shuttingDown (snd (sub_await ok p s)) = shuttingDown s" for p s
    by (cases p) simp_all
  show "shuttingDown (start_await ok s) = shuttingDown s"
    by (simp add: start_await_def case_prod_unfold aw split: option.split sub_result.split)
  show "shuttingDown (resubscribe_await ok s) = shuttingDown s"
    by (simp add: resubscribe_await_def case_prod_unfold Let_def aw sub split: option.split sub_result.split)
  show "shuttingDown (connection_lost n s) = shuttingDown s"
    by (simp add: connection_lost_def resubscribe_begin_def Let_def case_prod_unfold sub)
qed (simp_all add: publisher_begin_def publisher_await_def consumer_cancelled_def Let_def split: prod.splits option.splits)

lemma wp_step_ok:
  assumes "wp_alive s \<longrightarrow> wp_ok s" and "calm_run [e] s"
  shows "wp_alive (wp_step e s) \<longrightarrow> wp_ok (wp_step e s)"
proof
  assume alive: "wp_alive (wp_step e s)"
  have x: "exited s = None" using alive by (auto simp: wp_alive_def wp_step_def split: if_splits)
  then have st: "wp_step e s = wp_apply e s" by (simp add: wp_step_def)
  show "wp_ok (wp_step e s)"
  proof (cases "shuttingDown s")
    case True
    then have "shuttingDown (wp_apply e s)" by (cases e) (simp_all add: flags_kept shutdown_begin_def shutdown_await_def)
    with alive st show ?thesis by (simp add: wp_alive_def)
  next
    case False
    with x assms(1) have ok: "wp_ok s" by (simp add: wp_alive_def)
    from alive st have a: "exited (wp_apply e s) = None" "\<not> shuttingDown (wp_apply e s)" by (simp_all add: wp_alive_def)
    show ?thesis
    proof (cases e)
      case (Start_settles b)
      with start_await_ok [OF ok] a st show ?thesis by simp
    next
      case (Loop_settles b)
      with resubscribe_await_ok [OF ok] st show ?thesis by simp
    next
      case (Lost n)
      with connection_lost_ok [OF ok] st show ?thesis by simp
    next
      case Publisher_asks
      with assms(2) ok st show ?thesis by (auto simp: publisher_begin_def getChannel_begin_def)
    next
      case (Publisher_settles n b)
      with ok st show ?thesis by (simp add: publisher_await_def wp_ok_def)
    next
      case (Cancelled n)
      with assms(2) show ?thesis by simp
    next
      case Signal
      with a False show ?thesis by (simp add: shutdown_begin_def)
    next
      case (Shutdown_settles b)
      with False ok st show ?thesis by (simp add: shutdown_await_def)
    qed
  qed
qed

lemma wp_fold_ok: "wp_alive s \<longrightarrow> wp_ok s \<Longrightarrow> calm_run es s \<Longrightarrow> wp_alive (fold wp_step es s) \<longrightarrow> wp_ok (fold wp_step es s)"
proof (induction es arbitrary: s)
  case Nil
  then show ?case by simp
next
  case (Cons e es)
  have "calm_run [e] s" "calm_run es (wp_step e s)" using Cons.prems(2) by auto
  with Cons.IH [OF wp_step_ok [OF Cons.prems(1)]] show ?case by simp
qed

text \<open>How the process ends.\<close>

definition ended_well :: "wproc \<Rightarrow> bool" where
  "ended_well s \<longleftrightarrow> (\<forall>c. exited s = Some c \<longrightarrow> c = 0 \<and> shuttingDown s \<or> c = 1 \<and> wp_start s \<noteq> None)"

lemma exited_kept:
  "exited (snd (subscribe_begin s)) = exited s" "exited (snd (sub_await ok p s)) = exited s"
  by (simp_all add: subscribe_begin_def split: prod.split option.split) (cases p, simp_all)

lemma ended_well_step:
  assumes "ended_well s"
  shows "ended_well (wp_step e s)"
proof (cases "exited s")
  case (Some c)
  with assms show ?thesis by (simp add: wp_step_def)
next
  case None
  show ?thesis
  proof (cases e)
    case (Start_settles ok)
    have "wp_start (snd (sub_await ok p s)) = wp_start s" for p by (cases p) simp_all
    with None Start_settles show ?thesis
      by (simp add: wp_step_def ended_well_def start_await_def case_prod_unfold exited_kept split: option.split sub_result.split)
  qed (use None in \<open>simp_all add: wp_step_def ended_well_def resubscribe_await_def connection_lost_def resubscribe_begin_def
      publisher_begin_def publisher_await_def consumer_cancelled_def shutdown_begin_def shutdown_await_def case_prod_unfold Let_def
      exited_kept split: option.split sub_result.split\<close>)
qed

interpretation wp_ends: machine_invariant wp_step "\<lambda>_. True" ended_well
  by unfold_locales (rule ended_well_step)

lemma exit_codes: "ended_well (wp_run evs)"
  unfolding wp_run_def by (rule wp_ends.run_each)
    (simp_all add: ended_well_def worker_loaded_def subscribe_begin_def getChannel_begin_def conn_init_def)

section \<open>Properties\<close>


lemmas wp_eval = wp_run_def wp_step_def worker_loaded_def subscribe_begin_def getChannel_begin_def conn_init_def start_await_def
  resubscribe_await_def resubscribe_begin_def connection_lost_def publisher_begin_def publisher_await_def getChannel_install_def
  invalidate_def Let_def


section \<open>A worker that does not listen\<close>

text \<open>Nobody is subscribing and nothing is attached, while the cached channel is healthy.\<close>

definition deaf :: "wproc \<Rightarrow> bool" where
  "deaf s \<longleftrightarrow> exited s = None \<and> \<not> shuttingDown s \<and> wp_start s = None \<and> wp_loop s = None \<and> \<not> reconnecting s
     \<and> wp_consumers s = [] \<and> wp_pubs s = [] \<and> (\<exists>n. channel (wp_conn s) = Some n \<and> connection (wp_conn s) = Some n \<and> n \<in> set (wp_up s))"

text \<open>Events that do not take the cached connection down and do not stop the process.\<close>

definition undisturbed :: "nat \<Rightarrow> wp_event \<Rightarrow> bool" where
  "undisturbed n e \<longleftrightarrow> e \<noteq> Lost n \<and> e \<noteq> Signal"

lemma deaf_step:
  assumes "deaf s" and "channel (wp_conn s) = Some n" and "undisturbed n e"
  shows "deaf (wp_step e s) \<and> channel (wp_conn (wp_step e s)) = Some n"
  using assms
proof (cases e)
  case (Lost m)
  with assms have "invalidate m (wp_conn s) = wp_conn s" by (intro invalidate_stale) (auto simp: deaf_def undisturbed_def)
  with assms Lost show ?thesis by (auto simp: wp_step_def connection_lost_def deaf_def undisturbed_def)
qed (auto simp: wp_step_def deaf_def undisturbed_def start_await_def resubscribe_await_def publisher_begin_def getChannel_begin_def
    publisher_await_def consumer_cancelled_def shutdown_await_def)

interpretation wp_deaf: machine_invariant wp_step "undisturbed n" "\<lambda>s. deaf s \<and> channel (wp_conn s) = Some n" for n
  by unfold_locales (use deaf_step in blast)

text \<open>A worker can go deaf. A handler that publishes while the connection is down opens a connection of its own beside the one of
  the resubscription loop; if it is installed last, the consumer hangs on a connection that is not the cached one, and when
  that connection is lost its events are taken for stale ones: no announcement, no loop. The process lives on with a
  healthy cached channel and without a consumer, its health server answers 200, and as long as that channel stays healthy
  nothing will ever make it subscribe again.\<close>

lemma worker_goes_deaf:
  "\<exists>evs. set evs \<subseteq> {Start_settles True, Loop_settles True, Publisher_asks, Publisher_settles 2 True, Lost 0, Lost 1}
     \<and> deaf (wp_run evs) \<and> channel (wp_conn (wp_run evs)) = Some 2
     \<and> (\<forall>es. list_all (undisturbed 2) es \<longrightarrow> deaf (fold wp_step es (wp_run evs))
           \<and> startHealthServer (fold wp_step es (wp_run evs)) = Some (200, ''ok''))"
proof -
  let ?evs = "[Start_settles True, Start_settles True, Start_settles True, Lost 0, Publisher_asks, Loop_settles True,
    Publisher_settles 2 True, Loop_settles True, Loop_settles True, Lost 1]"
  have d: "deaf (wp_run ?evs)" "channel (wp_conn (wp_run ?evs)) = Some 2"
    by (simp_all add: wp_eval deaf_def)
  have h: "deaf s \<Longrightarrow> startHealthServer s = Some (200, ''ok'')" for s by (simp add: deaf_def startHealthServer_def)
  show ?thesis using d wp_deaf.run [of "wp_run ?evs" 2] h by (intro exI [of _ ?evs]) simp
qed

end
