(* ===== verification/Fleet.thy ===== *)
theory Fleet
  imports WorkerProcess Stranded
begin

text \<open>
  The platform with its worker processes. In \<open>Platform\<close> a worker is a slot for one delivery, a channel is
  attached to it or not, and \<open>ack\<close> and \<open>nack\<close> are assumed to throw exactly on a lost channel. Here the
  slots belong to processes as \<open>WorkerProcess\<close> describes them, with their connections, consumers and subscribing tasks: a
  message is delivered over a consumer on a live connection, \<open>ack\<close> and \<open>nack\<close> throw when the connection of the delivery is
  gone, the broker puts back what a lost connection or an ended process leaves behind, an unhandled rejection
  ends the whole process, and an ended process is started anew. A process can have handlers of several connections at
  once: those of lost connections, which nobody stops, and those of the connection it listens on. They share the
  process's counter of failed queries, which decides how long a handler pauses and nothing else.
\<close>

section \<open>Attempts to connect are numbered once\<close>

definition subscribing :: "sub_pc option \<Rightarrow> (sub_pc \<times> int) option \<Rightarrow> nat list" where
  "subscribing st lp = (case st of Some (Sub_connect n) \<Rightarrow> [n] | _ \<Rightarrow> []) @ (case lp of Some (Sub_connect n, d) \<Rightarrow> [n] | _ \<Rightarrow> [])"

definition attempts_under_way :: "wproc \<Rightarrow> nat list" where
  "attempts_under_way s = subscribing (wp_start s) (wp_loop s) @ wp_pubs s"

definition numbered :: "wproc \<Rightarrow> bool" where
  "numbered s \<longleftrightarrow> distinct (attempts_under_way s)
     \<and> (\<forall>n \<in> set (attempts_under_way s). n < wp_next s \<and> n \<notin> set (wp_up s)) \<and> (\<forall>n \<in> set (wp_up s). n < wp_next s)"

text \<open>The attempt has been made: its connection is up, or will never be again.\<close>

definition spent :: "nat \<Rightarrow> wproc \<Rightarrow> bool" where
  "spent n s \<longleftrightarrow> n < wp_next s \<and> n \<notin> set (attempts_under_way s)"

lemma numbered_up: "numbered s \<Longrightarrow> n \<in> set (wp_up s) \<Longrightarrow> spent n s"
  by (auto simp: numbered_def spent_def)

lemma numbered_loaded: "numbered worker_loaded"
  by (simp add: numbered_def attempts_under_way_def subscribing_def worker_loaded_def subscribe_begin_def getChannel_begin_def conn_init_def)

text \<open>What every event of a process keeps: numbers are given out once, and a connection that is gone stays gone.\<close>

definition keeps_numbers :: "wproc \<Rightarrow> wproc \<Rightarrow> bool" where
  "keeps_numbers s s' \<longleftrightarrow> (numbered s \<longrightarrow> numbered s' \<and> (\<forall>n. spent n s \<longrightarrow> spent n s' \<and> (n \<in> set (wp_up s') \<longrightarrow> n \<in> set (wp_up s))))"

lemmas publisher_defs = keeps_numbers_def numbered_def spent_def attempts_under_way_def
lemmas number_defs = publisher_defs subscribing_def

lemma keeps_numbers_same:
  "attempts_under_way s' = attempts_under_way s \<Longrightarrow> wp_next s' = wp_next s \<Longrightarrow> set (wp_up s') \<subseteq> set (wp_up s) \<Longrightarrow> keeps_numbers s s'"
  by (auto simp: keeps_numbers_def numbered_def spent_def)

lemma keeps_numbers_trans: "keeps_numbers s s' \<Longrightarrow> keeps_numbers s' s'' \<Longrightarrow> keeps_numbers s s''"
  by (auto simp: keeps_numbers_def)

lemma resubscribe_begin_numbers: "keeps_numbers s (resubscribe_begin s)"
  by (auto simp: resubscribe_begin_def subscribe_begin_def getChannel_begin_def number_defs split: option.splits sub_pc.splits prod.splits)

lemma start_await_numbers: "keeps_numbers s (start_await ok s)"
proof (cases "wp_start s")
  case (Some p)
  then show ?thesis by (cases p) (auto simp: start_await_def number_defs split: option.splits sub_pc.splits prod.splits)
qed (auto simp: start_await_def intro: keeps_numbers_same)

lemma resubscribe_await_numbers: "keeps_numbers s (resubscribe_await ok s)"
proof (cases "wp_loop s")
  case (Some pd)
  obtain p d where pd: "pd = (p, d)" by fastforce
  with Some show ?thesis
    by (cases p) (auto simp: resubscribe_await_def subscribe_begin_def getChannel_begin_def number_defs split: option.splits sub_pc.splits prod.splits)
qed (auto simp: resubscribe_await_def intro: keeps_numbers_same)

lemma connection_lost_numbers: "keeps_numbers s (connection_lost k s)"
proof -
  let ?s1 = "s\<lparr>wp_conn := invalidate k (wp_conn s), wp_up := removeAll k (wp_up s), wp_consumers := removeAll k (wp_consumers s)\<rparr>"
  have "keeps_numbers s ?s1" by (rule keeps_numbers_same) (auto simp: attempts_under_way_def)
  with keeps_numbers_trans [OF this resubscribe_begin_numbers] show ?thesis by (simp add: connection_lost_def Let_def)
qed

lemma publisher_numbers: "keeps_numbers s (publisher_begin s)" "keeps_numbers s (publisher_await k ok s)"
  by (auto simp: publisher_begin_def publisher_await_def getChannel_begin_def publisher_defs Let_def distinct_removeAll split: option.splits intro: less_SucI)

lemma wp_step_numbers: "keeps_numbers s (wp_step e s)"
proof (cases e)
  case (Cancelled n)
  then show ?thesis by (auto simp: wp_step_def consumer_cancelled_def attempts_under_way_def intro!: keeps_numbers_same)
next
  case Signal
  then show ?thesis by (auto simp: wp_step_def shutdown_begin_def attempts_under_way_def intro!: keeps_numbers_same)
next
  case (Shutdown_settles ok)
  then show ?thesis by (auto simp: wp_step_def shutdown_await_def attempts_under_way_def intro!: keeps_numbers_same)
qed (simp_all add: wp_step_def start_await_numbers resubscribe_await_numbers connection_lost_numbers publisher_numbers keeps_numbers_same)

section \<open>The fleet\<close>

text \<open>\<open>f_via\<close> gives the process and the connection of the delivery in a slot, \<open>f_errors\<close> the module variable \<open>dbErrorCount\<close> of a
  process. The counters that \<open>Platform\<close> keeps for its slots are not used here.\<close>

record fleet =
  f_sys :: sys
  f_proc :: "nat \<Rightarrow> wproc"
  f_errors :: "nat \<Rightarrow> int"
  f_via :: "nat \<Rightarrow> nat \<times> nat"

definition proc_of :: "fleet \<Rightarrow> nat \<Rightarrow> wproc" where
  "proc_of s w = f_proc s (fst (f_via s w))"

definition linked :: "fleet \<Rightarrow> nat \<Rightarrow> bool" where
  "linked s w \<longleftrightarrow> snd (f_via s w) \<in> set (wp_up (proc_of s w))"

text \<open>An unhandled rejection ends the process.\<close>

definition after_handler :: "pc \<Rightarrow> wproc \<Rightarrow> wproc" where
  "after_handler p x = (case p of Finished (Crashed e) \<Rightarrow> x\<lparr>exited := Some 1\<rparr> | _ \<Rightarrow> x)"

text \<open>What the broker and the operating system do about one slot: the delivery of an ended process is put back and its handler gone,
  that of a lost connection is put back under a handler that goes on.\<close>

definition abandoned :: "fleet \<Rightarrow> nat \<Rightarrow> bool" where
  "abandoned s w \<longleftrightarrow> (case s_active (f_sys s) w of None \<Rightarrow> False
     | Some dl \<Rightarrow> exited (proc_of s w) \<noteq> None \<or> dl_attached dl \<and> \<not> linked s w)"

definition reap_slot :: "nat \<Rightarrow> fleet \<Rightarrow> fleet" where
  "reap_slot w s = (case s_active (f_sys s) w of None \<Rightarrow> s
     | Some dl \<Rightarrow> (if exited (proc_of s w) \<noteq> None
         then s\<lparr>f_sys := settle w (dl_message dl) (dl_attached dl) (Finished (Crashed (ThrownValue ''exit''))) (f_sys s)\<rparr>
         else if dl_attached dl \<and> \<not> linked s w
         then s\<lparr>f_sys := (f_sys s)\<lparr>s_active := (s_active (f_sys s))(w \<mapsto> dl\<lparr>dl_attached := False\<rparr>),
           s_broker := requeue (dl_message dl) (s_broker (f_sys s))\<rparr>\<rparr>
         else s))"

text \<open>The state a handler of a process works on, and what its step leaves.\<close>

definition process_view :: "nat \<Rightarrow> fleet \<Rightarrow> worker_state" where
  "process_view p s = \<lparr>ws_db = s_db (f_sys s), ws_broker = s_broker (f_sys s), dbErrorCount = f_errors s p\<rparr>"

definition tables_commit :: "worker_state \<Rightarrow> sys \<Rightarrow> sys" where
  "tables_commit x s = s\<lparr>s_db := ws_db x, s_broker := ws_broker x\<rparr>"

text \<open>
  The steps before the reaping. Requests, the dispatcher and the expiry of delays are those of the platform. A message is received over a consumer on
  a live connection of a living process; a handler acts whatever became of its connection. How many deliveries a consumer has at once
  is left open: \<open>channel.prefetch(1)\<close> allows one, and what holds of any number holds of one.
\<close>

inductive fleet_act :: "uuid_input \<Rightarrow> fleet \<Rightarrow> fleet \<Rightarrow> bool" for uin where
  requested: "createJob t new_id new_ev now ty pl (s_db (f_sys s)) = (r, d) \<Longrightarrow> uin (Some (JStr new_id)) = Inr (Some new_id) \<Longrightarrow>
     fleet_act uin s (s\<lparr>f_sys := (f_sys s)\<lparr>s_db := d\<rparr>\<rparr>)"
| replayed: "claimReplay uin t new_ev now v (s_db (f_sys s)) = (r, d) \<Longrightarrow> fleet_act uin s (s\<lparr>f_sys := (f_sys s)\<lparr>s_db := d\<rparr>\<rparr>)"
| timer: "s_batch (f_sys s) k = None \<Longrightarrow>
     fleet_act uin s (s\<lparr>f_sys := (f_sys s)\<lparr>s_batch := (s_batch (f_sys s))(k \<mapsto> (D_claim, empty_tally))\<rparr>\<rparr>)"
| dispatches: "s_batch (f_sys s) k = Some (p, ta) \<Longrightarrow> da_pub a \<noteq> Pub_lost \<Longrightarrow>
     dispatch_step a p \<lparr>ds_db = s_db (f_sys s), ds_broker = s_broker (f_sys s), ds_tally = ta\<rparr> = (p', x) \<Longrightarrow>
     fleet_act uin s (s\<lparr>f_sys := batch_store k p' x (f_sys s)\<rparr>)"
| api_ends: "fleet_act uin s (s\<lparr>f_sys := (f_sys s)\<lparr>s_batch := (s_batch (f_sys s))(k := None)\<rparr>\<rparr>)"
| expires: "m \<in> set (queue (s_broker (f_sys s)) RETRY_QUEUE_NAME) \<Longrightarrow>
     fleet_act uin s (s\<lparr>f_sys := (f_sys s)\<lparr>s_broker := expire RETRY_QUEUE_NAME m (s_broker (f_sys s))\<rparr>\<rparr>)"
| process: "fleet_act uin s (s\<lparr>f_proc := (f_proc s)(p := wp_step e (f_proc s p))\<rparr>)"
| boots: "exited (f_proc s p) \<noteq> None \<Longrightarrow> fleet_act uin s (s\<lparr>f_proc := (f_proc s)(p := worker_loaded), f_errors := (f_errors s)(p := 0)\<rparr>)"
| receives: "s_active (f_sys s) w = None \<Longrightarrow> exited (f_proc s p) = None \<Longrightarrow> n \<in> set (wp_consumers (f_proc s p)) \<Longrightarrow> n \<in> set (wp_up (f_proc s p)) \<Longrightarrow>
     m \<in> set (queue (s_broker (f_sys s)) QUEUE_NAME) \<Longrightarrow> env_ok True a \<Longrightarrow> on_delivery a (Some (pub_body m)) = q \<Longrightarrow>
     fleet_act uin s (s\<lparr>f_sys := settle w m True q ((f_sys s)\<lparr>s_broker := take_message m (s_broker (f_sys s))\<rparr>),
       f_via := (f_via s)(w := (p, n)), f_proc := (f_proc s)(p := after_handler q (f_proc s p))\<rparr>)"
| handles: "s_active (f_sys s) w = Some dl \<Longrightarrow> env_ok (linked s w) a \<Longrightarrow>
     p = fst (f_via s w) \<Longrightarrow> consumer_step uin a (dl_pc dl) (process_view p s) = (q, x) \<Longrightarrow>
     fleet_act uin s (s\<lparr>f_sys := settle w (dl_message dl) (dl_attached dl) q (tables_commit x (f_sys s)),
       f_errors := (f_errors s)(p := dbErrorCount x), f_proc := (f_proc s)(p := after_handler q (f_proc s p))\<rparr>)"

definition fleet_step :: "uuid_input \<Rightarrow> fleet \<Rightarrow> fleet \<Rightarrow> bool" where
  "fleet_step uin s s' \<longleftrightarrow> (\<exists>s1 ws. fleet_act uin s s1 \<and> distinct ws \<and> set ws = {w. abandoned s1 w} \<and> s' = fold reap_slot ws s1)"

definition fleet_init :: fleet where
  "fleet_init = \<lparr>f_sys = sys_init, f_proc = (\<lambda>_. worker_loaded), f_errors = (\<lambda>_. 0), f_via = (\<lambda>_. (0, 0))\<rparr>"

inductive fleet_reach :: "uuid_input \<Rightarrow> fleet \<Rightarrow> bool" for uin where
  start: "fleet_reach uin fleet_init"
| step: "fleet_reach uin s \<Longrightarrow> fleet_step uin s s' \<Longrightarrow> fleet_reach uin s'"

section \<open>The same work\<close>

text \<open>Two states of the platform that differ in nothing but counters and the pauses that follow from them.\<close>

fun unpaused :: "pc \<Rightarrow> pc" where
  "unpaused (At_backoff n) = At_backoff 0"
| "unpaused p = p"

definition bare :: "delivery \<Rightarrow> delivery" where
  "bare dl = dl\<lparr>dl_pc := unpaused (dl_pc dl)\<rparr>"

definition same_work :: "sys \<Rightarrow> sys \<Rightarrow> bool" where
  "same_work s y \<longleftrightarrow> s_db y = s_db s \<and> s_broker y = s_broker s \<and> s_batch y = s_batch s
     \<and> (\<forall>w. map_option bare (s_active y w) = map_option bare (s_active s w))"

lemma same_work_refl: "same_work s s"
  by (simp add: same_work_def)

lemma unpaused_backoff [simp]: "unpaused p = At_backoff 0 \<longleftrightarrow> (\<exists>n. p = At_backoff n)"
  by (cases p) auto

lemma unpaused_other: "\<nexists>n. p = At_backoff n \<Longrightarrow> unpaused q = unpaused p \<longleftrightarrow> q = p"
  by (cases p; cases q) auto

lemma bare_eq: "bare x = bare y \<longleftrightarrow> dl_message x = dl_message y \<and> dl_attached x = dl_attached y \<and> unpaused (dl_pc x) = unpaused (dl_pc y)"
  by (cases x; cases y) (auto simp: bare_def)

lemma same_work_slot:
  assumes "same_work s y" and "s_active s w = Some dl"
  obtains dl' where "s_active y w = Some dl'" "bare dl' = bare dl"
proof -
  have "map_option bare (s_active y w) = Some (bare dl)" using assms by (simp add: same_work_def)
  then show thesis using that by blast
qed

lemma same_work_free: "same_work s y \<Longrightarrow> s_active s w = None \<Longrightarrow> s_active y w = None"
  unfolding same_work_def by (metis map_option_is_None)

lemma consumer_step_unpaused:
  assumes "unpaused p' = unpaused p" and "ws_db x' = ws_db x" and "ws_broker x' = ws_broker x"
  shows "unpaused (fst (consumer_step uin a p' x')) = unpaused (fst (consumer_step uin a p x))
     \<and> ws_db (snd (consumer_step uin a p' x')) = ws_db (snd (consumer_step uin a p x))
     \<and> ws_broker (snd (consumer_step uin a p' x')) = ws_broker (snd (consumer_step uin a p x))"
proof (cases "\<exists>n. p = At_backoff n")
  case True
  then show ?thesis using assms by auto
next
  case False
  then have "p' = p" using assms(1) by (simp add: unpaused_other)
  then show ?thesis using assms(2,3)
    by (cases p) (simp_all add: claim_catch_def backoffBeforeRequeue_def Let_def split: prod.splits sum.splits option.splits)
qed

lemma settle_same_work:
  assumes "unpaused q' = unpaused q" and "same_work s y"
  shows "same_work (settle w m att q s) (settle w m att q' y)"
proof (cases "\<exists>n. q = At_backoff n")
  case True
  then show ?thesis using assms by (auto simp: settle_def same_work_def bare_eq)
next
  case False
  then have "q' = q" using assms(1) by (simp add: unpaused_other)
  then show ?thesis using assms(2) by (auto simp: settle_def same_work_def split: pc.splits ending.splits)
qed

section \<open>The invariant\<close>

definition slot_ok :: "fleet \<Rightarrow> nat \<Rightarrow> bool" where
  "slot_ok s w \<longleftrightarrow> (\<forall>dl. s_active (f_sys s) w = Some dl \<longrightarrow> exited (proc_of s w) = None \<and> spent (snd (f_via s w)) (proc_of s w)
     \<and> (dl_attached dl \<longleftrightarrow> linked s w))"

text \<open>Before the reaping only this much is certain.\<close>

definition slot_pre :: "fleet \<Rightarrow> nat \<Rightarrow> bool" where
  "slot_pre s w \<longleftrightarrow> (\<forall>dl. s_active (f_sys s) w = Some dl \<longrightarrow> spent (snd (f_via s w)) (proc_of s w)
     \<and> (linked s w \<longrightarrow> dl_attached dl))"

definition fleet_inv :: "fleet \<Rightarrow> bool" where
  "fleet_inv s \<longleftrightarrow> (\<forall>p. numbered (f_proc s p)) \<and> (\<forall>w. slot_ok s w)"

lemma slot_ok_reaped: "slot_pre s w \<Longrightarrow> \<not> abandoned s w \<Longrightarrow> slot_ok s w"
  by (auto simp: slot_pre_def slot_ok_def abandoned_def split: option.splits)

lemma reap_slot_frame [simp]:
  "f_proc (reap_slot w s) = f_proc s" "f_via (reap_slot w s) = f_via s" "proc_of (reap_slot w s) = proc_of s" "linked (reap_slot w s) = linked s"
  by (simp_all add: reap_slot_def proc_of_def linked_def fun_eq_iff split: option.splits)

lemma reap_slot_other: "w' \<noteq> w \<Longrightarrow> s_active (f_sys (reap_slot w s)) w' = s_active (f_sys s) w'"
  by (simp add: reap_slot_def settle_other split: option.splits)

lemma reap_slot_own: "slot_pre s w \<Longrightarrow> slot_ok (reap_slot w s) w"
  by (auto simp: reap_slot_def slot_pre_def slot_ok_def settle_def proc_of_def linked_def split: option.splits)

text \<open>The platform follows: it reaches, by any number of its own steps, a state with the same work.\<close>

definition follows :: "uuid_input \<Rightarrow> sys \<Rightarrow> sys \<Rightarrow> bool" where
  "follows uin s s1 \<longleftrightarrow> (\<forall>y. same_work s y \<longrightarrow> (\<exists>y1. (sys_step uin True)\<^sup>*\<^sup>* y y1 \<and> same_work s1 y1))"

lemma follows_refl: "follows uin s s"
  by (auto simp: follows_def)

lemma follows_trans: "follows uin s s1 \<Longrightarrow> follows uin s1 s2 \<Longrightarrow> follows uin s s2"
  unfolding follows_def by (meson rtranclp_trans)

lemma follows_step: "(\<And>y. same_work s y \<Longrightarrow> \<exists>y1. sys_step uin True y y1 \<and> same_work s1 y1) \<Longrightarrow> follows uin s s1"
  unfolding follows_def by blast

lemma crash_followed:
  assumes "s_active s w = Some dl"
  shows "follows uin s (settle w (dl_message dl) (dl_attached dl) (Finished (Crashed e)) s)"
proof (rule follows_step)
  fix y assume y: "same_work s y"
  obtain dl' where dl': "s_active y w = Some dl'" "bare dl' = bare dl" by (rule same_work_slot [OF y assms])
  show "\<exists>y1. sys_step uin True y y1 \<and> same_work (settle w (dl_message dl) (dl_attached dl) (Finished (Crashed e)) s) y1"
    using sys_step.worker_crash [OF dl'(1), of uin True e] settle_same_work [OF refl y, of w "dl_message dl" "dl_attached dl"] dl'(2)
    by (auto simp: bare_eq)
qed

lemma drop_followed:
  assumes "s_active s w = Some dl" and "dl_attached dl"
  shows "follows uin s (s\<lparr>s_active := (s_active s)(w \<mapsto> dl\<lparr>dl_attached := False\<rparr>), s_broker := requeue (dl_message dl) (s_broker s)\<rparr>)"
proof (rule follows_step)
  fix y assume y: "same_work s y"
  obtain dl' where dl': "s_active y w = Some dl'" "bare dl' = bare dl" by (rule same_work_slot [OF y assms(1)])
  then show "\<exists>y1. sys_step uin True y y1 \<and> same_work (s\<lparr>s_active := (s_active s)(w \<mapsto> dl\<lparr>dl_attached := False\<rparr>),
      s_broker := requeue (dl_message dl) (s_broker s)\<rparr>) y1"
    using sys_step.channel_drop [OF _ dl'(1), of True uin] y assms(2) by (intro exI conjI) (auto simp: same_work_def bare_eq)
qed

lemma reap_slot_followed: "follows uin (f_sys s) (f_sys (reap_slot w s))"
  using crash_followed drop_followed by (auto simp: reap_slot_def follows_refl split: option.splits)

lemma reap_slot_keeps: "w' \<noteq> w \<Longrightarrow> slot_pre (reap_slot w s) w' = slot_pre s w'" "w' \<noteq> w \<Longrightarrow> slot_ok (reap_slot w s) w' = slot_ok s w'"
  by (simp_all add: slot_pre_def slot_ok_def reap_slot_other)

lemma reap_all:
  assumes "distinct ws" and "\<And>w. w \<in> set ws \<Longrightarrow> slot_pre s w" and "\<And>w. w \<notin> set ws \<Longrightarrow> slot_ok s w"
  shows "follows uin (f_sys s) (f_sys (fold reap_slot ws s)) \<and> f_proc (fold reap_slot ws s) = f_proc s
     \<and> (\<forall>w. slot_ok (fold reap_slot ws s) w)"
  using assms
proof (induction ws arbitrary: s)
  case (Cons w ws)
  have "slot_pre (reap_slot w s) w'" if "w' \<in> set ws" for w' using Cons.prems(1,2) that by (subst reap_slot_keeps(1)) auto
  moreover have "slot_ok (reap_slot w s) w'" if "w' \<notin> set ws" for w'
    using Cons.prems that reap_slot_own [of s w] by (cases "w' = w") (auto simp: reap_slot_keeps(2))
  ultimately show ?case
    using Cons.IH [of "reap_slot w s"] Cons.prems(1) reap_slot_followed [of uin s w] by (auto intro: follows_trans)
qed (auto simp: follows_refl)

section \<open>Every step\<close>

lemma after_handler_frame [simp]:
  "wp_up (after_handler q x) = wp_up x" "attempts_under_way (after_handler q x) = attempts_under_way x" "wp_next (after_handler q x) = wp_next x"
  by (simp_all add: after_handler_def attempts_under_way_def split: pc.splits ending.splits)

lemma after_handler_numbers [simp]: "numbered (after_handler q x) = numbered x" "spent n (after_handler q x) = spent n x"
  by (simp_all add: numbered_def spent_def)

text \<open>Steps that leave slots and processes alone, deliveries, and steps of a handler, each followed by the platform.\<close>

lemma aside_followed:
  "(\<And>y. same_work s y \<Longrightarrow> sys_step uin True y (g y)) \<Longrightarrow> (\<And>y. same_work s y \<Longrightarrow> same_work (g s) (g y)) \<Longrightarrow> follows uin s (g s)"
  by (blast intro: follows_step)

lemma deliver_followed:
  assumes "s_active s w = None" and "m \<in> set (queue (s_broker s) QUEUE_NAME)" and "env_ok True a"
  shows "follows uin s (settle w m True (on_delivery a (Some (pub_body m))) (s\<lparr>s_broker := take_message m (s_broker s)\<rparr>))"
proof (rule follows_step)
  fix y assume y: "same_work s y"
  then have "sys_step uin True y (settle w m True (on_delivery a (Some (pub_body m))) (y\<lparr>s_broker := take_message m (s_broker y)\<rparr>))"
    using assms by (intro sys_step.deliver) (auto simp: same_work_free, simp add: same_work_def)
  moreover have "same_work (s\<lparr>s_broker := take_message m (s_broker s)\<rparr>) (y\<lparr>s_broker := take_message m (s_broker y)\<rparr>)"
    using y by (simp add: same_work_def)
  ultimately show "\<exists>y1. sys_step uin True y y1 \<and> same_work (settle w m True (on_delivery a (Some (pub_body m))) (s\<lparr>s_broker := take_message m (s_broker s)\<rparr>)) y1"
    using settle_same_work [OF refl] by blast
qed

lemma handler_followed:
  assumes "s_active s w = Some dl" and "env_ok (dl_attached dl) a" and "consumer_step uin a (dl_pc dl) z = (q, x)"
    and "ws_db z = s_db s" and "ws_broker z = s_broker s"
  shows "follows uin s (settle w (dl_message dl) (dl_attached dl) q (tables_commit x s))"
proof (rule follows_step)
  fix y assume y: "same_work s y"
  obtain dl' where dl': "s_active y w = Some dl'" "bare dl' = bare dl" by (rule same_work_slot [OF y assms(1)])
  obtain q' x' where c: "consumer_step uin a (dl_pc dl') (worker_view w y) = (q', x')" by fastforce
  have e: "unpaused q' = unpaused q" "ws_db x' = ws_db x" "ws_broker x' = ws_broker x"
    using consumer_step_unpaused [of "dl_pc dl'" "dl_pc dl" "worker_view w y" z uin a] dl'(2) assms(3-) c y
    by (auto simp: bare_eq worker_view_def same_work_def)
  have "sys_step uin True y (settle w (dl_message dl) (dl_attached dl) q' (worker_commit w x' y))"
    using sys_step.worker_step [OF dl'(1) _ c, of True] assms(2) dl'(2) by (simp add: bare_eq)
  moreover have "same_work (tables_commit x s) (worker_commit w x' y)" using y e by (simp add: same_work_def tables_commit_def worker_commit_def)
  ultimately show "\<exists>y1. sys_step uin True y y1 \<and> same_work (settle w (dl_message dl) (dl_attached dl) q (tables_commit x s)) y1"
    using settle_same_work [OF e(1)] by blast
qed

lemma aside_pre: "fleet_inv s \<Longrightarrow> s_active x = s_active (f_sys s) \<Longrightarrow> slot_pre (s\<lparr>f_sys := x\<rparr>) w"
  by (auto simp: fleet_inv_def slot_ok_def slot_pre_def proc_of_def linked_def)

lemma fleet_act_pre:
  assumes "fleet_act uin s s1" and inv: "fleet_inv s"
  shows "(\<forall>p. numbered (f_proc s1 p)) \<and> (\<forall>w. slot_pre s1 w)"
  using assms(1)
proof (cases rule: fleet_act.cases)
  case (dispatches k p ta a p' x)
  have "slot_pre s1 w" for w unfolding dispatches(1) by (rule aside_pre [OF inv]) (simp add: batch_store_def)
  then show ?thesis using inv dispatches(1) by (auto simp: fleet_inv_def)
next
  case (process p e)
  have n: "numbered (f_proc s p)" using inv by (simp add: fleet_inv_def)
  note k = wp_step_numbers [of "f_proc s p" e, unfolded keeps_numbers_def, rule_format, OF n]
  have "slot_pre s1 w" for w
    using inv k process by (auto simp: fleet_inv_def slot_ok_def slot_pre_def proc_of_def linked_def)
  with process k inv show ?thesis by (auto simp: fleet_inv_def)
next
  case (boots p)
  have "slot_pre s1 w" for w
    using inv boots by (cases "fst (f_via s w) = p") (auto simp: fleet_inv_def slot_ok_def slot_pre_def proc_of_def linked_def)
  with boots inv numbered_loaded show ?thesis by (auto simp: fleet_inv_def)
next
  case (receives w p n m a q)
  have "spent n (f_proc s p)" using numbered_up receives(5) inv by (auto simp: fleet_inv_def)
  then have "slot_pre s1 w'" for w'
    using inv receives(1,5) settle_active [of w m True q "(f_sys s)\<lparr>s_broker := take_message m (s_broker (f_sys s))\<rparr>"]
    by (cases "w' = w") (auto simp: fleet_inv_def slot_ok_def slot_pre_def proc_of_def linked_def settle_other)
  then show ?thesis using inv receives(1) by (auto simp: fleet_inv_def)
next
  case (handles w dl a p q x)
  have att: "dl_attached dl \<longleftrightarrow> linked s w" and sp: "spent (snd (f_via s w)) (proc_of s w)" using inv handles(2) by (auto simp: fleet_inv_def slot_ok_def)
  have "slot_pre s1 w'" for w'
    using inv att sp handles(1) settle_active [of w "dl_message dl" "dl_attached dl" q "tables_commit x (f_sys s)"]
    by (cases "w' = w") (auto simp: fleet_inv_def slot_ok_def slot_pre_def proc_of_def linked_def settle_other tables_commit_def)
  then show ?thesis using inv handles(1) by (auto simp: fleet_inv_def)
qed (use inv in \<open>auto intro!: aside_pre simp: fleet_inv_def\<close>)

lemma fleet_act_followed:
  assumes "fleet_act uin s s1" and inv: "fleet_inv s"
  shows "follows uin (f_sys s) (f_sys s1)"
  using assms(1)
proof (cases rule: fleet_act.cases)
  case (requested t new_id new_ev now ty pl r d)
  have "sys_step uin True y (y\<lparr>s_db := d\<rparr>)" if "same_work (f_sys s) y" for y
    using sys_step.create [of t new_id new_ev now ty pl y r d uin True] requested(2,3) that by (simp add: same_work_def)
  then show ?thesis unfolding requested(1) using aside_followed [of "f_sys s" uin "\<lambda>y. y\<lparr>s_db := d\<rparr>"] by (auto simp: same_work_def)
next
  case (replayed t new_ev now v r d)
  have "sys_step uin True y (y\<lparr>s_db := d\<rparr>)" if "same_work (f_sys s) y" for y
    using sys_step.replay [of uin t new_ev now v y r d True] replayed(2) that by (simp add: same_work_def)
  then show ?thesis unfolding replayed(1) using aside_followed [of "f_sys s" uin "\<lambda>y. y\<lparr>s_db := d\<rparr>"] by (auto simp: same_work_def)
next
  case (timer k)
  have "sys_step uin True y (y\<lparr>s_batch := (s_batch y)(k \<mapsto> (D_claim, empty_tally))\<rparr>)" if "same_work (f_sys s) y" for y
    using sys_step.batch_start [of y k uin True] timer(2) that by (simp add: same_work_def)
  then show ?thesis unfolding timer(1) using aside_followed [of "f_sys s" uin "\<lambda>y. y\<lparr>s_batch := (s_batch y)(k \<mapsto> (D_claim, empty_tally))\<rparr>"] by (auto simp: same_work_def)
next
  case (dispatches k p ta a p' x)
  have "follows uin (f_sys s) (batch_store k p' x (f_sys s))"
  proof (rule aside_followed)
    fix y assume y: "same_work (f_sys s) y"
    then show "sys_step uin True y (batch_store k p' x y)" using sys_step.batch_step [of y k p ta a p' x] dispatches(2-) by (simp add: same_work_def)
    show "same_work (batch_store k p' x (f_sys s)) (batch_store k p' x y)" using y by (simp add: same_work_def batch_store_def)
  qed
  then show ?thesis by (simp add: dispatches(1))
next
  case (api_ends k)
  have "sys_step uin True y (y\<lparr>s_batch := (s_batch y)(k := None)\<rparr>)" if "same_work (f_sys s) y" for y
    using sys_step.api_crash by simp
  then show ?thesis unfolding api_ends(1) using aside_followed [of "f_sys s" uin "\<lambda>y. y\<lparr>s_batch := (s_batch y)(k := None)\<rparr>"] by (auto simp: same_work_def)
next
  case (expires m)
  have "sys_step uin True y (y\<lparr>s_broker := expire RETRY_QUEUE_NAME m (s_broker y)\<rparr>)" if "same_work (f_sys s) y" for y
    using sys_step.retry_expired [of m y uin True] expires(2) that by (simp add: same_work_def)
  then show ?thesis unfolding expires(1) using aside_followed [of "f_sys s" uin "\<lambda>y. y\<lparr>s_broker := expire RETRY_QUEUE_NAME m (s_broker y)\<rparr>"] by (auto simp: same_work_def)
next
  case (receives w p n m a q)
  then show ?thesis using deliver_followed [OF receives(2,6,7), of uin] by simp
next
  case (handles w dl a p q x)
  then have "env_ok (dl_attached dl) a" using inv by (auto simp: fleet_inv_def slot_ok_def)
  with handler_followed [OF handles(2) this handles(5)] handles(1) show ?thesis by (simp add: process_view_def)
qed (simp_all add: follows_refl)

lemma fleet_step_followed:
  assumes "fleet_step uin s s'" and "fleet_inv s"
  shows "follows uin (f_sys s) (f_sys s') \<and> fleet_inv s'"
proof -
  obtain s1 ws where st: "fleet_act uin s s1" "distinct ws" "set ws = {w. abandoned s1 w}" "s' = fold reap_slot ws s1"
    using assms(1) by (auto simp: fleet_step_def)
  note pre = fleet_act_pre [OF st(1) assms(2)]
  have "slot_ok s1 w" if "w \<notin> set ws" for w using pre slot_ok_reaped that st(3) by blast
  from reap_all [OF st(2) _ this] pre st(4) fleet_act_followed [OF st(1) assms(2)] show ?thesis
    unfolding fleet_inv_def by (auto intro: follows_trans)
qed

lemma fleet_inv_init: "fleet_inv fleet_init"
  by (simp add: fleet_inv_def slot_ok_def fleet_init_def sys_init_def numbered_loaded)

lemma sys_reach_steps: "(sys_step uin drops)\<^sup>*\<^sup>* s s' \<Longrightarrow> sys_reach uin drops s \<Longrightarrow> sys_reach uin drops s'"
  by (induction rule: rtranclp_induct) (auto intro: sys_reach.step)

lemma fleet_reach_platform: "fleet_reach uin s \<Longrightarrow> fleet_inv s \<and> (\<exists>y. sys_reach uin True y \<and> same_work (f_sys s) y)"
proof (induction rule: fleet_reach.induct)
  case start
  then show ?case using fleet_inv_init sys_reach.start same_work_refl by (auto simp: fleet_init_def)
next
  case (step s s')
  then show ?case using fleet_step_followed [OF step.hyps(2)] sys_reach_steps by (meson follows_def)
qed

text \<open>The reaping can always be done: only finitely many slots are taken, so that every step before it has a step of the fleet.\<close>

lemma settle_dom: "dom (s_active (settle w m att p s)) \<subseteq> insert w (dom (s_active s))"
  by (auto simp: settle_def split: pc.splits ending.splits if_splits)

lemma reap_all_dom: "dom (s_active (f_sys (fold reap_slot ws s))) \<subseteq> dom (s_active (f_sys s))"
proof (induction ws arbitrary: s)
  case (Cons w ws)
  have "dom (s_active (f_sys (reap_slot w s))) \<subseteq> dom (s_active (f_sys s))"
    by (auto simp: reap_slot_def settle_def split: option.splits if_splits)
  with Cons [of "reap_slot w s"] show ?case by simp
qed simp

lemma fleet_act_dom:
  assumes "fleet_act uin s s1"
  shows "\<exists>w. dom (s_active (f_sys s1)) \<subseteq> insert w (dom (s_active (f_sys s)))"
  using assms
proof (cases rule: fleet_act.cases)
  case (receives w p n m a q)
  then show ?thesis using settle_dom [of w m True q "(f_sys s)\<lparr>s_broker := take_message m (s_broker (f_sys s))\<rparr>"] by auto
next
  case (handles w dl a p q x)
  then show ?thesis using settle_dom [of w "dl_message dl" "dl_attached dl" q "tables_commit x (f_sys s)"] by (auto simp: tables_commit_def)
qed (auto simp: batch_store_def)

lemma fleet_slots_finite: "fleet_reach uin s \<Longrightarrow> finite (dom (s_active (f_sys s)))"
proof (induction rule: fleet_reach.induct)
  case start
  then show ?case by (simp add: fleet_init_def sys_init_def)
next
  case (step s s')
  then obtain s1 ws where st: "fleet_act uin s s1" "s' = fold reap_slot ws s1" by (auto simp: fleet_step_def)
  from fleet_act_dom [OF st(1)] step.IH have "finite (dom (s_active (f_sys s1)))" by (meson finite_insert finite_subset)
  then show ?case unfolding st(2) by (rule finite_subset [OF reap_all_dom])
qed

lemma fleet_act_step:
  assumes "fleet_reach uin s" and "fleet_act uin s s1"
  shows "\<exists>ws. fleet_step uin s (fold reap_slot ws s1)"
proof -
  have "{w. abandoned s1 w} \<subseteq> dom (s_active (f_sys s1))" by (auto simp: abandoned_def split: option.splits)
  then have "finite {w. abandoned s1 w}"
    using fleet_act_dom [OF assms(2)] fleet_slots_finite [OF assms(1)] by (meson finite_insert finite_subset)
  then obtain ws where "distinct ws" "set ws = {w. abandoned s1 w}" using finite_distinct_list by blast
  then show ?thesis using assms(2) unfolding fleet_step_def by blast
qed

section \<open>A run of the fleet\<close>

text \<open>
  The job of the run in \<open>Stranded\<close>, delivered to a process that then loses its connection under the handler: the message
  is back in the queue, the delivery detached, and the process on its way to a new connection.
\<close>

definition up_process :: wproc where
  "up_process = wp_run [Start_settles True, Start_settles True, Start_settles True]"

definition tape_fleet :: "wproc \<Rightarrow> sys \<Rightarrow> fleet" where
  "tape_fleet x s = \<lparr>f_sys = s, f_proc = (\<lambda>_. worker_loaded)(0 := x), f_errors = (\<lambda>_. 0), f_via = (\<lambda>_. (0, 0))\<rparr>"

lemma up_process_values: "exited up_process = None" "wp_up up_process = [0]" "wp_consumers up_process = [0]"
  by (simp_all add: up_process_def wp_run_def wp_step_def worker_loaded_def subscribe_begin_def getChannel_begin_def conn_init_def start_await_def
      getChannel_install_def)

lemma fleet_quiet:
  assumes "fleet_reach uin s" and "fleet_act uin s s1" and "\<And>w. \<not> abandoned s1 w"
  shows "fleet_reach uin s1"
proof -
  have "fleet_step uin s s1" unfolding fleet_step_def using assms(2,3) by (intro exI [of _ s1] exI [of _ "[]"]) simp
  with assms(1) show ?thesis by (rule fleet_reach.step)
qed

lemma tape_free: "\<not> abandoned (tape_fleet x (tape_state d b None k)) w"
  by (simp add: abandoned_def tape_fleet_def tape_state_def)

lemma fleet_warms: "fleet_reach uin (tape_fleet (wp_run evs) sys_init)"
proof (induction evs rule: rev_induct)
  case Nil
  then show ?case using fleet_reach.start by (simp add: tape_fleet_def wp_run_def fleet_init_def fun_upd_idem)
next
  case (snoc e evs)
  have "fleet_act uin (tape_fleet (wp_run evs) sys_init) (tape_fleet (wp_run (evs @ [e])) sys_init)"
    using fleet_act.process [of uin "tape_fleet (wp_run evs) sys_init" 0 e] by (simp add: tape_fleet_def wp_run_def)
  with fleet_quiet [OF snoc] show ?case by (simp add: abandoned_def tape_fleet_def sys_init_def)
qed

lemma fleet_requested:
  "fleet_reach plain_uin (tape_fleet up_process (tape_state \<lparr>jobs = [tape_job], outbox_events = [tape_event]\<rparr> (tape_broker []) None None))"
proof (rule fleet_quiet [OF fleet_warms, of _ "[Start_settles True, Start_settles True, Start_settles True]", folded up_process_def, OF _ tape_free])
  show "fleet_act plain_uin (tape_fleet up_process sys_init)
      (tape_fleet up_process (tape_state \<lparr>jobs = [tape_job], outbox_events = [tape_event]\<rparr> (tape_broker []) None None))"
    using fleet_act.requested [of tx_fine "''j1''" "''e1''" 0 "''email''" "[]" "tape_fleet up_process sys_init" _ _ plain_uin]
    by (simp add: tape_fleet_def tape_state_def sys_init_def createJob_def withTransaction_fine create_body_def insert_job_def insertOutboxEvent_def
        new_event_def Let_def tape_broker_empty)
qed

lemma fleet_batch:
  assumes "fleet_reach plain_uin (tape_fleet x (tape_state d b None (Some (p, ta))))"
    and "dispatch_step tape_await p \<lparr>ds_db = d, ds_broker = b, ds_tally = ta\<rparr> = (p', \<lparr>ds_db = d', ds_broker = b', ds_tally = ta'\<rparr>)"
  shows "fleet_reach plain_uin (tape_fleet x (tape_state d' b' None
    (case p' of D_return \<Rightarrow> None | D_reject e \<Rightarrow> None | _ \<Rightarrow> Some (p', ta'))))"
proof (rule fleet_quiet [OF assms(1) _ tape_free])
  have "batch_store 0 p' \<lparr>ds_db = d', ds_broker = b', ds_tally = ta'\<rparr> (tape_state d b None (Some (p, ta)))
      = tape_state d' b' None (case p' of D_return \<Rightarrow> None | D_reject e \<Rightarrow> None | _ \<Rightarrow> Some (p', ta'))"
    by (cases p') (simp_all add: batch_store_def tape_state_def)
  with fleet_act.dispatches [of "tape_fleet x (tape_state d b None (Some (p, ta)))" 0 p ta tape_await p' _ plain_uin] assms(2)
  show "fleet_act plain_uin (tape_fleet x (tape_state d b None (Some (p, ta))))
      (tape_fleet x (tape_state d' b' None (case p' of D_return \<Rightarrow> None | D_reject e \<Rightarrow> None | _ \<Rightarrow> Some (p', ta'))))"
    by (simp add: tape_fleet_def) (simp add: tape_state_def)
qed

lemma fleet_dispatched:
  "fleet_reach plain_uin (tape_fleet up_process
     (tape_state \<lparr>jobs = [tape_job], outbox_events = [tape_published]\<rparr> (tape_broker [job_created ''j1'']) None None))"
proof -
  let ?d = "\<lparr>jobs = [tape_job], outbox_events = [tape_event]\<rparr>" and ?c = "\<lparr>jobs = [tape_job], outbox_events = [tape_claimed]\<rparr>"
  have "fleet_act plain_uin (tape_fleet up_process (tape_state ?d (tape_broker []) None None))
     (tape_fleet up_process (tape_state ?d (tape_broker []) None (Some (D_claim, empty_tally))))"
    using fleet_act.timer [of "tape_fleet up_process (tape_state ?d (tape_broker []) None None)" 0 plain_uin] by (simp add: tape_fleet_def tape_state_def)
  from fleet_batch [OF fleet_quiet [OF fleet_requested this tape_free], of "D_publish tape_claimed []"]
  have "fleet_reach plain_uin (tape_fleet up_process (tape_state ?c (tape_broker []) None
      (Some (D_publish tape_claimed [], empty_tally\<lparr>attempted := 1\<rparr>))))"
    by (simp add: claimPendingOutboxEvents_def select_claimable_def new_event_def claim_eligible_def pending_def sql_update_def
        BATCH_SIZE_def next_event_def)
  from fleet_batch [OF this, of "D_markPublished tape_claimed []"]
  have "fleet_reach plain_uin (tape_fleet up_process (tape_state ?c (tape_broker [job_created ''j1'']) None
      (Some (D_markPublished tape_claimed [], empty_tally\<lparr>attempted := 1\<rparr>))))"
    by (simp add: publishJobCreated_def publish_or_throw_def channel_publish_def tape_broker_route)
  from fleet_batch [OF this, of D_return] show ?thesis by (simp add: markOutboxPublished_def sql_update_def next_event_def)
qed

abbreviation "tape_delivery att \<equiv> \<lparr>dl_message = job_created ''j1'', dl_pc = At_claim j1, dl_attached = att\<rparr>"

lemma fleet_received:
  "fleet_reach plain_uin (tape_fleet up_process
     (tape_state \<lparr>jobs = [tape_job], outbox_events = [tape_published]\<rparr> (tape_broker []) (Some (tape_delivery True)) None))"
proof (rule fleet_quiet [OF fleet_dispatched])
  let ?s = "tape_fleet up_process (tape_state \<lparr>jobs = [tape_job], outbox_events = [tape_published]\<rparr> (tape_broker [job_created ''j1'']) None None)"
  have "on_delivery (calm 0) (Some (pub_body (job_created ''j1''))) = At_claim j1"
    by (simp add: on_delivery_def job_created_def JSON_roundtrip jobId_message_def js_get_def)
  then show "fleet_act plain_uin ?s (tape_fleet up_process
      (tape_state \<lparr>jobs = [tape_job], outbox_events = [tape_published]\<rparr> (tape_broker []) (Some (tape_delivery True)) None))"
    using fleet_act.receives [of ?s 0 0 0 "job_created ''j1''" "calm 0" "At_claim j1" plain_uin]
    by (simp add: tape_fleet_def tape_state_def up_process_values tape_broker_queue tape_broker_take env_ok_def fault_genuine_def settle_def after_handler_def fun_upd_idem)
qed (simp add: abandoned_def tape_fleet_def tape_state_def up_process_values proc_of_def linked_def)

lemma fleet_dropped:
  "fleet_reach plain_uin (tape_fleet (wp_step (Lost 0) up_process)
     (tape_state \<lparr>jobs = [tape_job], outbox_events = [tape_published]\<rparr> (tape_broker [job_created ''j1'']) (Some (tape_delivery False)) None))"
proof -
  let ?x = "wp_step (Lost 0) up_process"
  let ?f = "\<lambda>b att. tape_state \<lparr>jobs = [tape_job], outbox_events = [tape_published]\<rparr> b (Some (tape_delivery att)) None"
  let ?s1 = "tape_fleet ?x (?f (tape_broker []) True)"
  have act: "fleet_act plain_uin (tape_fleet up_process (?f (tape_broker []) True)) ?s1"
    using fleet_act.process [of plain_uin "tape_fleet up_process (?f (tape_broker []) True)" 0 "Lost 0"] by (simp add: tape_fleet_def)
  have x: "exited ?x = None" "wp_up ?x = []"
    by (simp_all add: up_process_def wp_run_def wp_step_def worker_loaded_def subscribe_begin_def getChannel_begin_def conn_init_def start_await_def
      getChannel_install_def connection_lost_def invalidate_def resubscribe_begin_def)
  then have "set [0] = {w. abandoned ?s1 w}" by (auto simp: abandoned_def tape_fleet_def tape_state_def proc_of_def linked_def split: option.splits if_splits)
  moreover have "reap_slot 0 ?s1 = tape_fleet ?x (?f (tape_broker [job_created ''j1'']) False)"
    using x by (simp add: reap_slot_def tape_fleet_def tape_state_def proc_of_def linked_def tape_broker_requeue)
  ultimately have "fleet_step plain_uin (tape_fleet up_process (?f (tape_broker []) True)) (tape_fleet ?x (?f (tape_broker [job_created ''j1'']) False))"
    unfolding fleet_step_def using act by (intro exI [of _ ?s1] exI [of _ "[0]"]) simp
  with fleet_received show ?thesis by (rule fleet_reach.step)
qed

text \<open>C7. The composition of the platform describes its worker processes. Whatever the processes do, with connections that are lost and
  opened anew, several handlers of one process at a time, shutdowns, unhandled rejections and new starts, the platform of \<open>Platform\<close> reaches a
  state with the same tables, broker, dispatcher batches and deliveries, up to the lengths of pauses. A delivery is never in the hands of an ended process, and \<open>ack\<close> works
  on it exactly when the connection it came over is still up, which \<open>Platform\<close> takes for granted.\<close>

theorem fleet_refines_platform:
  assumes "fleet_reach uin s"
  shows "(\<exists>y. sys_reach uin True y \<and> same_work (f_sys s) y)
     \<and> (\<forall>w dl. s_active (f_sys s) w = Some dl \<longrightarrow>
          exited (f_proc s (fst (f_via s w))) = None \<and> (dl_attached dl \<longleftrightarrow> snd (f_via s w) \<in> set (wp_up (f_proc s (fst (f_via s w))))))"
  using fleet_reach_platform [OF assms] by (auto simp: fleet_inv_def slot_ok_def proc_of_def linked_def)

theorem fleet_refines_platform_witness:
  "\<exists>y. sys_reach plain_uin True y \<and> s_db y = \<lparr>jobs = [tape_job], outbox_events = [tape_published]\<rparr>
     \<and> queue (s_broker y) QUEUE_NAME = [job_created ''j1''] \<and> (\<exists>dl. s_active y 0 = Some dl \<and> \<not> dl_attached dl)"
proof -
  obtain y where y: "sys_reach plain_uin True y"
    "same_work (tape_state \<lparr>jobs = [tape_job], outbox_events = [tape_published]\<rparr> (tape_broker [job_created ''j1'']) (Some (tape_delivery False)) None) y"
    using fleet_refines_platform [OF fleet_dropped] by (auto simp: tape_fleet_def)
  obtain dl where "s_active y 0 = Some dl" "bare dl = bare (tape_delivery False)"
    by (rule same_work_slot [OF y(2), of 0 "tape_delivery False"]) (simp_all add: tape_state_def)
  with y show ?thesis by (intro exI [of _ y]) (simp add: same_work_def tape_state_def tape_broker_queue bare_eq)
qed

end
