(* ===== verification/Latency.thy ===== *)
theory Latency
  imports Doubles "HOL-Library.Sublist"
begin

text \<open>
  The latency measurement (apps/api/scripts/verify-latency.js): the percentile of a sorted list of samples,
  the summary of a series, and the loop that takes one. Times and the index computation are doubles; the
  source computes \<open>Math.ceil((p / 100) * length)\<close>, with two roundings.
\<close>

section \<open>Definitions\<close>

definition percentile_index :: "int \<Rightarrow> nat \<Rightarrow> nat" where
  "percentile_index p n = (let idx = min (int n - 1) (\<lceil>fl (fl (of_int p / 100) * of_nat n)\<rceil> - 1) in nat (max 0 idx))"

definition percentile :: "rat list \<Rightarrow> int \<Rightarrow> rat option" where
  "percentile sortedMs p = (if length sortedMs = 0 then None else Some (sortedMs ! percentile_index p (length sortedMs)))"

record sample =
  sm_ok :: bool
  sm_ms :: rat
  sm_error :: "string option"

text \<open>What a timed request ends with: a response with its status, or a thrown error.\<close>

datatype timed = Answered int rat | Threw string rat

definition timeRequest :: "timed \<Rightarrow> sample" where
  "timeRequest r = (case r of
      Answered st ms \<Rightarrow> (if 200 \<le> st \<and> st \<le> 299 then \<lparr>sm_ok = True, sm_ms = ms, sm_error = None\<rparr>
                         else \<lparr>sm_ok = False, sm_ms = ms, sm_error = Some (''HTTP '' @ int_text st)\<rparr>)
    | Threw e ms \<Rightarrow> \<lparr>sm_ok = False, sm_ms = ms, sm_error = Some e\<rparr>)"

record latency_summary =
  ls_label :: string
  ls_count :: nat
  ls_ok :: nat
  ls_failed :: nat
  ls_p50 :: "rat option"
  ls_p95 :: "rat option"

definition summarize :: "string \<Rightarrow> sample list \<Rightarrow> latency_summary" where
  "summarize label samples =
     (let ok = sort (map sm_ms (filter sm_ok samples)); failed = filter (\<lambda>s. \<not> sm_ok s) samples
      in \<lparr>ls_label = label, ls_count = length samples, ls_ok = length ok, ls_failed = length failed,
          ls_p50 = percentile ok 50, ls_p95 = percentile ok 95\<rparr>)"

text \<open>\<open>measure\<close>: the requests of the series, one after the other.\<close>

definition measure_latency :: "string \<Rightarrow> timed list \<Rightarrow> latency_summary" where
  "measure_latency label requests = summarize label (map timeRequest requests)"

text \<open>
  The configuration, with the trailing slash of an address removed, and \<open>main\<close>: what each series of requests ended with, by the path it
  was sent to. The result is the exit code, the summaries, and the estimate of the overhead of the proxy if one is printed.
\<close>

record latency_config =
  lc_dashboard :: string
  lc_direct :: "string option"
  lc_api_key :: "string option"

definition load_latency_config :: "string option \<Rightarrow> string option \<Rightarrow> string option \<Rightarrow> latency_config" where
  "load_latency_config dashboardUrl apiDirectUrl apiKey =
     \<lparr>lc_dashboard = strip_slash (env_or dashboardUrl ''http://localhost:8080''),
      lc_direct = (if truthy apiDirectUrl then Some (strip_slash (the apiDirectUrl)) else None), lc_api_key = apiKey\<rparr>"

datatype latency_path = Via_health | Via_ready | Via_create | Direct_health

fun latency_label :: "latency_config \<Rightarrow> latency_path \<Rightarrow> string" where
  "latency_label c Via_health = ''GET '' @ lc_dashboard c @ ''/api/health (liveness, via nginx)''"
| "latency_label c Via_ready = ''GET '' @ lc_dashboard c @ ''/api/health/ready (readiness, via nginx)''"
| "latency_label c Via_create = ''POST '' @ lc_dashboard c @ ''/api/jobs (authenticated job creation, via nginx)''"
| "latency_label c Direct_health = ''GET '' @ the (lc_direct c) @ ''/api/health (liveness, DIRECT to api, no nginx)''"

definition is_proxied_health :: "latency_summary \<Rightarrow> bool" where
  "is_proxied_health r \<longleftrightarrow> prefix ''GET'' (ls_label r) \<and> sublist ''via nginx'' (ls_label r) \<and> sublist ''health ('' (ls_label r)"

definition latency_main :: "latency_config \<Rightarrow> (latency_path \<Rightarrow> timed list) \<Rightarrow> int \<times> latency_summary list \<times> rat option" where
  "latency_main c series =
     (if \<not> truthy (lc_api_key c) then (1, [], None)
      else (let results = map (\<lambda>p. measure_latency (latency_label c p) (series p)) [Via_health, Via_ready, Via_create] in
            if lc_direct c = None then (0, results, None)
            else (let results' = results @ [measure_latency (latency_label c Direct_health) (series Direct_health)];
                      proxied = List.find is_proxied_health results'; direct = last results'
                  in (0, results', (case proxied of None \<Rightarrow> None
                       | Some r \<Rightarrow> (case (ls_p50 r, ls_p50 direct) of (Some x, Some y) \<Rightarrow> Some (fl (x - y)) | _ \<Rightarrow> None))))))"

section \<open>The reference: nearest rank\<close>

text \<open>The smallest sample that at least \<open>p\<close> percent of the samples do not exceed.\<close>

definition nearest_rank :: "int \<Rightarrow> rat list \<Rightarrow> rat option" where
  "nearest_rank p xs = List.find (\<lambda>x. p * int (length xs) \<le> 100 * int (length (filter (\<lambda>y. y \<le> x) xs))) (sort xs)"

section \<open>The index in doubles\<close>

text \<open>A percentage whose double is not above it.\<close>

definition rounds_down :: "int \<Rightarrow> bool" where
  "rounds_down p \<longleftrightarrow> 0 < p \<and> p \<le> 100 \<and> fl (of_int p / 100) \<le> of_int p / 100 \<and> of_int p / 100 - 1 / 2 ^ 53 \<le> fl (of_int p / 100)"

lemma used_percentages: "rounds_down 50" "rounds_down 95" "rounds_down 99"
  by code_simp+

lemma ceiling_rank:
  assumes p: "rounds_down p" and n: "0 < n" "n \<le> 2 ^ 44"
  shows "\<lceil>fl (fl (of_int p / 100) * of_nat n)\<rceil> = \<lceil>of_int (p * int n) / 100 :: rat\<rceil>"
proof -
  let ?q = "fl (of_int p / 100)" and ?e = "of_int (p * int n) / 100 :: rat"
  define K where "K = \<lceil>?e\<rceil>"
  have nn: "0 \<le> (of_nat n :: rat)" "(of_nat n :: rat) \<le> 2 ^ 44" using n(2) of_nat_mono [of n "2 ^ 44", where 'a = rat] by simp_all
  have e: "?e = of_int p / 100 * of_nat n" by simp
  have up: "?q * of_nat n \<le> ?e" unfolding e using p nn by (intro mult_right_mono) (auto simp: rounds_down_def)
  have low: "?e - 1 / 512 \<le> ?q * of_nat n"
  proof -
    have "(of_int p / 100 - 1 / 2 ^ 53) * of_nat n \<le> ?q * of_nat n"
      using p nn by (intro mult_right_mono) (auto simp: rounds_down_def)
    moreover have "(of_nat n :: rat) / 2 ^ 53 \<le> 1 / 512" using nn by simp
    ultimately show ?thesis unfolding e by (simp add: left_diff_distrib)
  qed
  have pe: "0 < ?e" using p n by (simp add: rounds_down_def)
  have K: "0 < K" "K \<le> 2 ^ 44"
  proof -
    show "0 < K" using pe unfolding K_def by simp
    have "of_int p / 100 * (of_nat n :: rat) \<le> 1 * of_nat n" using p nn by (intro mult_right_mono) (auto simp: rounds_down_def)
    then have "?e \<le> of_int (2 ^ 44)" unfolding e using nn by simp
    then show "K \<le> 2 ^ 44" unfolding K_def by (simp only: ceiling_le_iff)
  qed
  have gap: "of_int (K - 1) + 1 / 100 \<le> ?e"
  proof -
    have "of_int (K - 1) < ?e" unfolding K_def using ceiling_correct [of ?e] by simp
    then have "of_int ((K - 1) * 100) < (of_int (p * int n) :: rat)" by simp
    then have "(K - 1) * 100 + 1 \<le> p * int n" by (simp only: of_int_less_iff)
    then have "(of_int ((K - 1) * 100 + 1) :: rat) \<le> of_int (p * int n)" by (simp only: of_int_le_iff)
    then show ?thesis by (simp add: field_simps)
  qed
  let ?y = "of_int ((K - 1) * 128 + 1) / 2 ^ 7 :: rat"
  have "?y \<le> ?q * of_nat n" using gap low by (simp add: field_simps)
  moreover have "fl ?y = ?y" by (rule fl_dyadic) (use K in simp_all)
  ultimately have "?y \<le> fl (?q * of_nat n)" using fl_mono [of ?y "?q * of_nat n"] by simp
  then have "of_int (K - 1) < fl (?q * of_nat n)" by (simp add: field_simps)
  moreover have "fl (?q * of_nat n) \<le> of_int K"
  proof -
    have "?q * of_nat n \<le> of_int K" using up ceiling_correct [of ?e] unfolding K_def by linarith
    from fl_mono [OF this] fl_int [of K] K show ?thesis by simp
  qed
  ultimately show ?thesis unfolding K_def [symmetric] by (simp add: ceiling_unique)
qed

lemma percentile_index_rank:
  assumes "rounds_down p" "0 < n" "n \<le> 2 ^ 44"
  shows "int (percentile_index p n) = \<lceil>of_int (p * int n) / 100 :: rat\<rceil> - 1" and "percentile_index p n < n"
proof -
  let ?K = "\<lceil>of_int (p * int n) / 100 :: rat\<rceil>"
  have "0 < (of_int (p * int n) / 100 :: rat)" using assms by (simp add: rounds_down_def)
  then have K: "0 < ?K" by (simp add: zero_less_ceiling)
  have "p * int n \<le> 100 * int n" using assms by (intro mult_right_mono) (simp_all add: rounds_down_def)
  then have "(of_int (p * int n) :: rat) \<le> of_int (100 * int n)" by (simp only: of_int_le_iff)
  then have "?K \<le> int n" by (simp add: ceiling_le_iff)
  with K show "int (percentile_index p n) = ?K - 1" "percentile_index p n < n"
    unfolding percentile_index_def ceiling_rank [OF assms] Let_def by linarith+
qed

section \<open>Ranks of sorted lists\<close>

lemma sorted_filter_prefix: "sorted ys \<Longrightarrow> filter (\<lambda>y. y \<le> x) ys = takeWhile (\<lambda>y. y \<le> x) ys"
  by (induction ys) (auto simp: takeWhile_eq_Nil_iff, metis hd_in_set order_trans)

lemma count_below:
  fixes ys :: "'a :: linorder list"
  assumes "sorted ys" "i < length ys"
  shows "ys ! i \<le> x \<longleftrightarrow> i < length (filter (\<lambda>y. y \<le> x) ys)"
proof -
  let ?c = "length (takeWhile (\<lambda>y. y \<le> x) ys)"
  have "ys ! i \<le> x" if "i < ?c" using that by (metis nth_mem set_takeWhileD takeWhile_nth)
  moreover have "\<not> ys ! i \<le> x" if "?c \<le> i"
  proof -
    have "?c < length ys" using that assms(2) by simp
    then have "\<not> ys ! ?c \<le> x" by (rule nth_length_takeWhile)
    with sorted_nth_mono [OF assms(1) that assms(2)] show ?thesis by auto
  qed
  ultimately show ?thesis unfolding sorted_filter_prefix [OF assms(1)] by (meson not_less)
qed

text \<open>The first element of a sorted list with at least \<open>k + 1\<close> elements not above it is the one at index \<open>k\<close>.\<close>

lemma find_rank:
  fixes ys :: "'a :: linorder list"
  assumes "sorted ys" "k < length ys"
  shows "List.find (\<lambda>x. k < length (filter (\<lambda>y. y \<le> x) ys)) ys = Some (ys ! k)"
proof -
  let ?P = "\<lambda>x. k < length (filter (\<lambda>y. y \<le> x) ys)"
  have P: "?P x \<longleftrightarrow> ys ! k \<le> x" for x using count_below [OF assms] by blast
  then have "\<exists>i<length ys. ?P (ys ! i)" using assms(2) by blast
  then obtain x where x: "List.find ?P ys = Some x" by (cases "List.find ?P ys") (auto simp: find_None_iff in_set_conv_nth)
  then obtain i where i: "i < length ys" "?P (ys ! i)" "x = ys ! i" "\<forall>j < i. \<not> ?P (ys ! j)" by (auto simp: find_Some_iff)
  have "i \<le> k" using i(4) P [of "ys ! k"] by (meson not_less order_refl)
  then have "ys ! i \<le> ys ! k" using assms by (intro sorted_nth_mono)
  with i(2,3) P x show ?thesis by (metis antisym)
qed

text \<open>The index of the source and the reference agree.\<close>

lemma nearest_rank_percentile:
  assumes "rounds_down p" and "length xs \<le> 2 ^ 44"
  shows "percentile (sort xs) p = nearest_rank p xs"
proof (cases "xs = []")
  case True
  then show ?thesis by (simp add: percentile_def nearest_rank_def)
next
  case False
  let ?n = "length xs" and ?k = "percentile_index p (length xs)"
  have n: "0 < ?n" using False by simp
  note k = percentile_index_rank [OF assms(1) n assms(2)]
  have "p * int ?n \<le> 100 * int c \<longleftrightarrow> ?k < c" for c
  proof -
    have "p * int ?n \<le> 100 * int c \<longleftrightarrow> (of_int (p * int ?n) :: rat) \<le> of_int (100 * int c)" by (simp only: of_int_le_iff)
    also have "\<dots> \<longleftrightarrow> (of_int (p * int ?n) / 100 :: rat) \<le> of_int (int c)" by (simp add: field_simps)
    also have "\<dots> \<longleftrightarrow> \<lceil>of_int (p * int ?n) / 100 :: rat\<rceil> \<le> int c" by (simp only: ceiling_le_iff)
    also have "\<dots> \<longleftrightarrow> ?k < c" using k(1) by linarith
    finally show ?thesis .
  qed
  then have "nearest_rank p xs = List.find (\<lambda>x. ?k < length (filter (\<lambda>y. y \<le> x) (sort xs))) (sort xs)"
    by (simp add: nearest_rank_def filter_sort)
  also have "\<dots> = Some (sort xs ! ?k)" using k(2) by (intro find_rank) simp_all
  finally show ?thesis using False by (simp add: percentile_def)
qed

section \<open>Properties\<close>

lemma first_is_proxied_health: "is_proxied_health (measure_latency (latency_label c Via_health) rs)"
proof -
  let ?l = "latency_label c Via_health"
  have "?l = (''GET '' @ lc_dashboard c @ ''/api/health (liveness, '') @ ''via nginx'' @ '')''" by simp
  then have "sublist ''via nginx'' ?l" unfolding sublist_def by blast
  moreover have "?l = (''GET '' @ lc_dashboard c @ ''/api/'') @ ''health ('' @ ''liveness, via nginx)''" by simp
  then have "sublist ''health ('' ?l" unfolding sublist_def by blast
  moreover have "prefix ''GET'' ?l" by simp
  ultimately show ?thesis by (simp only: is_proxied_health_def measure_latency_def summarize_def Let_def latency_summary.simps)
qed

lemma series_p50:
  assumes "length rs \<le> 2 ^ 44"
  shows "ls_p50 (measure_latency l rs) = nearest_rank 50 (map sm_ms (filter sm_ok (map timeRequest rs)))"
proof -
  have "length (map sm_ms (filter sm_ok (map timeRequest rs))) \<le> 2 ^ 44"
    using order_trans [OF length_filter_le [of sm_ok "map timeRequest rs"]] assms by (simp only: length_map)
  from nearest_rank_percentile [OF used_percentages(1) this] show ?thesis by (simp add: measure_latency_def summarize_def Let_def)
qed

text \<open>The overhead that the latency report prints compares like with like: it is printed exactly if a direct address is configured and both series
  had a successful request, and it is the median of the liveness requests through the proxy, and of no other series, less the median of the
  direct ones, both nearest-rank. Without a key nothing is measured and the exit code is 1.\<close>

lemma overhead_compares_health:
  assumes "\<And>p. length (series p) \<le> 2 ^ 44"
  shows "snd (snd (latency_main c series)) =
     (if truthy (lc_api_key c) \<and> lc_direct c \<noteq> None
      then (case (nearest_rank 50 (map sm_ms (filter sm_ok (map timeRequest (series Via_health)))),
                  nearest_rank 50 (map sm_ms (filter sm_ok (map timeRequest (series Direct_health))))) of
              (Some x, Some y) \<Rightarrow> Some (fl (x - y)) | _ \<Rightarrow> None)
      else None)
   \<and> (fst (latency_main c series) = 0 \<longleftrightarrow> truthy (lc_api_key c))"
  using first_is_proxied_health [of c "series Via_health"] series_p50 [OF assms]
  by (simp add: latency_main_def Let_def split: option.splits)

text \<open>C39. The percentiles of the latency report are nearest-rank percentiles. For the percentages the script reports (and every one
  whose double is not above it), and up to \<open>2 ^ 44\<close> samples, the index computed with two roundings of doubles picks the
  smallest sample that at least \<open>p\<close> percent of the samples do not exceed.\<close>

theorem percentile_is_nearest_rank:
  assumes "rounds_down p" and "length xs \<le> 2 ^ 44"
  shows "percentile (sort xs) p = nearest_rank p xs"
  by (rule nearest_rank_percentile [OF assms])

theorem percentile_is_nearest_rank_witness:
  "percentile (sort [30, 10, 20, 40]) 50 = nearest_rank 50 [30, 10, 20, 40] \<and> nearest_rank 50 [30, 10, 20, 40] = Some 20"
  using percentile_is_nearest_rank [OF used_percentages(1), of "[30, 10, 20, 40]"] by (simp add: nearest_rank_def)

end
