(* ===== verification/ChaosCheck.thy ===== *)
theory ChaosCheck
  imports ApiHttp
begin

text \<open>
  The chaos check (apps/api/scripts/verify-chaos.js): for each of two services it stops it, observes the
  outage, starts it again, observes the recovery and has a job processed. What the commands and requests of
  a run answer is given by the records \<open>outage_env\<close> and \<open>chaos_env\<close>; a loop up to a deadline reads the list of
  the answers it gets in time. The model keeps the recorded results and the commands issued.
\<close>

section \<open>Definitions\<close>

definition buildComposeCommand :: "string \<Rightarrow> string \<Rightarrow> string \<Rightarrow> string" where
  "buildComposeCommand composeFile envFile args =
     ''docker compose -f '' @ composeFile @ '' --env-file '' @ envFile @ '' '' @ args"

text \<open>\<open>getReady\<close> and \<open>getLive\<close>: a status with a body, or no answer (\<open>status: null\<close>, no body). A body that is no JSON is \<open>{}\<close>.\<close>

datatype probe = Probe int json | No_answer

definition field_is :: "json \<Rightarrow> string \<Rightarrow> string \<Rightarrow> bool" where
  "field_is body f v = (case body of JObj ps \<Rightarrow> js_get f ps = Some (JStr v) | _ \<Rightarrow> False)"

definition live_ok :: "probe \<Rightarrow> bool" where
  "live_ok p = (case p of Probe st _ \<Rightarrow> st = 200 | No_answer \<Rightarrow> False)"

definition outage_observed :: "string \<Rightarrow> probe \<Rightarrow> bool" where
  "outage_observed statusField p = (case p of Probe st body \<Rightarrow> st = 503 \<and> field_is body statusField ''error'' | No_answer \<Rightarrow> False)"

definition recovered_now :: "string \<Rightarrow> probe \<Rightarrow> bool" where
  "recovered_now statusField p = (case p of Probe st body \<Rightarrow> st = 200 \<and> field_is body statusField ''ok'' | No_answer \<Rightarrow> False)"

text \<open>
  \<open>createJobAndWaitForCompletion\<close>: the status of the creation, then what the polls of the job show in time. An
  uncaught rejection of a request is \<open>Poll_threw\<close>; the result is the rejection, or whether the job completed.
\<close>

datatype job_poll = Poll_status string | Poll_not_ok | Poll_threw js_error

fun wait_for_completion :: "job_poll list \<Rightarrow> bool result" where
  "wait_for_completion [] = Inr False"
| "wait_for_completion (Poll_threw e # ps) = Inl e"
| "wait_for_completion (Poll_not_ok # ps) = wait_for_completion ps"
| "wait_for_completion (Poll_status s # ps) =
     (if s = ''COMPLETED'' then Inr True else if s = ''DEAD_LETTERED'' then Inr False else wait_for_completion ps)"

definition createJobAndWaitForCompletion :: "int result \<Rightarrow> job_poll list \<Rightarrow> bool result" where
  "createJobAndWaitForCompletion created polls = (case created of
      Inl e \<Rightarrow> Inl e
    | Inr st \<Rightarrow> (if \<not> (200 \<le> st \<and> st \<le> 299) then Inr False else wait_for_completion polls))"

record outage_env =
  oe_stop :: bool
  oe_live :: probe
  oe_ready :: probe
  oe_start :: bool
  oe_polls :: "probe list"
  oe_created :: "int result"
  oe_job_polls :: "job_poll list"

text \<open>The two settings of the commands, and what a run leaves behind: the recorded results, the command lines, and an error that ends it.\<close>

record chaos_log =
  COMPOSE_FILE :: string
  ENV_FILE :: string
  results :: "(string \<times> bool) list"
  commands :: "string list"
  thrown :: "js_error option"

definition record_result :: "string \<Rightarrow> bool \<Rightarrow> chaos_log \<Rightarrow> chaos_log" where
  "record_result name ok l = l\<lparr>results := results l @ [(name, ok)]\<rparr>"

definition compose :: "string \<Rightarrow> chaos_log \<Rightarrow> chaos_log" where
  "compose args l = l\<lparr>commands := commands l @ [buildComposeCommand (COMPOSE_FILE l) (ENV_FILE l) args]\<rparr>"

definition runOutageSequence :: "outage_env \<Rightarrow> string \<Rightarrow> string \<Rightarrow> chaos_log \<Rightarrow> chaos_log" where
  "runOutageSequence env svc statusField l0 =
     (let l1 = record_result (''Stop '' @ svc) (oe_stop env) (compose (''stop '' @ svc) l0) in
      if \<not> oe_stop env then compose (''start '' @ svc) (record_result (svc @ '' outage sequence aborted'') False l1)
      else
     (let l2 = record_result (''API stays alive (liveness) while '' @ svc @ '' is down'') (live_ok (oe_live env)) l1;
          outageObserved = outage_observed statusField (oe_ready env);
          l3 = record_result (''Readiness correctly reports '' @ svc @ '' as failing'') outageObserved l2;
          l4 = record_result (''Restart '' @ svc) (oe_start env) (compose (''start '' @ svc) l3);
          recovers = ''Readiness recovers ('' @ svc @ '')''
      in if \<not> outageObserved then record_result recovers False l4
         else if \<not> oe_start env then record_result recovers False l4
         else
        (let recovered = list_ex (recovered_now statusField) (oe_polls env);
             l5 = record_result recovers recovered l4
         in if \<not> recovered then l5
            else (case createJobAndWaitForCompletion (oe_created env) (oe_job_polls env) of
                Inl e \<Rightarrow> l5\<lparr>thrown := Some e\<rparr>
              | Inr ok \<Rightarrow> record_result (''Worker recovers: a real job submitted after '' @ svc @ '' recovery completes'') ok l5))))"

record chaos_env =
  ce_compose_file :: string
  ce_env_file_name :: string
  ce_env_file :: bool
  ce_config :: bool
  ce_baseline :: probe
  ce_postgres :: outage_env
  ce_rabbitmq :: outage_env
  ce_restore :: bool

text \<open>
  \<open>main\<close> with its \<open>catch\<close>: the exit code and the log. The restoring commands of the \<open>catch\<close> share one \<open>try\<close>: the
  second is issued only if the first succeeds (\<open>ce_restore\<close>).
\<close>

definition chaos_main :: "chaos_env \<Rightarrow> int \<times> chaos_log" where
  "chaos_main c =
     (let l0 = \<lparr>COMPOSE_FILE = ce_compose_file c, ENV_FILE = ce_env_file_name c, results = [], commands = [], thrown = None\<rparr> in
      if \<not> ce_env_file c then (1, l0)
      else (let l1 = compose ''config --quiet'' l0 in
        if \<not> ce_config c then (1, l1)
        else if \<not> (case ce_baseline c of Probe st _ \<Rightarrow> st = 200 | No_answer \<Rightarrow> False) then (1, l1)
        else (let l2 = runOutageSequence (ce_postgres c) ''postgres'' ''postgres'' l1;
                  l3 = (if thrown l2 = None then runOutageSequence (ce_rabbitmq c) ''rabbitmq'' ''rabbitmq'' l2 else l2)
              in if thrown l3 \<noteq> None
                 then (1, (let r = compose ''start postgres'' l3 in if ce_restore c then compose ''start rabbitmq'' r else r))
                 else (if list_all snd (results l3) then 0 else 1, l3))))"

text \<open>The module: the settings with their defaults, and the key without which nothing is done.\<close>

definition verify_chaos :: "string option \<Rightarrow> string option \<Rightarrow> string option \<Rightarrow> chaos_env \<Rightarrow> int \<times> chaos_log" where
  "verify_chaos apiKey composeFile envFile c =
     (let f = env_or composeFile ''infra/docker-compose.prod.yml''; e = env_or envFile ''infra/.env.production'' in
      if \<not> truthy apiKey then (1, \<lparr>COMPOSE_FILE = f, ENV_FILE = e, results = [], commands = [], thrown = None\<rparr>)
      else chaos_main (c\<lparr>ce_compose_file := f, ce_env_file_name := e\<rparr>))"

section \<open>Facts\<close>

lemmas log_defs = record_result_def compose_def

text \<open>What a sequence has to observe: the stop, the outage with the API alive, the restart, the recovery, and a job that completes.\<close>

definition outage_survived :: "outage_env \<Rightarrow> string \<Rightarrow> bool" where
  "outage_survived env f \<longleftrightarrow> oe_stop env \<and> live_ok (oe_live env) \<and> outage_observed f (oe_ready env) \<and> oe_start env
     \<and> (\<exists>p \<in> set (oe_polls env). recovered_now f p)
     \<and> createJobAndWaitForCompletion (oe_created env) (oe_job_polls env) = Inr True"

lemma sequence_verdict:
  "thrown l = None \<Longrightarrow>
   (thrown (runOutageSequence env svc f l) = None \<and> list_all snd (results (runOutageSequence env svc f l)))
     \<longleftrightarrow> list_all snd (results l) \<and> outage_survived env f"
  by (auto simp: runOutageSequence_def log_defs Let_def outage_survived_def list_ex_iff split: sum.splits)

lemma sequence_commands:
  "commands (runOutageSequence env svc f l)
     = commands l @ map (buildComposeCommand (COMPOSE_FILE l) (ENV_FILE l)) [''stop '' @ svc, ''start '' @ svc]"
  "COMPOSE_FILE (runOutageSequence env svc f l) = COMPOSE_FILE l" "ENV_FILE (runOutageSequence env svc f l) = ENV_FILE l"
  by (simp_all add: runOutageSequence_def log_defs Let_def split: sum.splits)

lemma sequence_recovers:
  assumes "(''Readiness recovers ('' @ svc @ '')'', True) \<in> set (results (runOutageSequence env svc f l))"
    and "(''Readiness recovers ('' @ svc @ '')'', True) \<notin> set (results l)"
  shows "outage_observed f (oe_ready env) \<and> oe_start env \<and> (\<exists>p \<in> set (oe_polls env). recovered_now f p)"
  using assms by (auto simp: runOutageSequence_def log_defs Let_def list_ex_iff split: sum.splits if_splits)

lemma wait_completed: "wait_for_completion ps = Inr True \<Longrightarrow> Poll_status ''COMPLETED'' \<in> set ps"
  by (induction ps rule: wait_for_completion.induct) (auto split: if_splits)

lemma chaos_main_sound:
  "(fst (chaos_main c) = 0 \<longleftrightarrow> ce_env_file c \<and> ce_config c \<and> live_ok (ce_baseline c)
      \<and> outage_survived (ce_postgres c) ''postgres'' \<and> outage_survived (ce_rabbitmq c) ''rabbitmq'')
   \<and> (commands (snd (chaos_main c)) = before @ buildComposeCommand (ce_compose_file c) (ce_env_file_name c) (''stop '' @ svc) # later \<longrightarrow>
        buildComposeCommand (ce_compose_file c) (ce_env_file_name c) (''start '' @ svc) \<in> set later)
   \<and> (outage_survived env f \<longrightarrow> Poll_status ''COMPLETED'' \<in> set (oe_job_polls env))"
proof (intro conjI impI)
  let ?l1 = "\<lparr>COMPOSE_FILE = ce_compose_file c, ENV_FILE = ce_env_file_name c, results = [],
    commands = [buildComposeCommand (ce_compose_file c) (ce_env_file_name c) ''config --quiet''], thrown = None\<rparr>"
  let ?l2 = "runOutageSequence (ce_postgres c) ''postgres'' ''postgres'' ?l1"
  let ?l3 = "runOutageSequence (ce_rabbitmq c) ''rabbitmq'' ''rabbitmq'' ?l2"
  have v2: "(thrown ?l2 = None \<and> list_all snd (results ?l2)) \<longleftrightarrow> outage_survived (ce_postgres c) ''postgres''"
    using sequence_verdict [of ?l1] by simp
  have v3: "(thrown ?l3 = None \<and> list_all snd (results ?l3)) \<longleftrightarrow> list_all snd (results ?l2) \<and> outage_survived (ce_rabbitmq c) ''rabbitmq''"
    if "thrown ?l2 = None" using sequence_verdict [OF that] .
  show "fst (chaos_main c) = 0 \<longleftrightarrow> ce_env_file c \<and> ce_config c \<and> live_ok (ce_baseline c)
      \<and> outage_survived (ce_postgres c) ''postgres'' \<and> outage_survived (ce_rabbitmq c) ''rabbitmq''"
    using v2 v3 by (auto simp: chaos_main_def Let_def compose_def live_ok_def split: probe.splits if_splits)
  show "Poll_status ''COMPLETED'' \<in> set (oe_job_polls env)" if "outage_survived env f"
    using that wait_completed by (auto simp: outage_survived_def createJobAndWaitForCompletion_def split: sum.splits if_splits)
  assume cmds: "commands (snd (chaos_main c)) = before @ buildComposeCommand (ce_compose_file c) (ce_env_file_name c) (''stop '' @ svc) # later"
  show "buildComposeCommand (ce_compose_file c) (ce_env_file_name c) (''start '' @ svc) \<in> set later"
    using cmds
    by (auto simp: chaos_main_def Let_def compose_def sequence_commands buildComposeCommand_def Cons_eq_append_conv append_eq_Cons_conv
        split: probe.splits if_splits)
qed

section \<open>Properties\<close>

text \<open>C38. The chaos check cannot pass vacuously, and it restores what it stops. It exits with 0 exactly when it has a key, its preconditions hold and,
  for both services, the stop succeeded, the API stayed alive, readiness reported that very service as failing, the restart
  succeeded, readiness recovered, and a job created afterwards was seen \<open>COMPLETED\<close>; and in every run, also one that ends with an
  unexpected error, each service that was stopped is started again afterwards, with the same compose file and environment.\<close>

theorem chaos_check_sound:
  "(fst (verify_chaos key file envf c) = 0 \<longleftrightarrow> truthy key \<and> ce_env_file c \<and> ce_config c \<and> live_ok (ce_baseline c)
      \<and> outage_survived (ce_postgres c) ''postgres'' \<and> outage_survived (ce_rabbitmq c) ''rabbitmq'')
   \<and> (commands (snd (verify_chaos key file envf c)) = before @ buildComposeCommand (env_or file ''infra/docker-compose.prod.yml'')
          (env_or envf ''infra/.env.production'') (''stop '' @ svc) # later \<longrightarrow>
        buildComposeCommand (env_or file ''infra/docker-compose.prod.yml'') (env_or envf ''infra/.env.production'') (''start '' @ svc) \<in> set later)
   \<and> (outage_survived env f \<longrightarrow> Poll_status ''COMPLETED'' \<in> set (oe_job_polls env))"
proof -
  let ?c = "c\<lparr>ce_compose_file := env_or file ''infra/docker-compose.prod.yml'', ce_env_file_name := env_or envf ''infra/.env.production''\<rparr>"
  from chaos_main_sound [of ?c before svc later env f] show ?thesis by (cases "truthy key") (simp_all add: verify_chaos_def Let_def)
qed

theorem chaos_check_sound_witness:
  "Poll_status ''COMPLETED'' \<in> set [Poll_status ''QUEUED'', Poll_status ''COMPLETED'']
   \<and> outage_survived \<lparr>oe_stop = True, oe_live = Probe 200 JNull, oe_ready = Probe 503 (JObj [(''postgres'', JStr ''error'')]),
        oe_start = True, oe_polls = [No_answer, Probe 200 (JObj [(''postgres'', JStr ''ok'')])], oe_created = Inr 201,
        oe_job_polls = [Poll_status ''QUEUED'', Poll_status ''COMPLETED'']\<rparr> ''postgres''"
proof -
  let ?env = "\<lparr>oe_stop = True, oe_live = Probe 200 JNull, oe_ready = Probe 503 (JObj [(''postgres'', JStr ''error'')]),
        oe_start = True, oe_polls = [No_answer, Probe 200 (JObj [(''postgres'', JStr ''ok'')])], oe_created = Inr 201,
        oe_job_polls = [Poll_status ''QUEUED'', Poll_status ''COMPLETED'']\<rparr>"
  have s: "outage_survived ?env ''postgres''"
    by (simp add: outage_survived_def live_ok_def outage_observed_def recovered_now_def field_is_def js_get_def
        createJobAndWaitForCompletion_def)
  then have "Poll_status ''COMPLETED'' \<in> set (oe_job_polls ?env)" using chaos_check_sound by blast
  with s show ?thesis by simp
qed

end
