(* ===== verification/Migrate.thy ===== *)
theory Migrate
  imports Prelude "HOL-Library.List_Lexorder" "HOL-Library.Char_ord"
begin

text \<open>
  The migration runner (apps/api/src/scripts/migrate.ts). What a migration file does to the database is
  not part of the runner: \<open>apply_sql\<close> is a parameter, from the name of a file and a schema to an error
  or the new schema; a file with transaction commands of its own is not such a function. The runner's own
  state is the ledger table. Each pending file runs in its own transaction, whose statements may fail
  (record \<open>mig_io\<close>). The advisory lock serialises runs, so that a run sees no other; its release at the
  end is best effort and changes neither table.
\<close>

section \<open>Definitions\<close>

record 'd migration_db =
  ledger :: "string list"
  schema :: 'd

text \<open>A statement is executed, fails, or is executed with its answer lost.\<close>

datatype fault = Fine | Fails js_error | Lost js_error

text \<open>The fate of reading one file, and of its statements: \<open>BEGIN\<close>, the file, the ledger insert, \<open>COMMIT\<close>, and of a \<open>ROLLBACK\<close>.\<close>

record mig_io =
  mi_read :: fault
  mi_begin :: fault
  mi_sql :: fault
  mi_insert :: fault
  mi_commit :: fault
  mi_rollback :: fault

definition smooth_mig :: mig_io where
  "smooth_mig = \<lparr>mi_read = Fine, mi_begin = Fine, mi_sql = Fine, mi_insert = Fine, mi_commit = Fine, mi_rollback = Fine\<rparr>"

definition ends_with_sql :: "string \<Rightarrow> bool" where
  "ends_with_sql name \<longleftrightarrow> drop (length name - 4) name = ''.sql''"

text \<open>\<open>readdirSync(dir).filter(\<dots>).sort()\<close>: by code units.\<close>

definition migration_files :: "string list \<Rightarrow> string list" where
  "migration_files dir = sort (filter ends_with_sql dir)"

definition pending_migrations :: "string list \<Rightarrow> string list \<Rightarrow> string list" where
  "pending_migrations filenames alreadyApplied = filter (\<lambda>name. name \<notin> set alreadyApplied) filenames"

text \<open>One file: committed, or failed with the database as before, or committed without an answer. The ledger's key is the filename.\<close>

definition migrate_file ::
  "(string \<Rightarrow> 'd \<Rightarrow> js_error + 'd) \<Rightarrow> mig_io \<Rightarrow> string \<Rightarrow> 'd migration_db \<Rightarrow> bool \<times> 'd migration_db" where
  "migrate_file apply_sql i filename s =
     (case (mi_begin i, mi_sql i, apply_sql filename (schema s), mi_insert i) of
        (Fine, Fine, Inr d, Fine) \<Rightarrow>
          (if filename \<in> set (ledger s) then (False, s)
           else (let s' = s\<lparr>ledger := ledger s @ [filename], schema := d\<rparr> in
                 case mi_commit i of Fine \<Rightarrow> (True, s') | Fails e \<Rightarrow> (False, s) | Lost e \<Rightarrow> (False, s')))
      | _ \<Rightarrow> (False, s))"

datatype exit_state = Exit_ok | Exit_config | Exit_failed string | Exit_unexpected js_error

text \<open>
  The loop: a failing file stops the run; a file that cannot be read and a failing \<open>ROLLBACK\<close> are thrown
  to \<open>main().catch\<close>.
\<close>

fun migrate_loop ::
  "(string \<Rightarrow> 'd \<Rightarrow> js_error + 'd) \<Rightarrow> mig_io list \<Rightarrow> string list \<Rightarrow> 'd migration_db \<Rightarrow> exit_state \<times> 'd migration_db" where
  "migrate_loop apply_sql ios [] s = (Exit_ok, s)"
| "migrate_loop apply_sql ios (filename # rest) s =
     (let i = (case ios of [] \<Rightarrow> smooth_mig | i # _ \<Rightarrow> i) in
      case mi_read i of
        Fails e \<Rightarrow> (Exit_unexpected e, s)
      | Lost e \<Rightarrow> (Exit_unexpected e, s)
      | Fine \<Rightarrow> (case migrate_file apply_sql i filename s of
            (True, s') \<Rightarrow> migrate_loop apply_sql (tl ios) rest s'
          | (False, s') \<Rightarrow> ((case mi_rollback i of
                Fine \<Rightarrow> Exit_failed filename | Fails e \<Rightarrow> Exit_unexpected e | Lost e \<Rightarrow> Exit_unexpected e), s')))"

text \<open>
  \<open>main\<close>: the value of \<open>DATABASE_URL\<close>, the directory (\<open>None\<close> when it cannot be read), and the fate of the
  statements before the loop (connect, lock, creation of the ledger table if it is missing, reading it).
\<close>

definition migrate_main ::
  "(string \<Rightarrow> 'd \<Rightarrow> js_error + 'd) \<Rightarrow> string option \<Rightarrow> fault \<Rightarrow> mig_io list \<Rightarrow> string list option \<Rightarrow> 'd migration_db
   \<Rightarrow> exit_state \<times> 'd migration_db" where
  "migrate_main apply_sql databaseUrl before ios directory s =
     (if \<not> truthy databaseUrl then (Exit_config, s)
      else (case directory of
          None \<Rightarrow> (Exit_config, s)
        | Some dir \<Rightarrow> (let filenames = migration_files dir in
            if length filenames = 0 then (Exit_ok, s)
            else (case before of
                Fails e \<Rightarrow> (Exit_unexpected e, s)
              | Lost e \<Rightarrow> (Exit_unexpected e, s)
              | Fine \<Rightarrow> (let pending = pending_migrations filenames (ledger s) in
                    if length pending = 0 then (Exit_ok, s) else migrate_loop apply_sql ios pending s)))))"

section \<open>Facts\<close>

text \<open>The schema that applying a list of files in order produces.\<close>

fun applied :: "(string \<Rightarrow> 'd \<Rightarrow> js_error + 'd) \<Rightarrow> string list \<Rightarrow> 'd \<Rightarrow> 'd option" where
  "applied apply_sql [] d = Some d"
| "applied apply_sql (f # fs) d = (case apply_sql f d of Inl e \<Rightarrow> None | Inr d' \<Rightarrow> applied apply_sql fs d')"

lemma applied_snoc:
  "applied a fs d = Some d1 \<Longrightarrow> a f d1 = Inr d2 \<Longrightarrow> applied a (fs @ [f]) d = Some d2"
  by (induction fs arbitrary: d) (auto split: sum.splits)

lemma migrate_file_cases:
  assumes "migrate_file a i f s = (ok, s')"
  shows "\<not> ok \<and> s' = s \<or> (\<exists>d. a f (schema s) = Inr d \<and> s' = s\<lparr>ledger := ledger s @ [f], schema := d\<rparr>)"
  using assms by (auto simp: migrate_file_def Let_def split: fault.splits sum.splits if_splits)

text \<open>A run of the loop applies a prefix of its files, records exactly those, and ends normally only with all.\<close>

lemma migrate_loop_prefix:
  assumes "migrate_loop a ios fs s = (x, s')" and "applied a (ledger s) d0 = Some (schema s)"
  shows "\<exists>k \<le> length fs. ledger s' = ledger s @ take k fs \<and> applied a (ledger s') d0 = Some (schema s')
    \<and> (x = Exit_ok \<longrightarrow> k = length fs)"
  using assms
proof (induction fs arbitrary: ios s)
  case Nil
  then show ?case by simp
next
  case (Cons f fs)
  let ?i = "case ios of [] \<Rightarrow> smooth_mig | i # _ \<Rightarrow> i"
  obtain ok s1 where m: "migrate_file a ?i f s = (ok, s1)" by fastforce
  show ?case
  proof (cases "mi_read ?i = Fine")
    case False
    with Cons.prems have "x \<noteq> Exit_ok" "s' = s" by (auto simp: Let_def split: fault.splits)
    with Cons.prems(2) show ?thesis by (intro exI [of _ 0]) simp
  next
    case rd: True
    show ?thesis
  proof (cases ok)
    case True
    with migrate_file_cases [OF m] obtain d where d: "a f (schema s) = Inr d" "s1 = s\<lparr>ledger := ledger s @ [f], schema := d\<rparr>" by blast
    have "applied a (ledger s1) d0 = Some (schema s1)" using applied_snoc [OF Cons.prems(2) d(1)] d(2) by simp
    moreover have "migrate_loop a (tl ios) fs s1 = (x, s')" using Cons.prems(1) m True rd by simp
    ultimately obtain k where "k \<le> length fs" "ledger s' = ledger s1 @ take k fs" "applied a (ledger s') d0 = Some (schema s')"
      "x = Exit_ok \<longrightarrow> k = length fs" using Cons.IH by blast
    with d(2) show ?thesis by (intro exI [of _ "Suc k"]) auto
  next
    case False
    with Cons.prems(1) m rd have x: "x \<noteq> Exit_ok" "s' = s1" by (auto split: fault.splits)
    from migrate_file_cases [OF m] show ?thesis
    proof
      assume "\<not> ok \<and> s1 = s"
      with x Cons.prems(2) show ?thesis by (intro exI [of _ 0]) simp
    next
      assume "\<exists>d. a f (schema s) = Inr d \<and> s1 = s\<lparr>ledger := ledger s @ [f], schema := d\<rparr>"
      with x applied_snoc [OF Cons.prems(2)] show ?thesis by (intro exI [of _ "Suc 0"]) auto
    qed
  qed
  qed
qed

lemma pending_ordered:
  assumes "distinct dir"
  shows "sorted (pending_migrations (migration_files dir) l) \<and> distinct (pending_migrations (migration_files dir) l)"
proof -
  have "sorted (map (\<lambda>f. f) (pending_migrations (migration_files dir) l))"
    unfolding pending_migrations_def by (rule sorted_filter) (simp add: migration_files_def)
  with assms show ?thesis by (simp add: pending_migrations_def migration_files_def)
qed

lemma pending_fresh: "\<forall>f \<in> set (pending_migrations fs l). f \<notin> set l"
  by (simp add: pending_migrations_def)

lemma migrate_main_prefix:
  assumes "applied a (ledger s) d0 = Some (schema s)" and "migrate_main a (Some url) before ios (Some dir) s = (x, s')" and "url \<noteq> []"
  shows "\<exists>k. ledger s' = ledger s @ take k (pending_migrations (migration_files dir) (ledger s))
     \<and> applied a (ledger s') d0 = Some (schema s')
     \<and> (x = Exit_ok \<longrightarrow> k = length (pending_migrations (migration_files dir) (ledger s)))"
proof -
  let ?p = "pending_migrations (migration_files dir) (ledger s)"
  consider "s' = s" "x = Exit_ok \<longrightarrow> ?p = []" | "migrate_loop a ios ?p s = (x, s')"
    using assms(2,3) by (auto simp: migrate_main_def Let_def truthy_def pending_migrations_def split: if_splits fault.splits)
  then show ?thesis
  proof cases
    case 1
    with assms(1) show ?thesis by (intro exI [of _ 0]) auto
  next
    case 2
    from migrate_loop_prefix [OF this assms(1)] show ?thesis by blast
  qed
qed

lemma smooth_loop:
  assumes "\<forall>f d. \<exists>d'. a f d = Inr d'" and "\<forall>f \<in> set fs. f \<notin> set (ledger s)" and "distinct fs"
  shows "fst (migrate_loop a [] fs s) = Exit_ok"
  using assms(2,3)
proof (induction fs arbitrary: s)
  case Nil
  then show ?case by simp
next
  case (Cons f fs)
  obtain d where d: "a f (schema s) = Inr d" using assms(1) by blast
  have "migrate_file a smooth_mig f s = (True, s\<lparr>ledger := ledger s @ [f], schema := d\<rparr>)"
    using Cons.prems d by (simp add: migrate_file_def smooth_mig_def)
  moreover have "mi_read smooth_mig = Fine" by (simp add: smooth_mig_def)
  ultimately show ?case using Cons.IH [of "s\<lparr>ledger := ledger s @ [f], schema := d\<rparr>"] Cons.prems by auto
qed

section \<open>Properties\<close>

text \<open>C37. The ledger tells the truth. Whatever statement of whatever file fails, and however often the runner is run, the schema
  is what applying the files of the ledger in order makes of the initial one. A run adds only files that were missing,
  each once, in the order of their names and without gaps; it ends normally only when every file of the directory is in the
  ledger, after which another run changes nothing. Without faults, and with files that can be applied, it does end normally.\<close>

theorem ledger_truthful:
  assumes "applied a (ledger s) d0 = Some (schema s)" and "distinct dir"
    and "migrate_main a (Some url) before ios (Some dir) s = (x, s')" and "url \<noteq> []"
  shows "applied a (ledger s') d0 = Some (schema s')
     \<and> (\<exists>k. ledger s' = ledger s @ take k (pending_migrations (migration_files dir) (ledger s)))
     \<and> sorted (pending_migrations (migration_files dir) (ledger s)) \<and> distinct (pending_migrations (migration_files dir) (ledger s))
     \<and> (x = Exit_ok \<longrightarrow> set (migration_files dir) \<subseteq> set (ledger s') \<and> migrate_main a (Some url) Fine ios' (Some dir) s' = (Exit_ok, s'))
     \<and> (before = Fine \<longrightarrow> ios = [] \<longrightarrow> (\<forall>f d. \<exists>d'. a f d = Inr d') \<longrightarrow> x = Exit_ok)"
proof -
  let ?p = "pending_migrations (migration_files dir) (ledger s)"
  have srt: "sorted ?p" and dis: "distinct ?p" using pending_ordered [OF assms(2)] by auto
  obtain k where k: "ledger s' = ledger s @ take k ?p" "applied a (ledger s') d0 = Some (schema s')" "x = Exit_ok \<longrightarrow> k = length ?p"
    using migrate_main_prefix [OF assms(1,3,4)] by blast
  have all: "set (migration_files dir) \<subseteq> set (ledger s')" if "x = Exit_ok"
    using that k(1,3) by (auto simp: pending_migrations_def)
  then have "pending_migrations (migration_files dir) (ledger s') = []" if "x = Exit_ok"
    using that by (auto simp: pending_migrations_def filter_empty_conv)
  then have "migrate_main a (Some url) Fine ios' (Some dir) s' = (Exit_ok, s')" if "x = Exit_ok"
    using that assms(4) by (simp add: migrate_main_def Let_def truthy_def)
  moreover have "x = Exit_ok" if "before = Fine" "ios = []" "\<forall>f d. \<exists>d'. a f d = Inr d'"
    using assms(3,4) that smooth_loop [where s = s, OF that(3) pending_fresh dis]
    by (auto simp: migrate_main_def Let_def truthy_def split: if_splits)
  ultimately show ?thesis using k srt dis all by blast
qed

theorem ledger_truthful_witness:
  "let a = (\<lambda>f (d :: string list). Inr (d @ [f]) :: js_error + string list);
       s = \<lparr>ledger = [''1.sql''], schema = [''1.sql'']\<rparr> in
   \<exists>s'. migrate_main a (Some ''url'') Fine [] (Some [''2.sql'', ''readme'', ''1.sql'']) s = (Exit_ok, s')
     \<and> applied a (ledger s') [] = Some (schema s')"
proof -
  let ?a = "\<lambda>f (d :: string list). Inr (d @ [f]) :: js_error + string list"
  let ?s = "\<lparr>ledger = [''1.sql''], schema = [''1.sql'']\<rparr>"
  obtain x s' where r: "migrate_main ?a (Some ''url'') Fine [] (Some [''2.sql'', ''readme'', ''1.sql'']) ?s = (x, s')" by fastforce
  with ledger_truthful [where ?d0.0 = "[]", OF _ _ r] show ?thesis by simp
qed

end
