(* ===== verification/Spec2Isabelle.thy ===== *)
theory Spec2Isabelle
  imports FairRuns DeadLetters RetryQueue EndToEnd ApiProcess Fleet Latency ChaosCheck Migrate
begin

text \<open>
  \<^bold>\<open>A verification of the DeadLetter platform.\<close>

  DeadLetter accepts jobs over HTTP, stores them in PostgreSQL, hands them to workers through RabbitMQ, retries
  the ones that fail, dead-letters the ones that keep failing and lets an operator replay those. Two processes
  share the database and the broker: the API (src/apps/api), which also runs the outbox dispatcher and the live
  updates, and the workers (src/apps/worker). A dashboard (src/apps/dashboard) talks to the API.

  \<^bold>\<open>How the parts interact.\<close> The API creates a job and an outbox event in one transaction; the dispatcher claims
  events, publishes a message for each and marks it published; a worker receives a message, claims the job with a
  guarded \<open>UPDATE\<close>, processes it and records the outcome; a failure publishes a message to the retry queue, whose
  expiry leads it back to the jobs queue, or to the dead-letter queue; a replay puts the job back and adds an
  outbox event. The database is the only shared truth, and every component can crash between two \<open>await\<close>s.

  \<^bold>\<open>The theories and the code they model.\<close>

  \<^item> \<open>Prelude\<close>: JSON values, errors, results, text of numbers, the collections of rules the components share, and the
    locale \<open>machine_invariant\<close> for step functions folded over events, interpreted for the connection, both processes, the
    hook and the dashboard.
  \<^item> \<open>Database\<close>: the two tables as lists of records, statements as functions to an error or an answer with the
    new tables, the fates of a query (executed, failed, executed with the answer lost), the invariant of the schema,
    and the locale \<open>job_statement\<close>: the contract of a guarded \<open>UPDATE\<close> on jobs, interpreted for every such
    statement of the sources.
  \<^item> \<open>Lifecycle\<close>: the abstract life of a job, the state machine of docs/failure-handling.md, with its invariant.
  \<^item> \<open>WorkerJobs\<close>: apps/worker/src/services/jobService.ts and retry/claimPolicy.ts, each statement with its guard.
  \<^item> \<open>RetryPolicy\<close>: the delay formulas of the worker and the dashboard, instances of one locale.
  \<^item> \<open>Broker\<close>: the topology and the publishers (queue/connection.ts, queue/publisher.ts, queue/retryPublisher.ts).
  \<^item> \<open>Connection\<close>: the cached connection of both processes, all interleavings of callers and events.
  \<^item> \<open>Consumer\<close>: apps/worker/src/consumer.ts with processors/*: the message handler as a machine with one control
    point per \<open>await\<close>, and the resubscription loop.
  \<^item> \<open>Outbox\<close>: apps/api/src/outbox: the statements and the dispatcher batch, again one control point per \<open>await\<close>.
  \<^item> \<open>ApiJobs\<close>: apps/api/src/services and db/withTransaction.ts: creation, replay, reading, statistics.
  \<^item> \<open>Doubles\<close>, \<open>RateLimiter\<close>: middleware/rateLimiter.ts over IEEE doubles, represented as rationals with an
    explicit rounding after each operation; the limiter rests on the locale \<open>rounding\<close>.
  \<^item> \<open>ApiHttp\<close>: config/env.ts, middleware/auth.ts and backpressure.ts, the routes, CORS and the error handler.
  \<^item> \<open>Validation\<close>: validation/jobSchema.ts, the environment schemas of both processes and what the code does with their outcome. The
    schemas are values of a datatype with one constructor per combinator used; the interpreter of the package is a parameter whose
    documented behaviour is the predicate \<open>zod_documented\<close>, and \<open>plain_zod\<close> shows that it can be had.
  \<^item> \<open>ExpressApp\<close>: app.ts as a whole: the trusted proxy hop, the order of the middlewares, the routers, the error handler, and
    the reverse proxy of the dashboard's container in front of it.
  \<^item> \<open>LiveUpdates\<close>: db/changeDetector.ts and ws/*: cursor, tick, ticks that overlap, and broadcast.
  \<^item> \<open>Migrate\<close>: scripts/migrate.ts.
  \<^item> \<open>WorkerProcess\<close>: apps/worker/src/index.ts and health.ts, \<open>subscribe\<close>, \<open>resubscribeWithBackoff\<close> and \<open>startConsumer\<close> on the
    cached connection: both subscribing tasks \<open>await\<close> by \<open>await\<close>, among lost connections, publishing handlers and signals.
  \<^item> \<open>ApiProcess\<close>: apps/api/src/index.ts, the API's \<open>getChannel\<close> with every \<open>await\<close>, \<open>checkRabbitMQHealth\<close> and the readiness
    route, the two intervals and the shutdown.
  \<^item> \<open>Dashboard\<close>: the WebSocket hook, the stored key, the client and the replay action of apps/dashboard.
  \<^item> \<open>Console\<close>: the replay action of the dashboard against the replay route of the API.
  \<^item> \<open>LiveView\<close>: App.tsx with its effects, requests and answers, fed by the broadcasts of the API, any number of them in one render; scripts/verify-ws.js.
  \<^item> \<open>Views\<close>: what Overview, JobList, StatusBadge, JobDetail and the page show, with the bar widths in doubles.
  \<^item> \<open>Refresh\<close>: the reading calls of the client through the Express application to the tables, and back onto the page.
  \<^item> \<open>Latency\<close>, \<open>ChaosCheck\<close>: scripts/verify-latency.js (percentiles in doubles, and \<open>main\<close>) and scripts/verify-chaos.js (the whole check).
  \<^item> \<open>Platform\<close>: the composition, a step relation \<open>sys_step\<close> on the tables, the broker, any number of handlers and
    any number of dispatcher batches: creation, replay, delivery, one step of a handler or a batch with any outcome of
    its query or publish, expiry of retry messages, crashes of workers and dispatchers, and, when the parameter
    \<open>drops\<close> allows it, the loss of a channel under a living worker.
  \<^item> \<open>PlatformInv\<close>: the invariant of the composition, by rule induction over the reachable states.
  \<^item> \<open>Outcomes\<close>: the invariant that ties a delivery past its claim to the row it will write, and a recorded outcome to the processor.
  \<^item> \<open>Progress\<close>: fault-free steps of the composition, and that they can bring every waiting job to its end.
  \<^item> \<open>Fairness\<close>, \<open>FairRuns\<close>: infinite runs that are fault-free from some state on and weakly fair, over the database's clock, with handlers whose channel was lost before still at work; the locale
    \<open>just_action\<close> (an action that stays ready until it is taken), interpreted for handlers, batches, queued messages and retry
    delays; the locale \<open>platform_run\<close> in which every waiting job is shown to end, interpreted on a concrete run.
  \<^item> \<open>RetryQueue\<close>: the time a retry message waits when a queue expires messages at its head only.
  \<^item> \<open>DeadLetters\<close>: the messages of the dead-letter queue counted against the dead-letterings of the rows, over all reachable states.
  \<^item> \<open>Stranded\<close>: the states in which a job is stuck for good, and concrete runs of the platform into them, by a crash and by the loss of a channel.
  \<^item> \<open>Fleet\<close>: the composition with its worker processes: the handlers on the connections of the processes of \<open>WorkerProcess\<close>, which share
    a counter of failed queries and end with their process; it refines \<open>Platform\<close> up to the lengths of pauses.
  \<^item> \<open>EndToEnd\<close>: the Express application on the platform: requests as steps of the composition, and an accepted job from the request to the
    row that the client reads.
  \<^item> \<open>Spec2Isabelle\<close> (this theory): the properties of the platform as a whole.

  \<^bold>\<open>What is shown.\<close> For the platform: no queued job is ever forgotten, nor a retrying one as long as no channel is lost under a living worker; every step refines the documented state
  machine; completion is final; the counters tell the history; the rows are consistent and well-typed; what they record is true of the processor, whichever
  worker recorded it; in every fair run, from whatever reachable state, every waiting job that is not lost already ends, however steps, duplicates and stale claims interleave; from every
  reachable state such a job can be finished without touching another, and all of them can, by steps that do not fail (both as long as the
  lifetime counters stay within their \<open>INT\<close> columns); the dead-letter
  queue never overstates; a retry waits at least its backoff and at most 20 seconds. For the handler: what it does
  in each case of success, retryable and final failure, failing bookkeeping, outage and malformed message, and that it
  always ends. For the outbox: what a claim takes, that claims are disjoint, that a batch ends, and what it does with and
  without faults. For the API: atomic creation, single replay, the routes and their guards, the rate limiter's bounds; and for the application
  as a whole, that its requests are steps of the platform, that an accepted job ends in every fair run, that only authorised requests write, that only valid bodies create, whose budget a request is charged to, what a failure
  tells a client, and that a configuration it starts with is usable.
  For the processes: with all their connections, crashes and restarts the worker processes do nothing that the composition does not describe, and \<open>ack\<close> works exactly
  while the connection of the delivery is up; a worker that lives listens or is on its way back, the readiness probe is truthful, start and stop of the API.
  For the rest: the cached connection, the poller, the migration ledger, the reconnecting hook, the replay
  from the dashboard to the database, the way of a change from the table to the screen, a refresh from the tables to the page, what
  the views show, and what the
  verification scripts establish when they pass. Some theorems state what the code does where its comments promise more:
  \<open>crash_strands_job\<close>, \<open>retrying_job_can_be_lost\<close>, \<open>batched_notification_missed\<close>, \<open>null_body_poison\<close>, \<open>dead_letter_lost\<close>, \<open>late_mark_accepted\<close>, \<open>poller_repeats\<close>, \<open>worker_goes_deaf\<close>,
  \<open>connections_leak\<close>, \<open>direct_client_chooses_bucket\<close> and \<open>detail_can_be_stale\<close>.

  \<^bold>\<open>What is assumed of the environment.\<close> PostgreSQL executes a statement atomically, or fails without effect, or
  executes it and loses the answer; a transaction likewise; \<open>now()\<close> is any timestamp the environment chooses. How it
  reads a parameter as a \<open>uuid\<close> is the parameter \<open>uin\<close>. It stores no NUL character in \<open>TEXT\<close> or \<open>JSONB\<close>. RabbitMQ does what the AMQP calls of the sources document; a
  published message is delivered, lost with its connection, or refused. The sources do not wait for publisher
  confirms, so the composition \<open>Platform\<close> assumes that an accepted message is not lost; the handler and the
  dispatcher on their own are also described for a lost one. It assumes too that a lost database connection does
  not carry the error code of a malformed identifier. A message body is kept as the JSON value its
  text denotes. Third-party packages are parameters with their documented behaviour as named hypotheses, each met by a concrete function
  in the witness of the theorem that uses it: \<open>zod_documented\<close> (the schema interpreter, version 4: integers are safe integers, a record loses a key \<open>__proto__\<close>), \<open>trusts_hops\<close> (the client's address),
  \<open>bodiless_pass\<close> (the body parser), \<open>reads_milliseconds\<close> and \<open>expires_at_head\<close> (expiry in a queue). The effect of a migration
  file is a parameter. Timestamps are integers, in microseconds in the tables, in milliseconds in the processes.

  \<^bold>\<open>Loops and fuel.\<close> All definitions are total. The handler and the batch are step functions; their runs are
  folds over the list of outcomes of their \<open>await\<close>s, and \<open>handler_ends\<close> and \<open>dispatch_ends\<close> show that five and
  thirty-one outcomes are always enough. The resubscription loop recurs over the list of outcomes of its attempts; loops up to
  a deadline recur over the list of the answers that come in time. Infinite runs are functions from the natural numbers, without fuel. The processes and the dashboard are machines: their runs
  are folds of a step function over lists of events.

  \<^bold>\<open>What is not modelled.\<close> Connection pools, loggers and log calls, compression, test-only delays, which texts the packages accept as
  numbers and UUIDs and how they word their errors, markup and styles of the dashboard, its mount and build. Test suites and build files are not modelled
  either. Fair runs are runs of \<open>Platform\<close>, whose workers are slots without connections: a worker that has gone deaf (\<open>worker_goes_deaf\<close>) is there a
  slot that takes no delivery, and the fairness of the jobs queue asks that some other worker takes each message.
  The loss of a connection and the delivery of its event are one step of the worker process: the moment between them is not modelled. Text is a sequence of
  8-bit characters, so that lone surrogates, which PostgreSQL rejects too, do not occur. A fair run has no faults: a
  crash inside it can strand a job (\<open>crash_strands_job\<close>), so that faults are assumed to lie before it. The composition lets retry messages expire in any order; \<open>RetryQueue\<close> treats their order apart.
\<close>

section \<open>The platform as a whole\<close>

text \<open>C1. No waiting job is forgotten. In every reachable state of the platform, with any number of API requests,
  dispatcher batches, workers, crashes of either, failing or half-completed queries and failing publishes in any order, as long
  as the broker keeps the messages it accepted, a job that is \<open>QUEUED\<close> is tracked: an unpublished outbox event names it that no batch is about to mark, or a
  message in the jobs or the retry queue does, or a delivery that will claim it, publish it or put it back. This holds even if channels are lost under
  living workers, so that the broker redelivers messages whose first delivery is still being worked on and cannot be acknowledged any more. A job that is
  \<open>RETRYING\<close> is tracked in every state that is reached without such a loss (workers and their connections may still crash together); with one it
  can be lost, as \<open>retrying_job_can_be_lost\<close> in theory \<open>Stranded\<close> shows.\<close>

theorem no_waiting_job_lost:
  assumes "sys_reach uin drops s" and "find_job (s_db s) u = Some j" and "status j = QUEUED \<or> status j = RETRYING \<and> \<not> drops"
  shows "tracked uin s u"
  using plat_invD(7) [OF sys_reach_inv [OF assms(1)]] assms(2,3) by (auto simp: nothing_lost_def waiting_def)

theorem no_waiting_job_lost_witness:
  "tracked plain_uin
     (tape_state \<lparr>jobs = [tape_job], outbox_events = [tape_published]\<rparr> (tape_broker [job_created ''j1'']) None None) ''j1''"
  using no_waiting_job_lost [OF tape_dispatched [OF no_nul(3), of True] tape_find [of tape_job, simplified]] by (simp add: new_job_def)

text \<open>C2. The platform refines the documented life of a job. Every step, of whatever component, leaves each job's row alone or
  is one step of the state machine for it (claim, complete, retry, dead-letter, replay) that keeps its identity, type,
  payload and budget; jobs never vanish, and a job that appears is newborn: queued, with no attempt and no error.\<close>

theorem platform_refines_lives:
  assumes "sys_reach uin drops s" and "sys_step uin drops s s'"
  shows "(\<forall>u j. find_job (s_db s) u = Some j \<longrightarrow> find_job (s_db s') u = Some j \<or>
        (\<exists>e j'. find_job (s_db s') u = Some j' \<and> life_step (life_of j) e (life_of j') \<and> same_identity j j'))
   \<and> (\<forall>u j'. find_job (s_db s) u = None \<longrightarrow> find_job (s_db s') u = Some j' \<longrightarrow> life_of j' = newborn)"
  using sys_step_lives [OF assms(2) sys_reach_inv [OF assms(1)]] unfolding lives_on_def .

theorem platform_refines_lives_witness:
  "\<exists>j. find_job (s_db (tape_state \<lparr>jobs = [tape_job], outbox_events = [tape_event]\<rparr> (tape_broker []) None None)) ''j1'' = Some j
     \<and> life_of j = newborn"
proof -
  have "find_job (s_db sys_init) ''j1'' = None" by (simp add: sys_init_def find_job_def)
  with platform_refines_lives [OF sys_reach.start tape_create [OF no_nul(3)]] tape_find [of tape_job "[tape_event]"] show ?thesis
    by (metis jid_new_job)
qed

text \<open>C9. The counters of a job tell its history. For every job of every reachable state there is a sequence of events, each
  allowed by the state machine, from its creation to its row, and the lifetime attempts count the claims in it, the
  replay count the replays, the attempts of the current cycle the claims since the last replay.\<close>

theorem counters_tell_history:
  assumes "sys_reach uin drops s" and "find_job (s_db s) u = Some j"
  shows "\<exists>es. life_run newborn es (life_of j)
     \<and> total_attempt_count j = int (count_list es Claim) \<and> replay_count j = int (count_list es Replay)
     \<and> attempt_count j = claims_since_replay 0 es"
proof -
  have "life_reach (life_of j)" using plat_invD(2) [OF sys_reach_inv [OF assms(1)]] assms(2) by (auto simp: lives_ok_def)
  then obtain es where "life_run newborn es (life_of j)" using life_reach_run by blast
  with life_run_counts [OF this] show ?thesis by (auto simp: newborn_def)
qed

theorem counters_tell_history_witness:
  "\<exists>es. life_run newborn es (life_of (claim_set 1 tape_job)) \<and> int (count_list es Claim) = 1"
  using counters_tell_history [OF tape_stranded [OF no_nul(3)] tape_find [of "claim_set 1 tape_job", simplified]]
  by (auto simp: new_job_def claim_set_def)

text \<open>C10. What a row says is consistent at all times: the attempts of the cycle never exceed the lifetime attempts; a queued job
  has no attempts and no error; any other job has been claimed; a completed one has no error; a retrying one has one; a
  dead-lettered one carries its reason as its error; a replayed one still knows why it was dead-lettered; none is \<open>FAILED\<close>.
  And it is true, whichever worker wrote it, however late and after however many other claims: a completed job is one whose processor
  succeeds, a retrying or dead-lettered one carries the error its processor throws, and a retrying one's can be retried.\<close>

theorem rows_consistent:
  assumes "sys_reach uin drops s" and "find_job (s_db s) u = Some j"
  shows "0 \<le> attempt_count j \<and> attempt_count j \<le> total_attempt_count j \<and> status j \<noteq> FAILED
   \<and> (status j = QUEUED \<longrightarrow> attempt_count j = 0 \<and> last_error j = None)
   \<and> (status j \<noteq> QUEUED \<longrightarrow> 1 \<le> attempt_count j)
   \<and> (status j = COMPLETED \<longrightarrow> last_error j = None)
   \<and> (status j = RETRYING \<longrightarrow> last_error j \<noteq> None)
   \<and> (status j = DEAD_LETTERED \<longrightarrow> last_error j = last_dead_letter_reason j \<and> last_error j \<noteq> None)
   \<and> (0 < replay_count j \<longrightarrow> last_dead_letter_reason j \<noteq> None)
   \<and> (status j = COMPLETED \<longrightarrow> processJob j = None)
   \<and> (status j = DEAD_LETTERED \<longrightarrow> (\<exists>err. processJob j = Some err \<and> last_error j = Some (error_text err)))
   \<and> (status j = RETRYING \<longrightarrow> (\<exists>err. processJob j = Some err \<and> last_error j = Some (error_text err) \<and> \<not> is_NonRetryableError err))"
proof -
  have "life_reach (life_of j)" using plat_invD(2) [OF sys_reach_inv [OF assms(1)]] assms(2) by (auto simp: lives_ok_def)
  then have "life_inv (life_of j)" by (rule life_reach_inv)
  moreover have "outcome_ok j" using sys_reach_truthful [OF assms(1)] assms(2) by (auto simp: truthful_def rows_truthful_def)
  ultimately show ?thesis unfolding life_inv_def outcome_ok_def by simp
qed

theorem rows_consistent_witness:
  "1 \<le> attempt_count (claim_set 1 tape_job) \<and> processJob (completed_set 3 (claim_set 1 tape_job)) = None"
  using rows_consistent [OF tape_stranded [OF no_nul(3)] tape_find [of "claim_set 1 tape_job", simplified]]
    rows_consistent [OF tape_completed tape_find [of "completed_set 3 (claim_set 1 tape_job)", simplified]]
  by (auto simp: new_job_def claim_set_def completed_set_def)

text \<open>C8. \<open>COMPLETED\<close> is final: once a job is completed, no step of any run, redelivery, late worker, retry or replay ever
  changes its row again.\<close>

theorem completed_final:
  assumes "sys_reach uin drops s" and "(sys_step uin drops)\<^sup>*\<^sup>* s s'" and "find_job (s_db s) u = Some j" and "status j = COMPLETED"
  shows "find_job (s_db s') u = Some j"
  using assms(2)
proof (induction rule: rtranclp_induct)
  case base
  show ?case by (rule assms(3))
next
  case (step y z)
  have "plat_inv uin drops y" by (rule sys_steps_inv [OF step.hyps(1) sys_reach_inv [OF assms(1)]])
  from sys_step_lives [OF step.hyps(2) this] step.IH assms(4) show ?case
    unfolding lives_on_def by (metis life_of_simps(1) life_step_completed)
qed

theorem completed_final_witness:
  "let j = completed_set 3 (claim_set 1 tape_job);
       s = tape_state \<lparr>jobs = [j], outbox_events = [tape_published]\<rparr> (tape_broker []) None None in
   \<exists>s'. sys_step plain_uin False s s' \<and> find_job (s_db s') ''j1'' = Some j"
proof -
  let ?j = "completed_set 3 (claim_set 1 tape_job)"
  let ?s = "tape_state \<lparr>jobs = [?j], outbox_events = [tape_published]\<rparr> (tape_broker []) None None"
  let ?s' = "?s\<lparr>s_batch := (s_batch ?s)(0 \<mapsto> (D_claim, empty_tally))\<rparr>"
  have st: "sys_step plain_uin False ?s ?s'" by (rule sys_step.batch_start) (simp add: tape_state_def)
  have j: "find_job (s_db ?s) ''j1'' = Some ?j" "status ?j = COMPLETED"
    by (simp_all add: tape_state_def find_job_def set_clauses)
  from completed_final [OF tape_completed r_into_rtranclp [of "sys_step plain_uin False", OF st] j] st show ?thesis unfolding Let_def by blast
qed

text \<open>C4. Waiting jobs end. Take any reachable state of the platform, whatever crashed or failed before it, and whether or not channels were lost under
  living workers. In every fair run from there, every job that is \<open>QUEUED\<close>, and every job that is \<open>RETRYING\<close> and still followed (by an
  event, a message, a delivery, or a handler about to publish its retry; without such losses every \<open>RETRYING\<close> job is), gets its end: it is \<open>COMPLETED\<close>
  if its processor succeeds and \<open>DEAD_LETTERED\<close> otherwise, with the type and payload it was created with.
  In a fair run nothing fails any more, except that handlers whose channel was lost before cannot acknowledge and die of it; clients may still create and
  replay jobs at any time, no handler and no batch rests at one
  \<open>await\<close> for ever, no message waits for ever in the jobs or the retry queue, the timer of the dispatcher keeps starting batches and the
  clock of the database goes on. Deliveries, expiries, duplicate messages, stale claims and concurrent handlers and batches may interleave in any
  order. The condition is that the lifetime counter of the row stays below the end of its \<open>INT\<close> column throughout the run.\<close>

theorem fair_runs_finish:
  assumes "sys_reach uin drops (\<sigma> 0)" and "fair_run uin \<tau> \<sigma>" and "find_job (s_db (\<sigma> 0)) u = Some j"
    and "status j = QUEUED \<or> status j = RETRYING \<and> (\<not> drops \<or> followed uin (\<sigma> 0) u)"
    and "\<forall>n k. find_job (s_db (\<sigma> n)) u = Some k \<longrightarrow> total_attempt_count k < int4_max"
  shows "\<exists>n j'. find_job (s_db (\<sigma> n)) u = Some j' \<and> same_identity j j'
     \<and> status j' = (if processJob j = None then COMPLETED else DEAD_LETTERED)"
proof (rule platform_run.waiting_job_ends [OF platform_run.intro [OF assms(1,2)] assms(3)])
  show "waits j" using assms(4) by (auto simp: waits_def)
  show "followed uin (\<sigma> 0) u"
    using plat_invD(7) [OF sys_reach_inv [OF assms(1)]] assms(3,4) by (auto simp: nothing_lost_def waiting_def followed_def)
qed (use assms(5) in blast)

theorem fair_runs_finish_witness:
  "\<exists>n j'. find_job (s_db (tape_run n)) ''j1'' = Some j' \<and> status j' = COMPLETED"
proof -
  have p: "processJob tape_job = None" by (simp add: processJob_def js_get_def new_job_def)
  have "find_job (s_db (tape_run 0)) ''j1'' = Some tape_job" "status tape_job = QUEUED"
    by (simp_all add: tape_run_def tape_state_def find_job_def new_job_def)
  from fair_runs_finish [OF tape.start [of True] tape_run_fair this(1)] this(2) tape_room p show ?thesis by auto
qed

text \<open>A waiting job can always be finished, and without touching any other. From every reachable state, whatever crashed or failed
  on the way there, steps at which nothing fails (timer ticks of the dispatcher, steps of batches and handlers, deliveries, expiries of
  retry delays) lead to a state in which the job is \<open>COMPLETED\<close> if its processor succeeds and \<open>DEAD_LETTERED\<close> otherwise, within the
  budget of attempts, and every other row is as it was. The job is \<open>QUEUED\<close>, or \<open>RETRYING\<close> and tracked. The only other condition is that the lifetime counter of the row has room for the
  attempts in its \<open>INT\<close> column.\<close>

lemma waiting_job_can_finish:
  assumes "sys_reach uin drops s" and "find_job (s_db s) u = Some j"
    and "status j = QUEUED \<or> status j = RETRYING \<and> (\<not> drops \<or> tracked uin s u)"
    and "total_attempt_count j + max 1 (max_attempts j - attempt_count j) \<le> int4_max"
  shows "\<exists>s' j'. (calm_step uin)\<^sup>*\<^sup>* s s' \<and> find_job (s_db s') = (find_job (s_db s))(u \<mapsto> j')
     \<and> status j' = (if processJob j = None then COMPLETED else DEAD_LETTERED)
     \<and> attempt_count j' \<le> max (max_attempts j) (attempt_count j + 1) \<and> payload j' = payload j \<and> jtype j' = jtype j"
proof (rule waiting_job_finishes [OF sys_reach_sound [OF assms(1)] assms(2)])
  show "waits j" using assms(3) by (auto simp: waits_def)
  show "tracked uin s u"
    using plat_invD(7) [OF sys_reach_inv [OF assms(1)]] assms(2,3) by (auto simp: nothing_lost_def waiting_def)
qed (use assms(4) in \<open>simp add: room_left_def\<close>)

text \<open>C5. The platform can always be drained: from every reachable state, channels lost under living workers included, steps at which nothing fails lead to a
  state in which every job that was queued, or retrying and tracked, has got the end its processor gives it, within its budget, and every other
  job has kept its row. A retrying job is untracked only where channels were lost under living workers. The condition is that the lifetime
  counters of the rows have room for the attempts in their \<open>INT\<close> columns.\<close>

theorem platform_drains:
  assumes "sys_reach uin drops s"
    and "\<forall>j \<in> set (jobs (s_db s)). total_attempt_count j + max 1 (max_attempts j - attempt_count j) \<le> int4_max"
  shows "\<exists>s'. (calm_step uin)\<^sup>*\<^sup>* s s' \<and> dom (find_job (s_db s')) = dom (find_job (s_db s))
     \<and> (\<forall>u j j'. find_job (s_db s) u = Some j \<longrightarrow> find_job (s_db s') u = Some j' \<longrightarrow>
          (if status j = QUEUED \<or> status j = RETRYING \<and> (\<not> drops \<or> tracked uin s u)
           then status j' = (if processJob j = None then COMPLETED else DEAD_LETTERED) \<and> attempt_count j' \<le> max (max_attempts j) (attempt_count j + 1)
           else j' = j))"
proof -
  let ?due = "\<lambda>u. \<exists>j. find_job (s_db s) u = Some j \<and> (status j = QUEUED \<or> status j = RETRYING \<and> (\<not> drops \<or> tracked uin s u))"
  have tr: "tracked uin s u" if "?due u" for u
    using plat_invD(7) [OF sys_reach_inv [OF assms(1)]] that by (auto simp: nothing_lost_def waiting_def)
  have due: "\<forall>u \<in> Collect ?due. tracked uin s u \<and> (\<exists>j. find_job (s_db s) u = Some j \<and> waits j \<and> room_left j)"
  proof
    fix u assume u: "u \<in> Collect ?due"
    then obtain j where j: "find_job (s_db s) u = Some j" "waits j" by (auto simp: waits_def)
    with assms(2) have "room_left j" by (auto simp: room_left_def dest: find_job_Some)
    with tr u j show "tracked uin s u \<and> (\<exists>j. find_job (s_db s) u = Some j \<and> waits j \<and> room_left j)" by blast
  qed
  have fin: "finite (Collect ?due)" by (rule finite_subset [OF _ found_finite [of "s_db s" "\<lambda>_. True"]]) auto
  from jobs_drained [OF fin sys_reach_sound [OF assms(1)] due] obtain s' where s': "(calm_step uin)\<^sup>*\<^sup>* s s'"
    and r: "if u \<in> Collect ?due then rel_option finished_as (find_job (s_db s) u) (find_job (s_db s') u)
       else find_job (s_db s') u = find_job (s_db s) u" for u by blast
  have "find_job (s_db s') u = None \<longleftrightarrow> find_job (s_db s) u = None" for u using r [of u] by (auto elim: option.rel_cases split: if_splits)
  then have "dom (find_job (s_db s')) = dom (find_job (s_db s))" by (auto simp: dom_def)
  moreover have "if status j = QUEUED \<or> status j = RETRYING \<and> (\<not> drops \<or> tracked uin s u)
           then status j' = (if processJob j = None then COMPLETED else DEAD_LETTERED) \<and> attempt_count j' \<le> max (max_attempts j) (attempt_count j + 1)
           else j' = j" if "find_job (s_db s) u = Some j" "find_job (s_db s') u = Some j'" for u j j'
    using r [of u] that unfolding finished_as_def by (auto split: if_splits)
  ultimately show ?thesis using s' by blast
qed

theorem platform_drains_witness:
  "\<exists>s' j'. (calm_step plain_uin)\<^sup>*\<^sup>* (tape_state \<lparr>jobs = [tape_job], outbox_events = [tape_event]\<rparr> (tape_broker []) None None) s'
     \<and> find_job (s_db s') ''j1'' = Some j' \<and> status j' = COMPLETED"
proof -
  let ?s = "tape_state \<lparr>jobs = [tape_job], outbox_events = [tape_event]\<rparr> (tape_broker []) None None"
  have p: "processJob tape_job = None" by (simp add: processJob_def js_get_def new_job_def)
  have q: "status tape_job = QUEUED" by (simp add: new_job_def)
  have f: "find_job (s_db ?s) ''j1'' = Some tape_job" using tape_find [of tape_job] by simp
  have "\<forall>j \<in> set (jobs (s_db ?s)). total_attempt_count j + max 1 (max_attempts j - attempt_count j) \<le> int4_max"
    by (simp add: tape_state_def new_job_def int4_max_def)
  from platform_drains [where drops = True, OF sys_reach.step [OF sys_reach.start tape_create [OF no_nul(3)]] this] obtain s' where s': "(calm_step plain_uin)\<^sup>*\<^sup>* ?s s'"
    "dom (find_job (s_db s')) = dom (find_job (s_db ?s))"
    "\<forall>u j j'. find_job (s_db ?s) u = Some j \<longrightarrow> find_job (s_db s') u = Some j' \<longrightarrow>
          (if status j = QUEUED \<or> status j = RETRYING \<and> (\<not> True \<or> tracked plain_uin ?s u)
           then status j' = (if processJob j = None then COMPLETED else DEAD_LETTERED) \<and> attempt_count j' \<le> max (max_attempts j) (attempt_count j + 1)
           else j' = j)" by blast
  from s'(2) f obtain j' where "find_job (s_db s') ''j1'' = Some j'" by blast
  with s'(1) s'(3) [rule_format, OF f this] p q show ?thesis by auto
qed

text \<open>C11. The tables stay well-typed: in every reachable state the identifiers of jobs and of events are unique, every event belongs to
  a job, and all counters are values of an \<open>INT\<close> column.\<close>

theorem tables_well_typed:
  assumes "sys_reach uin drops s"
  shows "distinct (map jid (jobs (s_db s))) \<and> distinct (map ev_id (outbox_events (s_db s)))
   \<and> (\<forall>e \<in> set (outbox_events (s_db s)). \<exists>j \<in> set (jobs (s_db s)). jid j = ev_job_id e)
   \<and> (\<forall>j \<in> set (jobs (s_db s)). int4 (attempt_count j) \<and> int4 (max_attempts j) \<and> int4 (total_attempt_count j) \<and> int4 (replay_count j))
   \<and> (\<forall>e \<in> set (outbox_events (s_db s)). int4 (attempts e))"
  using plat_invD(1) [OF sys_reach_inv [OF assms]] by (fastforce simp: schema_ok_def list_all_iff job_row_ok_def)

theorem tables_well_typed_witness:
  "\<exists>j \<in> {claim_set 1 tape_job}. jid j = ev_job_id tape_published \<and> int4 (total_attempt_count j)"
  using tables_well_typed [OF tape_stranded [OF no_nul(3)]] by (simp add: tape_state_def)

text \<open>C26. The dashboard offers a replay exactly when the platform would accept it: in every reachable state the detail of a job shows the
  replay button if and only if a replay of the job, without faults, would queue it again; and wherever the button is shown, the
  dead-letter section is shown with it, and gives the reason of the dead-lettering, which is also the job's last error.\<close>

theorem replay_offered_iff_accepted:
  assumes "sys_reach uin drops s" and "find_job (s_db s) u = Some j" and "replay_count j < int4_max"
    and "new_ev \<notin> set (map ev_id (outbox_events (s_db s)))"
  shows "(dv_replay (JobDetail locale_text j) \<longleftrightarrow>
          (\<exists>r d'. claimReplay uin tx_fine new_ev now (Some (JStr u)) (s_db s) = (Inr (Some r), d') \<and> status r = QUEUED))
     \<and> (dv_replay (JobDetail locale_text j) \<longrightarrow>
          (\<exists>reason fs. dv_dead_letter (JobDetail locale_text j) = Some fs \<and> last_dead_letter_reason j = Some reason
             \<and> map_of fs ''Last Dead-Letter Reason'' = Some reason \<and> map_of fs ''Last Error'' = Some reason))"
proof -
  note i = plat_invD [OF sys_reach_inv [OF assms(1)]]
  have u: "uin (Some (JStr u)) = Inr (Some u)" by (rule ids_canonical_find [OF i(4) assms(2)])
  have b: "dv_replay (JobDetail locale_text j) \<longleftrightarrow> is_dead_lettered j" by (simp add: JobDetail_def Let_def is_dead_lettered_def)
  have "is_dead_lettered j \<longleftrightarrow> (\<exists>r d'. claimReplay uin tx_fine new_ev now (Some (JStr u)) (s_db s) = (Inr (Some r), d') \<and> status r = QUEUED)"
  proof (cases "is_dead_lettered j")
    case True
    with claimReplay_hit [where uin = uin and now = now, OF i(1) u assms(4,2) True assms(3)] show ?thesis by (auto simp: replay_set_def)
  next
    case False
    with claimReplay_miss [where uin = uin and now = now, OF i(1) u] assms(2) show ?thesis by auto
  qed
  moreover have "life_inv (life_of j)" using i(2) assms(2) life_reach_inv by (auto simp: lives_ok_def)
  ultimately show ?thesis using b by (auto simp: life_inv_def JobDetail_def Let_def is_dead_lettered_def)
qed

theorem replay_offered_iff_accepted_witness:
  "\<not> dv_replay (JobDetail (\<lambda>_. []) (claim_set 1 tape_job)) \<and>
   (\<nexists>r d'. claimReplay plain_uin tx_fine ''e9'' 5 j1 \<lparr>jobs = [claim_set 1 tape_job], outbox_events = [tape_published]\<rparr> = (Inr (Some r), d')
      \<and> status r = QUEUED)"
proof -
  have "\<not> dv_replay (JobDetail (\<lambda>_. []) (claim_set 1 tape_job))" by (simp add: JobDetail_def Let_def claim_set_def)
  with replay_offered_iff_accepted [OF tape_stranded [OF no_nul(3)] tape_find [of "claim_set 1 tape_job", simplified], of "''e9''" "\<lambda>_. []" 5]
  show ?thesis by (simp add: tape_state_def new_event_def claim_set_def new_job_def int4_max_def)
qed

text \<open>C40. The recovery of crashed workers has a hole. For every payload that can be stored there is a run with one fault, the crash of the worker that has claimed the
  job: the job is created on the fresh platform; without any fault its message is published and delivered, and the job is claimed; the worker
  is killed before it has processed the job, and the broker takes the message back; without any fault the message is delivered again, within the
  stale threshold, finds the job claimed and is acknowledged. Now the job is in \<open>PROCESSING\<close>, and nothing that the platform does, faults, channel
  losses, requests and replays included, will ever change its row: with the message went the only thing that could have led to a reclaim.\<close>

theorem crash_strands_job:
  assumes "storable ''email'' pl"
  shows "\<exists>r d s1 dl j s3. createJob tx_fine ''j1'' ''e1'' 0 ''email'' pl (s_db sys_init) = (Inr r, d)
     \<and> (calm_step plain_uin)\<^sup>*\<^sup>* (sys_init\<lparr>s_db := d\<rparr>) s1
     \<and> s_active s1 0 = Some dl \<and> dl_attached dl \<and> dl_pc dl = At_process (Some (JStr ''j1'')) j \<and> find_job (s_db s1) ''j1'' = Some j
     \<and> sys_step plain_uin False s1 (settle 0 (dl_message dl) True (Finished (Crashed err)) s1)
     \<and> (calm_step plain_uin)\<^sup>*\<^sup>* (settle 0 (dl_message dl) True (Finished (Crashed err)) s1) s3
     \<and> status j = PROCESSING
     \<and> (\<forall>s'. (sys_step plain_uin True)\<^sup>*\<^sup>* s3 s' \<longrightarrow> find_job (s_db s') ''j1'' = Some j)"
proof -
  let ?j = "claim_set 1 (job_with pl)"
  let ?s1 = "tape_state (tape_taken_db pl) (tape_broker []) (tape_busy (At_process j1 ?j) True) None"
  let ?s3 = "tape_state (tape_taken_db pl) (tape_broker []) None None"
  have "\<not> has_nul ''email''" "\<not> json_has_nul (JObj pl)" using assms by (simp_all add: storable_def)
  then have c: "createJob tx_fine ''j1'' ''e1'' 0 ''email'' pl (s_db sys_init) = (Inr (job_with pl), \<lparr>jobs = [job_with pl], outbox_events = [tape_event]\<rparr>)"
    by (simp add: sys_init_def createJob_def withTransaction_fine create_body_def insert_job_def insertOutboxEvent_def
        new_event_def Let_def del: json_has_nul.simps)
  have z: "sys_init\<lparr>s_db := \<lparr>jobs = [job_with pl], outbox_events = [tape_event]\<rparr>\<rparr> = tape_fresh pl"
    by (simp add: sys_init_def tape_state_def tape_broker_empty)
  have act: "s_active ?s1 0 = tape_busy (At_process j1 ?j) True" by (simp add: tape_state_def)
  have f: "find_job (s_db ?s1) ''j1'' = Some ?j" "status ?j = PROCESSING"
    by (simp_all add: tape_state_def find_job_def claim_set_def)
  have crash: "sys_step plain_uin False ?s1 (settle 0 (job_created ''j1'') True (Finished (Crashed err)) ?s1)"
    using sys_step.worker_crash [OF act, of plain_uin False err] by simp
  have keep: "find_job (s_db s') ''j1'' = Some ?j" if "(sys_step plain_uin True)\<^sup>*\<^sup>* ?s3 s'" for s'
    by (rule strandedD(1) [OF stranded_forever [OF that sys_reach_inv [OF tape_stranded [OF assms]] tape_is_stranded]])
  have again: "(calm_step plain_uin)\<^sup>*\<^sup>* (settle 0 (job_created ''j1'') True (Finished (Crashed err)) ?s1) ?s3"
    unfolding tape_crash by (rule tape_redelivered)
  show ?thesis
    by (rule exI [of _ "job_with pl"], rule exI [of _ "\<lparr>jobs = [job_with pl], outbox_events = [tape_event]\<rparr>"], rule exI [of _ ?s1],
        rule exI [of _ "\<lparr>dl_message = job_created ''j1'', dl_pc = At_process j1 ?j, dl_attached = True\<rparr>"], rule exI [of _ ?j], rule exI [of _ ?s3])
       (use c tape_processes_job [of pl, folded z] act f crash again keep in simp)
qed

text \<open>At a concrete payload, with an operator who tries to replay the job.\<close>

theorem crash_strands_job_witness:
  "\<exists>s j. let d = snd (claimReplay plain_uin tx_fine ''e2'' 99 (Some (JStr ''j1'')) (s_db s)) in
     sys_step plain_uin True s (s\<lparr>s_db := d\<rparr>) \<and> find_job d ''j1'' = Some j \<and> status j = PROCESSING"
proof -
  have "storable ''email'' [(''n'', JNum 1)]" by (simp add: storable_def has_nul_def)
  from crash_strands_job [OF this] obtain j s3 where p: "status j = PROCESSING"
    and k: "\<forall>s'. (sys_step plain_uin True)\<^sup>*\<^sup>* s3 s' \<longrightarrow> find_job (s_db s') ''j1'' = Some j" by blast
  obtain r d where c: "claimReplay plain_uin tx_fine ''e2'' 99 (Some (JStr ''j1'')) (s_db s3) = (r, d)" by fastforce
  then have st: "sys_step plain_uin True s3 (s3\<lparr>s_db := d\<rparr>)" by (rule sys_step.replay)
  from k [rule_format, OF r_into_rtranclp [of "sys_step plain_uin True", OF st]] have "find_job d ''j1'' = Some j" by simp
  with st p c show ?thesis by (intro exI [of _ s3] exI [of _ j]) simp
qed

text \<open>A message whose body is the JSON text \<open>null\<close> is poison: taking its properties apart throws outside every \<open>try\<close> of the
  handler, so that neither \<open>ack\<close> nor \<open>nack\<close> is reached; the process dies, the broker puts the message back, and the next
  delivery is the same. No delivery of it ever takes it out of the queue.\<close>

lemma null_body_poison:
  assumes "pub_body m = JSON_stringify JNull"
  shows "\<exists>e. on_delivery a (Some (pub_body m)) = Finished (Crashed e)
     \<and> queue (s_broker (settle w m True (on_delivery a (Some (pub_body m))) (s\<lparr>s_broker := take_message m (s_broker s)\<rparr>))) QUEUE_NAME
       = m # remove1 m (queue (s_broker s) QUEUE_NAME)"
  using assms by (simp add: on_delivery_def JSON_roundtrip settle_def requeue_def take_message_def)

end
